(* ===== verification/Go_Prelude.thy ===== *)
theory Go_Prelude
  imports Main "HOL-Library.Word" "HOL-Library.Multiset"
begin

text \<open>
  Shared vocabulary of the development: Go's fixed-width integers, the outcome of a Go function
  that may panic, the standard-library searches and sorts the program uses
  (\<^verbatim>\<open>sort.Search\<close>, \<^verbatim>\<open>sort.Slice\<close>, a linear search that returns value and index), and
  the generic lemmas on them that the component theories use.
\<close>

named_theorems go_defs \<open>definitions of model operations that a component proof unfolds\<close>
named_theorems lookup_simps \<open>how a lookup reads a container after an update\<close>

type_synonym u8 = "8 word"
type_synonym u16 = "16 word"
type_synonym u32 = "32 word"
type_synonym u64 = "64 word"

text \<open>
  Signed 64-bit values are integers; \<open>i64\<close> is the wrap-around of Go's arithmetic and
  conversions at that width. Times are nanoseconds since Go's zero time, so the zero
  \<^verbatim>\<open>time.Time\<close> is 0; durations are nanoseconds.
\<close>

definition i64 :: "int \<Rightarrow> int" where
  "i64 x = signed_take_bit 63 x"

type_synonym gotime = int
type_synonym duration = int

definition IsZero :: "gotime \<Rightarrow> bool" where
  "IsZero t \<longleftrightarrow> t = 0"

lemma i64_id [simp]: "- (2 ^ 63) \<le> x \<Longrightarrow> x < 2 ^ 63 \<Longrightarrow> i64 x = x"
  by (simp add: i64_def signed_take_bit_int_eq_self)

lemma word_less_inc: "c \<noteq> - 1 \<Longrightarrow> c < c + 1" for c :: "'a::len word"
  using unatSuc [of c] by (simp add: word_less_nat_alt add.commute add_eq_0_iff minus_equation_iff [of c])

subsection \<open>Outcomes\<close>

datatype 'a outcome = Panic string | Ret 'a

fun and_then :: "'a outcome \<Rightarrow> ('a \<Rightarrow> 'b outcome) \<Rightarrow> 'b outcome" where
  "and_then (Panic m) f = Panic m"
| "and_then (Ret a) f = f a"

lemma and_then_eq_Ret [simp]: "and_then x f = Ret b \<longleftrightarrow> (\<exists>a. x = Ret a \<and> f a = Ret b)"
  by (cases x) auto

fun is_ret :: "'a outcome \<Rightarrow> bool" where
  "is_ret (Ret _) = True"
| "is_ret (Panic _) = False"

lemma is_ret_iff: "is_ret x \<longleftrightarrow> (\<exists>a. x = Ret a)"
  by (cases x) auto

lemma and_then_cong [fundef_cong]:
  "x = y \<Longrightarrow> (\<And>a. y = Ret a \<Longrightarrow> f a = g a) \<Longrightarrow> and_then x f = and_then y g"
  by (cases y) auto

text \<open>A loop over a slice whose body may panic.\<close>

fun fold_outcome :: "('a \<Rightarrow> 's \<Rightarrow> 's outcome) \<Rightarrow> 'a list \<Rightarrow> 's \<Rightarrow> 's outcome" where
  "fold_outcome f [] s = Ret s"
| "fold_outcome f (x # xs) s = and_then (f x s) (fold_outcome f xs)"

lemma fold_outcome_invariant:
  assumes "fold_outcome f xs s = Ret s'" and "P s"
    and "\<And>x s s'. x \<in> set xs \<Longrightarrow> f x s = Ret s' \<Longrightarrow> P s \<Longrightarrow> P s'"
  shows "P s'"
  using assms
proof (induction xs arbitrary: s)
  case (Cons x xs)
  then obtain t where t: "f x s = Ret t" "fold_outcome f xs t = Ret s'" by auto
  show ?case
  proof (rule Cons.IH [OF t(2)])
    show "P t" using Cons.prems(2) Cons.prems(3) [OF _ t(1)] by simp
  qed (use Cons.prems(3) in auto)
qed simp

lemma fold_outcome_append:
  "fold_outcome f (xs @ ys) s = and_then (fold_outcome f xs s) (fold_outcome f ys)"
proof (induction xs arbitrary: s)
  case (Cons x xs)
  then show ?case by (cases "f x s") simp_all
qed simp

subsection \<open>Linear search with an index\<close>

fun find_from :: "nat \<Rightarrow> ('a \<Rightarrow> bool) \<Rightarrow> 'a list \<Rightarrow> ('a \<times> nat) option" where
  "find_from i P [] = None"
| "find_from i P (x # xs) = (if P x then Some (x, i) else find_from (Suc i) P xs)"

abbreviation find_index :: "('a \<Rightarrow> bool) \<Rightarrow> 'a list \<Rightarrow> ('a \<times> nat) option" where
  "find_index \<equiv> find_from 0"

lemma find_from_None [simp]: "find_from i P xs = None \<longleftrightarrow> (\<forall>x\<in>set xs. \<not> P x)"
  by (induction xs arbitrary: i) auto

lemma find_from_SomeD:
  assumes "find_from i P xs = Some (x, j)"
  shows "i \<le> j \<and> j - i < length xs \<and> xs ! (j - i) = x \<and> P x \<and> (\<forall>k < j - i. \<not> P (xs ! k))"
  using assms
proof (induction xs arbitrary: i)
  case (Cons y ys)
  show ?case
  proof (cases "P y")
    case False
    with Cons.prems have "find_from (Suc i) P ys = Some (x, j)" by simp
    note IH = Cons.IH [OF this]
    then have j: "j - i = Suc (j - Suc i)" by arith
    have "\<not> P ((y # ys) ! k)" if "k < j - i" for k
      using IH False that j by (cases k) auto
    then show ?thesis using IH j by auto
  qed (use Cons.prems in simp)
qed simp

lemma find_index_SomeD:
  assumes "find_index P xs = Some (x, j)"
  shows "j < length xs" "xs ! j = x" "P x" "x \<in> set xs"
  using find_from_SomeD [OF assms] by auto

lemma find_from_fst: "map_option fst (find_from i P xs) = find P xs"
  by (induction xs arbitrary: i) auto

definition remove_at :: "nat \<Rightarrow> 'a list \<Rightarrow> 'a list" where
  "remove_at i xs = take i xs @ drop (Suc i) xs"

lemma length_remove_at [simp]: "i < length xs \<Longrightarrow> length (remove_at i xs) = length xs - 1"
  by (simp add: remove_at_def)

lemma set_remove_at_subset: "set (remove_at i xs) \<subseteq> set xs"
  by (auto simp: remove_at_def dest: in_set_takeD in_set_dropD)

lemma remove_at_conv_filter:
  assumes "distinct (map k xs)" and "i < length xs"
  shows "remove_at i xs = filter (\<lambda>x. k x \<noteq> k (xs ! i)) xs"
proof -
  have xs: "xs = take i xs @ xs ! i # drop (Suc i) xs"
    using assms(2) by (rule id_take_nth_drop)
  have "distinct (map k (take i xs @ xs ! i # drop (Suc i) xs))"
    using assms(1) xs by simp
  then have d: "(\<forall>x\<in>set (take i xs). k x \<noteq> k (xs ! i)) \<and> (\<forall>x\<in>set (drop (Suc i) xs). k x \<noteq> k (xs ! i))"
    by (auto simp: image_iff)
  have "filter (\<lambda>x. k x \<noteq> k (xs ! i)) (take i xs @ xs ! i # drop (Suc i) xs)
      = take i xs @ drop (Suc i) xs"
    using d by (simp add: filter_id_conv)
  then show ?thesis using xs by (simp add: remove_at_def)
qed

subsection \<open>\<^verbatim>\<open>sort.Search\<close>: the smallest index at which a monotone test holds\<close>

function search_loop :: "(nat \<Rightarrow> bool) \<Rightarrow> nat \<Rightarrow> nat \<Rightarrow> nat" where
  "search_loop f i j =
     (if i < j
      then let h = (i + j) div 2
           in if \<not> f h then search_loop f (h + 1) j else search_loop f i h
      else i)"
  by pat_completeness auto
termination
  by (relation "measure (\<lambda>(f, i, j). j - i)") auto

declare search_loop.simps [simp del]

definition sort_Search :: "nat \<Rightarrow> (nat \<Rightarrow> bool) \<Rightarrow> nat" where
  "sort_Search n f = search_loop f 0 n"

lemma search_loop_correct:
  assumes "\<forall>k < i. \<not> f k" and "\<forall>k. j \<le> k \<longrightarrow> k < n \<longrightarrow> f k" and "i \<le> j" and "j \<le> n"
    and "\<And>a b. a \<le> b \<Longrightarrow> b < n \<Longrightarrow> f a \<Longrightarrow> f b"
  shows "search_loop f i j \<le> n \<and> (\<forall>k < search_loop f i j. \<not> f k)
    \<and> (\<forall>k. search_loop f i j \<le> k \<longrightarrow> k < n \<longrightarrow> f k)"
  using assms
proof (induction f i j rule: search_loop.induct)
  case (1 f i j)
  note mono = "1.prems"(5)
  show ?case
  proof (cases "i < j")
    case False
    then have "search_loop f i j = i" by (simp add: search_loop.simps [of f i j])
    with "1.prems"(1-4) False show ?thesis by auto
  next
    case True
    define h where "h = (i + j) div 2"
    have h: "i \<le> h" "h < j" using True by (auto simp: h_def)
    show ?thesis
    proof (cases "f h")
      case fh: True
      have up: "\<forall>k. h \<le> k \<longrightarrow> k < n \<longrightarrow> f k" using mono fh by blast
      have eq: "search_loop f i j = search_loop f i h"
        using True fh by (simp add: search_loop.simps [of f i j] h_def Let_def)
      show ?thesis unfolding eq
      proof (rule "1.IH"(2) [OF True h_def])
        show "\<not> \<not> f h" using fh by simp
        show "h \<le> n" using h "1.prems"(4) by simp
      qed (fact "1.prems"(1) up h(1) mono)+
    next
      case fh: False
      have lo: "\<forall>k < h + 1. \<not> f k"
      proof (intro allI impI notI)
        fix k assume "k < h + 1" "f k"
        then have "f h" using mono [of k h] h "1.prems"(4) by simp
        with fh show False by contradiction
      qed
      have eq: "search_loop f i j = search_loop f (h + 1) j"
        using True fh by (simp add: search_loop.simps [of f i j] h_def Let_def)
      show ?thesis unfolding eq
      proof (rule "1.IH"(1) [OF True h_def])
        show "h + 1 \<le> j" using h by simp
      qed (fact fh lo "1.prems"(2,4) mono)+
    qed
  qed
qed

lemma sort_Search_correct:
  assumes "\<And>a b. a \<le> b \<Longrightarrow> b < n \<Longrightarrow> f a \<Longrightarrow> f b"
  shows "sort_Search n f \<le> n"
    and "k < sort_Search n f \<Longrightarrow> \<not> f k"
    and "sort_Search n f \<le> k \<Longrightarrow> k < n \<Longrightarrow> f k"
proof -
  have *: "search_loop f 0 n \<le> n \<and> (\<forall>k < search_loop f 0 n. \<not> f k)
    \<and> (\<forall>k. search_loop f 0 n \<le> k \<longrightarrow> k < n \<longrightarrow> f k)"
    by (rule search_loop_correct [OF _ _ _ _ assms]) auto
  show "sort_Search n f \<le> n"
    and "k < sort_Search n f \<Longrightarrow> \<not> f k"
    and "sort_Search n f \<le> k \<Longrightarrow> k < n \<Longrightarrow> f k"
    using * by (simp_all add: sort_Search_def)
qed

text \<open>
  Looking a key up in a slice sorted by that key: the test \<open>key \<ge> id\<close> is monotone there, so the
  binary search finds the entry exactly when the linear one does.
\<close>

definition binary_find :: "('a \<Rightarrow> 'k::linorder) \<Rightarrow> 'k \<Rightarrow> 'a list \<Rightarrow> nat option" where
  "binary_find key k xs =
     (let i = sort_Search (length xs) (\<lambda>i. key (xs ! i) \<ge> k)
      in if i < length xs \<and> key (xs ! i) = k then Some i else None)"

lemma binary_find_None:
  assumes "sorted (map key xs)"
  shows "binary_find key k xs = None \<longleftrightarrow> k \<notin> key ` set xs"
proof -
  let ?f = "\<lambda>i. key (xs ! i) \<ge> k"
  let ?i = "sort_Search (length xs) ?f"
  have m: "\<And>a b. a \<le> b \<Longrightarrow> b < length xs \<Longrightarrow> ?f a \<Longrightarrow> ?f b"
  proof -
    fix a b assume ab: "a \<le> b" "b < length xs" and "?f a"
    have "key (xs ! a) \<le> key (xs ! b)"
      using sorted_nth_mono [OF assms ab(1)] ab by simp
    with \<open>?f a\<close> show "?f b" by simp
  qed
  have le: "?i \<le> j" if "?f j" "j < length xs" for j
  proof (rule ccontr)
    assume "\<not> ?i \<le> j"
    then have "\<not> ?f j" using sort_Search_correct(2) [of "length xs" ?f j, OF m] by simp
    with that show False by simp
  qed
  have ge: "?f ?i" if "?i < length xs"
    by (rule sort_Search_correct(3) [OF m]) (use that in auto)
  show ?thesis
  proof
    assume none: "binary_find key k xs = None"
    show "k \<notin> key ` set xs"
    proof
      assume "k \<in> key ` set xs"
      then obtain j where j: "j < length xs" "key (xs ! j) = k" by (auto simp: in_set_conv_nth)
      then have ij: "?i \<le> j" using le [of j] by simp
      then have "key (xs ! ?i) \<le> k"
        using j sorted_nth_mono [OF assms, of ?i j] by simp
      moreover have "k \<le> key (xs ! ?i)" using ge ij j by simp
      ultimately show False using none ij j by (simp add: binary_find_def Let_def)
    qed
  next
    assume "k \<notin> key ` set xs"
    then have "key (xs ! i) \<noteq> k" if "i < length xs" for i using that by auto
    then show "binary_find key k xs = None" by (simp add: binary_find_def Let_def)
  qed
qed

lemma binary_find_SomeD:
  "binary_find key k xs = Some i \<Longrightarrow> i < length xs \<and> key (xs ! i) = k"
  by (auto simp: binary_find_def Let_def split: if_splits)

lemma find_unique_key:
  assumes "distinct (map key xs)" and "x \<in> set xs"
  shows "find (\<lambda>y. key y = key x) xs = Some x"
  using assms by (induction xs) (auto simp: image_iff)

lemma binary_find_eq_find:
  assumes "sorted (map key xs)" and "distinct (map key xs)"
  shows "map_option (nth xs) (binary_find key k xs) = find (\<lambda>x. key x = k) xs"
proof (cases "binary_find key k xs")
  case None
  then have "\<forall>x\<in>set xs. key x \<noteq> k" using binary_find_None [OF assms(1)] by auto
  then have "find (\<lambda>x. key x = k) xs = None" by (simp add: find_None_iff)
  with None show ?thesis by simp
next
  case (Some i)
  then show ?thesis using binary_find_SomeD [OF Some] find_unique_key [OF assms(2), of "xs ! i"]
    by auto
qed

subsection \<open>\<^verbatim>\<open>sort.Slice\<close> by a key\<close>

text \<open>
  \<^verbatim>\<open>sort.Slice\<close> leaves the order of entries with equal keys open. Where the keys are distinct
  the result is determined (\<open>sort_Slice_unique\<close>); the model picks the stable one.
\<close>

definition sort_Slice :: "('a \<Rightarrow> 'k::linorder) \<Rightarrow> 'a list \<Rightarrow> 'a list" where
  "sort_Slice key xs = sort_key key xs"

lemma sort_Slice_sorted [simp]: "sorted (map key (sort_Slice key xs))"
  by (simp add: sort_Slice_def)

lemma sort_Slice_set [simp]: "set (sort_Slice key xs) = set xs"
  by (simp add: sort_Slice_def)

lemma sort_Slice_length [simp]: "length (sort_Slice key xs) = length xs"
  by (simp add: sort_Slice_def)

lemma sort_Slice_distinct [simp]: "distinct (map f (sort_Slice key xs)) \<longleftrightarrow> distinct (map f xs)"
  by (rule mset_eq_imp_distinct_iff) (simp add: sort_Slice_def)

lemma find_sort_Slice [lookup_simps]:
  assumes "distinct (map key xs)"
  shows "find (\<lambda>x. key x = k) (sort_Slice key xs) = find (\<lambda>x. key x = k) xs"
proof (cases "k \<in> key ` set xs")
  case True
  then obtain x where x: "x \<in> set xs" "key x = k" by auto
  then show ?thesis
    using find_unique_key [OF assms x(1)] find_unique_key [of key "sort_Slice key xs" x] assms by simp
next
  case False
  then have "find (\<lambda>x. key x = k) (sort_Slice key xs) = None" "find (\<lambda>x. key x = k) xs = None"
    by (auto simp: find_None_iff)
  then show ?thesis by simp
qed

lemma sort_Slice_unique:
  assumes "distinct (map key xs)" and "mset ys = mset xs" and "sorted (map key ys)"
  shows "ys = sort_Slice key xs"
proof -
  have "inj_on key (set xs)" using assms(1) by (simp add: distinct_map)
  then show ?thesis
    unfolding sort_Slice_def using assms(2,3) by (intro sym [OF sort_key_inj_key_eq]) auto
qed

end
