(* ===== verification/Struct_Values.thy ===== *)
theory Struct_Values
  imports Go_Prelude
begin

text \<open>
  The dynamically typed values of \<^verbatim>\<open>google.protobuf.Struct\<close> that message headers, binding
  arguments and AMQP tables are made of, and \<^verbatim>\<open>reflect.DeepEqual\<close> on them. A Go map has no
  order: a field map is a list of entries in some order, without repeated keys where it is
  well formed. A \<^verbatim>\<open>Fields\<close> map is \<open>None\<close> when it (or the struct itself) is nil. A
  \<^verbatim>\<open>float64\<close> is its 64-bit IEEE 754 pattern.
\<close>

datatype pvalue =
    NullValue
  | NumberValue u64
  | StringValue string
  | BoolValue bool
  | StructValue "(string \<times> pvalue) list option"
  | ListValue "pvalue list"

type_synonym pfields = "(string \<times> pvalue) list"
type_synonym pstruct = "pfields option"

text \<open>Go's \<open>==\<close> on \<^verbatim>\<open>float64\<close>: a NaN differs from everything, the two zeros are equal.\<close>

definition f64_is_nan :: "u64 \<Rightarrow> bool" where
  "f64_is_nan b \<longleftrightarrow> take_bit 11 (drop_bit 52 b) = 2047 \<and> take_bit 52 b \<noteq> 0"

definition f64_is_zero :: "u64 \<Rightarrow> bool" where
  "f64_is_zero b \<longleftrightarrow> take_bit 63 b = 0"

definition f64_eq :: "u64 \<Rightarrow> u64 \<Rightarrow> bool" where
  "f64_eq a b \<longleftrightarrow> \<not> f64_is_nan a \<and> \<not> f64_is_nan b \<and> (a = b \<or> f64_is_zero a \<and> f64_is_zero b)"

fun DeepEqual :: "pvalue \<Rightarrow> pvalue \<Rightarrow> bool" where
  "DeepEqual NullValue NullValue = True"
| "DeepEqual (NumberValue a) (NumberValue b) = f64_eq a b"
| "DeepEqual (StringValue a) (StringValue b) = (a = b)"
| "DeepEqual (BoolValue a) (BoolValue b) = (a = b)"
| "DeepEqual (StructValue None) (StructValue None) = True"
| "DeepEqual (StructValue (Some m)) (StructValue (Some m')) =
     (length m = length m' \<and>
      list_all (\<lambda>e. case map_of m' (fst e) of None \<Rightarrow> False | Some v \<Rightarrow> DeepEqual (snd e) v) m)"
| "DeepEqual (ListValue vs) (ListValue vs') = list_all2 DeepEqual vs vs'"
| "DeepEqual _ _ = False"

fun has_nan :: "pvalue \<Rightarrow> bool" where
  "has_nan (NumberValue b) = f64_is_nan b"
| "has_nan (StructValue (Some m)) = list_ex (\<lambda>e. has_nan (snd e)) m"
| "has_nan (ListValue vs) = list_ex has_nan vs"
| "has_nan _ = False"

fun wf_value :: "pvalue \<Rightarrow> bool" where
  "wf_value (StructValue (Some m)) = (distinct (map fst m) \<and> list_all (\<lambda>e. wf_value (snd e)) m)"
| "wf_value (ListValue vs) = list_all wf_value vs"
| "wf_value _ = True"

lemma DeepEqual_refl: "wf_value v \<Longrightarrow> \<not> has_nan v \<Longrightarrow> DeepEqual v v"
proof (induction v rule: wf_value.induct)
  case (1 m)
  have "DeepEqual (snd e) (snd e) \<and> map_of m (fst e) = Some (snd e)" if "e \<in> set m" for e
    using 1 that by (auto simp: list_all_iff list_ex_iff)
  then show ?case by (auto simp: list_all_iff)
next
  case (2 vs)
  then show ?case by (auto simp: list_all_iff list_ex_iff list_all2_same)
qed (auto simp: f64_eq_def)

end
