(* ===== verification/Cluster_State.thy ===== *)
theory Cluster_State
  imports Struct_Values
begin

text \<open>
  The replicated cluster state (\<^verbatim>\<open>mq/cluster_state.proto\<close>), its queries
  (\<^verbatim>\<open>mq/cluster_state_queries.go\<close>) and the twelve state-machine commands
  (\<^verbatim>\<open>mq/cluster_state_do_*.go\<close>). A pointer that may be nil is an option, a repeated field a
  list. Go copies the slice it changes and shares the rest, so the value a command returns is
  the updated record and nothing observable is mutated.
\<close>

subsection \<open>Data\<close>

record ClusterTopic =
  topic_Name :: string
  Shards :: u32
  ReplicationFactor :: u32
  Retention :: duration
  DefaultExchangeType :: string

datatype BindingBy = ByNone | ByRoutingKey string | ByHeadersAll pfields | ByHeadersAny pfields

record ClusterBinding =
  bind_TopicName :: string
  bind_ExchangeType :: string
  bind_By :: BindingBy

record OffsetCommit =
  oc_SegmentID :: u64
  oc_Offset :: int

record ClusterConsumerGroup =
  group_Name :: string
  Bindings :: "ClusterBinding list"
  group_Size :: u32
  Since :: gotime
  OffsetCommits :: "OffsetCommit list"

record ClusterNamespace =
  ns_Name :: string
  Topics :: "ClusterTopic list"
  ConsumerGroups :: "ClusterConsumerGroup list"

datatype SegmentType = INVALID | TOPIC | CONSUMER_GROUP_OFFSET_COMMITS

record SegmentNodes =
  PrimaryNodeID :: u64
  DoneNodeIDs :: "u64 list"
  ReplicatingNodeIDs :: "u64 list"

record ClusterSegment =
  seg_ID :: u64
  seg_Type :: SegmentType
  OwnerNamespace :: string
  OwnerName :: string
  Generation :: u32
  Shard :: u32
  CreatedAt :: gotime
  ClosedAt :: gotime
  seg_Nodes :: SegmentNodes
  seg_Size :: int
  Sha1 :: "u8 list"

datatype NodeState = DEAD | ALIVE

record ClusterNode =
  node_ID :: u64
  Address :: string
  node_State :: NodeState
  LastSeenAlive :: "gotime option"

record ClusterState =
  Index :: u64
  CurrentSegmentID :: u64
  Namespaces :: "ClusterNamespace list"
  OpenSegments :: "ClusterSegment list"
  ClosedSegments :: "ClusterSegment list"
  Nodes :: "ClusterNode list"

record SegmentCreate =
  sc_ID :: u64
  sc_Type :: SegmentType
  sc_OwnerNamespace :: string
  sc_OwnerName :: string
  sc_Generation :: u32
  sc_Shard :: u32
  sc_OpenedAt :: gotime
  sc_PrimaryNodeID :: u64
  sc_ReplicatingNodeIDs :: "u64 list"

record SegmentClose =
  cl_ID :: u64
  cl_DoneNodeID :: u64
  cl_ClosedAt :: gotime
  cl_Size :: int
  cl_Sha1 :: "u8 list"

record NodeUpdate =
  nu_ID :: u64
  nu_Address :: string
  nu_State :: NodeState
  nu_LastSeenAlive :: "gotime option"

datatype Which = WhichINVALID | OPEN | CLOSED

datatype ClusterCommand =
    CreateNamespace string
  | DeleteNamespace string
  | CreateTopic string ClusterTopic
  | DeleteTopic string string
  | CreateConsumerGroup string ClusterConsumerGroup
  | DeleteConsumerGroup string string
  | UpdateConsumerGroupOffsetCommits string string "OffsetCommit list"
  | CreateSegment SegmentCreate
  | CloseSegment SegmentClose
  | UpdateSegmentNodes u64 Which SegmentNodes
  | DeleteSegment u64 Which
  | UpdateNode NodeUpdate

definition empty_state :: ClusterState where
  "empty_state = \<lparr>Index = 0, CurrentSegmentID = 0, Namespaces = [], OpenSegments = [],
     ClosedSegments = [], Nodes = []\<rparr>"

subsection \<open>Queries\<close>

definition FindNamespace :: "ClusterState \<Rightarrow> string \<Rightarrow> (ClusterNamespace \<times> nat) option" where
  "FindNamespace s name = find_index (\<lambda>namespace. ns_Name namespace = name) (Namespaces s)"

definition FindTopic :: "ClusterNamespace \<Rightarrow> string \<Rightarrow> (ClusterTopic \<times> nat) option" where
  "FindTopic n name = find_index (\<lambda>topic. topic_Name topic = name) (Topics n)"

definition FindConsumerGroup :: "ClusterNamespace \<Rightarrow> string \<Rightarrow> (ClusterConsumerGroup \<times> nat) option" where
  "FindConsumerGroup n name = find_index (\<lambda>cg. group_Name cg = name) (ConsumerGroups n)"

definition ListTopics :: "ClusterNamespace \<Rightarrow> string \<Rightarrow> ClusterTopic list" where
  "ListTopics n topicName =
     (if topicName = [] then Topics n
      else case FindTopic n topicName of None \<Rightarrow> [] | Some (topic, _) \<Rightarrow> [topic])"

definition ListConsumerGroups :: "ClusterNamespace \<Rightarrow> string \<Rightarrow> ClusterConsumerGroup list" where
  "ListConsumerGroups n consumerGroupName =
     (if consumerGroupName = [] then ConsumerGroups n
      else case FindConsumerGroup n consumerGroupName of None \<Rightarrow> [] | Some (cg, _) \<Rightarrow> [cg])"

definition AnyConsumerGroupReferencesTopic :: "ClusterNamespace \<Rightarrow> string \<Rightarrow> bool" where
  "AnyConsumerGroupReferencesTopic n topicName =
     list_ex (\<lambda>cg. list_ex (\<lambda>b. bind_TopicName b = topicName) (Bindings cg)) (ConsumerGroups n)"

definition GetTopic :: "ClusterState \<Rightarrow> string \<Rightarrow> string \<Rightarrow> ClusterTopic option" where
  "GetTopic s namespaceName topicName =
     (case FindNamespace s namespaceName of
        None \<Rightarrow> None
      | Some (namespace, _) \<Rightarrow> map_option fst (FindTopic namespace topicName))"

definition TopicExists :: "ClusterState \<Rightarrow> string \<Rightarrow> string \<Rightarrow> bool" where
  "TopicExists s namespaceName topicName =
     (case FindNamespace s namespaceName of
        None \<Rightarrow> False
      | Some (namespace, _) \<Rightarrow> FindTopic namespace topicName \<noteq> None)"

definition GetConsumerGroup :: "ClusterState \<Rightarrow> string \<Rightarrow> string \<Rightarrow> ClusterConsumerGroup option" where
  "GetConsumerGroup s namespaceName consumerGroupName =
     (case FindNamespace s namespaceName of
        None \<Rightarrow> None
      | Some (namespace, _) \<Rightarrow> map_option fst (FindConsumerGroup namespace consumerGroupName))"

definition ConsumerGroupExists :: "ClusterState \<Rightarrow> string \<Rightarrow> string \<Rightarrow> bool" where
  "ConsumerGroupExists s namespaceName consumerGroupName =
     (case FindNamespace s namespaceName of
        None \<Rightarrow> False
      | Some (namespace, _) \<Rightarrow> FindConsumerGroup namespace consumerGroupName \<noteq> None)"

definition owned_by :: "SegmentType \<Rightarrow> string \<Rightarrow> string \<Rightarrow> ClusterSegment \<Rightarrow> bool" where
  "owned_by t namespaceName name segment \<longleftrightarrow>
     seg_Type segment = t \<and> OwnerNamespace segment = namespaceName \<and> OwnerName segment = name"

definition FindOpenSegmentsFor :: "ClusterState \<Rightarrow> SegmentType \<Rightarrow> string \<Rightarrow> string \<Rightarrow> ClusterSegment list" where
  "FindOpenSegmentsFor s segmentType namespaceName name =
     filter (owned_by segmentType namespaceName name) (OpenSegments s)"

definition FindOpenSegmentsIn :: "ClusterState \<Rightarrow> u64 \<Rightarrow> ClusterSegment list" where
  "FindOpenSegmentsIn s nodeID = filter (\<lambda>g. PrimaryNodeID (seg_Nodes g) = nodeID) (OpenSegments s)"

definition GetOpenSegment :: "ClusterState \<Rightarrow> u64 \<Rightarrow> ClusterSegment option" where
  "GetOpenSegment s i = map_option (nth (OpenSegments s)) (binary_find seg_ID i (OpenSegments s))"

definition GetClosedSegment :: "ClusterState \<Rightarrow> u64 \<Rightarrow> ClusterSegment option" where
  "GetClosedSegment s i = map_option (nth (ClosedSegments s)) (binary_find seg_ID i (ClosedSegments s))"

definition GetSegment :: "ClusterState \<Rightarrow> u64 \<Rightarrow> ClusterSegment option" where
  "GetSegment s i =
     (case GetOpenSegment s i of
        Some segment \<Rightarrow> Some segment
      | None \<Rightarrow> (case GetClosedSegment s i of Some segment \<Rightarrow> Some segment | None \<Rightarrow> None))"

text \<open>A Go \<^verbatim>\<open>map[uint64]int\<close> that is only read and incremented is a function with default 0.\<close>

type_synonym counts = "u64 \<Rightarrow> int"

definition bump :: "u64 \<Rightarrow> counts \<Rightarrow> counts" where
  "bump i m = m(i := m i + 1)"

definition count_segment :: "ClusterSegment \<Rightarrow> counts \<Rightarrow> counts" where
  "count_segment segment m =
     (let m1 = (if PrimaryNodeID (seg_Nodes segment) > 0
                then bump (PrimaryNodeID (seg_Nodes segment)) m else m);
          m2 = fold bump (ReplicatingNodeIDs (seg_Nodes segment)) m1
      in fold bump (DoneNodeIDs (seg_Nodes segment)) m2)"

definition CountSegmentsPerNode :: "ClusterState \<Rightarrow> counts" where
  "CountSegmentsPerNode s =
     fold count_segment (ClosedSegments s) (fold count_segment (OpenSegments s) (\<lambda>_. 0))"

definition GetNode :: "ClusterState \<Rightarrow> u64 \<Rightarrow> ClusterNode option" where
  "GetNode s nodeID = find (\<lambda>node. node_ID node = nodeID) (Nodes s)"

end
