(* ===== verification/Cluster_Commands.thy ===== *)
theory Cluster_Commands
  imports Cluster_State
begin

text \<open>
  The commands of the replicated state machine (\<^verbatim>\<open>mq/cluster_state_do_*.go\<close>) and the store
  that applies them (\<^verbatim>\<open>mq/cluster_state_store.go\<close>). A command panics only where the Go code
  does; \<open>return s\<close> is \<open>Ret s\<close>.
\<close>

definition namespace_must_exist :: string where
  "namespace_must_exist = ''namespace must exist''"

subsection \<open>Namespaces\<close>

definition doCreateNamespace :: "string \<Rightarrow> ClusterState \<Rightarrow> ClusterState outcome" where
  "doCreateNamespace name s =
     (case FindNamespace s name of
        Some _ \<Rightarrow> Ret s
      | None \<Rightarrow> Ret (s\<lparr>Namespaces := Namespaces s @ [\<lparr>ns_Name = name, Topics = [], ConsumerGroups = []\<rparr>]\<rparr>))"

definition doDeleteNamespace :: "string \<Rightarrow> ClusterState \<Rightarrow> ClusterState outcome" where
  "doDeleteNamespace name s =
     (case FindNamespace s name of
        None \<Rightarrow> Ret s
      | Some (_, namespaceIndex) \<Rightarrow> Ret (s\<lparr>Namespaces := remove_at namespaceIndex (Namespaces s)\<rparr>))"

subsection \<open>Topics\<close>

definition set_topic :: "ClusterTopic \<Rightarrow> ClusterTopic \<Rightarrow> ClusterTopic" where
  "set_topic t nextTopic = nextTopic\<lparr>
     DefaultExchangeType := DefaultExchangeType t, Shards := Shards t,
     ReplicationFactor := ReplicationFactor t, Retention := Retention t\<rparr>"

definition new_topic :: "string \<Rightarrow> ClusterTopic" where
  "new_topic name = \<lparr>topic_Name = name, Shards = 0, ReplicationFactor = 0, Retention = 0,
     DefaultExchangeType = []\<rparr>"

definition doCreateTopic :: "string \<Rightarrow> ClusterTopic \<Rightarrow> ClusterState \<Rightarrow> ClusterState outcome" where
  "doCreateTopic nsName t s =
     (case FindNamespace s nsName of
        None \<Rightarrow> Panic namespace_must_exist
      | Some (namespace, namespaceIndex) \<Rightarrow>
          let nextTopics =
                (case FindTopic namespace (topic_Name t) of
                   None \<Rightarrow> Topics namespace @ [set_topic t (new_topic (topic_Name t))]
                 | Some (topic, topicIndex) \<Rightarrow> (Topics namespace)[topicIndex := set_topic t topic])
          in Ret (s\<lparr>Namespaces := (Namespaces s)[namespaceIndex := namespace\<lparr>Topics := nextTopics\<rparr>]\<rparr>))"

text \<open>
  Deleting a topic drops, in every consumer group of the namespace, the bindings to the topic and
  the offset commits whose segment is gone or belongs to the topic; a group that loses nothing
  is kept as it is. Then it drops the topic's segments.
\<close>

definition drop_commit :: "ClusterState \<Rightarrow> string \<Rightarrow> string \<Rightarrow> OffsetCommit \<Rightarrow> bool" where
  "drop_commit s nsName name commit =
     (case GetSegment s (oc_SegmentID commit) of
        None \<Rightarrow> True
      | Some segment \<Rightarrow> owned_by TOPIC nsName name segment)"

definition delete_topic_refs :: "ClusterState \<Rightarrow> string \<Rightarrow> string \<Rightarrow> ClusterConsumerGroup \<Rightarrow> ClusterConsumerGroup \<times> bool" where
  "delete_topic_refs s nsName name cg =
     (let nextBindings = filter (\<lambda>b. bind_TopicName b \<noteq> name) (Bindings cg);
          nextOffsetCommits = filter (\<lambda>c. \<not> drop_commit s nsName name c) (OffsetCommits cg);
          changed = (list_ex (\<lambda>b. bind_TopicName b = name) (Bindings cg)
                     \<or> list_ex (drop_commit s nsName name) (OffsetCommits cg))
      in if \<not> changed then (cg, False)
         else (cg\<lparr>Bindings := nextBindings, OffsetCommits := nextOffsetCommits\<rparr>, True))"

definition drop_segments :: "(ClusterSegment \<Rightarrow> bool) \<Rightarrow> ClusterSegment list \<Rightarrow> ClusterSegment list" where
  "drop_segments P segments =
     (let changed = list_ex P segments; nextSegments = filter (\<lambda>g. \<not> P g) segments
      in if changed then nextSegments else segments)"

definition doDeleteTopic :: "string \<Rightarrow> string \<Rightarrow> ClusterState \<Rightarrow> ClusterState outcome" where
  "doDeleteTopic nsName name s =
     (case FindNamespace s nsName of
        None \<Rightarrow> Panic namespace_must_exist
      | Some (namespace, namespaceIndex) \<Rightarrow>
          (case FindTopic namespace name of
             None \<Rightarrow> Ret s
           | Some (_, topicIndex) \<Rightarrow>
               let results = map (delete_topic_refs s nsName name) (ConsumerGroups namespace);
                   nextNamespace = namespace\<lparr>Topics := remove_at topicIndex (Topics namespace)\<rparr>;
                   nextNamespace = (if list_ex snd results
                     then nextNamespace\<lparr>ConsumerGroups := map fst results\<rparr> else nextNamespace)
               in Ret (s\<lparr>Namespaces := (Namespaces s)[namespaceIndex := nextNamespace],
                    OpenSegments := drop_segments (owned_by TOPIC nsName name) (OpenSegments s),
                    ClosedSegments := drop_segments (owned_by TOPIC nsName name) (ClosedSegments s)\<rparr>)))"

subsection \<open>Consumer groups\<close>

definition set_group :: "ClusterConsumerGroup \<Rightarrow> ClusterConsumerGroup \<Rightarrow> ClusterConsumerGroup" where
  "set_group g nextConsumerGroup = nextConsumerGroup\<lparr>
     Bindings := Bindings g, group_Size := group_Size g, Since := Since g\<rparr>"

definition new_group :: "string \<Rightarrow> ClusterConsumerGroup" where
  "new_group name = \<lparr>group_Name = name, Bindings = [], group_Size = 0, Since = 0, OffsetCommits = []\<rparr>"

definition doCreateConsumerGroup :: "string \<Rightarrow> ClusterConsumerGroup \<Rightarrow> ClusterState \<Rightarrow> ClusterState outcome" where
  "doCreateConsumerGroup nsName g s =
     (case FindNamespace s nsName of
        None \<Rightarrow> Panic namespace_must_exist
      | Some (namespace, namespaceIndex) \<Rightarrow>
          let nextConsumerGroups =
                (case FindConsumerGroup namespace (group_Name g) of
                   None \<Rightarrow> ConsumerGroups namespace @ [set_group g (new_group (group_Name g))]
                 | Some (cg, i) \<Rightarrow> (ConsumerGroups namespace)[i := set_group g cg])
          in Ret (s\<lparr>Namespaces :=
               (Namespaces s)[namespaceIndex := namespace\<lparr>ConsumerGroups := nextConsumerGroups\<rparr>]\<rparr>))"

definition doDeleteConsumerGroup :: "string \<Rightarrow> string \<Rightarrow> ClusterState \<Rightarrow> ClusterState outcome" where
  "doDeleteConsumerGroup nsName name s =
     (case FindNamespace s nsName of
        None \<Rightarrow> Panic namespace_must_exist
      | Some (namespace, namespaceIndex) \<Rightarrow>
          (case FindConsumerGroup namespace name of
             None \<Rightarrow> Ret s
           | Some (_, consumerGroupIndex) \<Rightarrow>
               let mine = owned_by CONSUMER_GROUP_OFFSET_COMMITS nsName name;
                   nextNamespace = namespace\<lparr>ConsumerGroups :=
                     remove_at consumerGroupIndex (ConsumerGroups namespace)\<rparr>
               in Ret (s\<lparr>Namespaces := (Namespaces s)[namespaceIndex := nextNamespace],
                    OpenSegments := drop_segments mine (OpenSegments s),
                    ClosedSegments := drop_segments mine (ClosedSegments s)\<rparr>)))"

definition doUpdateOffsetCommits :: "string \<Rightarrow> string \<Rightarrow> OffsetCommit list \<Rightarrow> ClusterState \<Rightarrow> ClusterState outcome" where
  "doUpdateOffsetCommits nsName name commits s =
     (case FindNamespace s nsName of
        None \<Rightarrow> Panic namespace_must_exist
      | Some (namespace, namespaceIndex) \<Rightarrow>
          (case FindConsumerGroup namespace name of
             None \<Rightarrow> Ret s
           | Some (cg, i) \<Rightarrow>
               let nextConsumerGroup = cg\<lparr>OffsetCommits := sort_Slice oc_SegmentID commits\<rparr>
               in Ret (s\<lparr>Namespaces := (Namespaces s)[namespaceIndex :=
                    namespace\<lparr>ConsumerGroups := (ConsumerGroups namespace)[i := nextConsumerGroup]\<rparr>]\<rparr>)))"

subsection \<open>Segments\<close>

definition doOpenSegment :: "SegmentCreate \<Rightarrow> ClusterState \<Rightarrow> ClusterState outcome" where
  "doOpenSegment cmd s =
     (let segment = \<lparr>seg_ID = sc_ID cmd, seg_Type = sc_Type cmd,
            OwnerNamespace = sc_OwnerNamespace cmd, OwnerName = sc_OwnerName cmd,
            Generation = sc_Generation cmd, Shard = sc_Shard cmd,
            CreatedAt = sc_OpenedAt cmd, ClosedAt = 0,
            seg_Nodes = \<lparr>PrimaryNodeID = sc_PrimaryNodeID cmd, DoneNodeIDs = [],
              ReplicatingNodeIDs = sc_ReplicatingNodeIDs cmd\<rparr>,
            seg_Size = 0, Sha1 = []\<rparr>
      in Ret (s\<lparr>CurrentSegmentID :=
                  (if sc_ID cmd > CurrentSegmentID s then sc_ID cmd else CurrentSegmentID s),
                OpenSegments := sort_Slice seg_ID (OpenSegments s @ [segment])\<rparr>))"

definition close_segment :: "SegmentClose \<Rightarrow> ClusterSegment \<Rightarrow> ClusterSegment" where
  "close_segment cmd segment = segment\<lparr>ClosedAt := cl_ClosedAt cmd, seg_Size := cl_Size cmd,
     Sha1 := cl_Sha1 cmd,
     seg_Nodes := (seg_Nodes segment)\<lparr>PrimaryNodeID := 0, DoneNodeIDs := [cl_DoneNodeID cmd]\<rparr>\<rparr>"

definition doCloseSegment :: "SegmentClose \<Rightarrow> ClusterState \<Rightarrow> ClusterState outcome" where
  "doCloseSegment cmd s =
     (case find_index (\<lambda>segment. seg_ID segment = cl_ID cmd) (OpenSegments s) of
        None \<Rightarrow> Ret s
      | Some (segment, segmentIndex) \<Rightarrow>
          Ret (s\<lparr>OpenSegments := remove_at segmentIndex (OpenSegments s),
                 ClosedSegments := sort_Slice seg_ID (ClosedSegments s @ [close_segment cmd segment])\<rparr>))"

definition doUpdateSegmentNodesIn :: "ClusterSegment list \<Rightarrow> nat \<Rightarrow> SegmentNodes \<Rightarrow> ClusterSegment list" where
  "doUpdateSegmentNodesIn segments segmentIndex nodes =
     segments[segmentIndex := (segments ! segmentIndex)\<lparr>seg_Nodes := nodes\<rparr>]"

fun doUpdateSegmentNodes :: "u64 \<Rightarrow> Which \<Rightarrow> SegmentNodes \<Rightarrow> ClusterState \<Rightarrow> ClusterState outcome" where
  "doUpdateSegmentNodes i OPEN nodes s =
     (case binary_find seg_ID i (OpenSegments s) of
        Some k \<Rightarrow> Ret (s\<lparr>OpenSegments := doUpdateSegmentNodesIn (OpenSegments s) k nodes\<rparr>)
      | None \<Rightarrow> Ret s)"
| "doUpdateSegmentNodes i CLOSED nodes s =
     (case binary_find seg_ID i (ClosedSegments s) of
        Some k \<Rightarrow> Ret (s\<lparr>ClosedSegments := doUpdateSegmentNodesIn (ClosedSegments s) k nodes\<rparr>)
      | None \<Rightarrow> Ret s)"
| "doUpdateSegmentNodes i WhichINVALID nodes s = Panic ''unhandled which: INVALID''"

fun doDeleteSegment :: "u64 \<Rightarrow> Which \<Rightarrow> ClusterState \<Rightarrow> ClusterState outcome" where
  "doDeleteSegment i OPEN s =
     (case binary_find seg_ID i (OpenSegments s) of
        Some k \<Rightarrow> Ret (s\<lparr>OpenSegments := remove_at k (OpenSegments s)\<rparr>)
      | None \<Rightarrow> Ret s)"
| "doDeleteSegment i CLOSED s =
     (case binary_find seg_ID i (ClosedSegments s) of
        Some k \<Rightarrow> Ret (s\<lparr>ClosedSegments := remove_at k (ClosedSegments s)\<rparr>)
      | None \<Rightarrow> Ret s)"
| "doDeleteSegment i WhichINVALID s = Panic ''unhandled which: INVALID''"

subsection \<open>Nodes\<close>

definition set_node :: "NodeUpdate \<Rightarrow> ClusterNode \<Rightarrow> ClusterNode" where
  "set_node cmd node = node\<lparr>node_ID := nu_ID cmd, Address := nu_Address cmd,
     node_State := nu_State cmd, LastSeenAlive := nu_LastSeenAlive cmd\<rparr>"

definition new_node :: ClusterNode where
  "new_node = \<lparr>node_ID = 0, Address = [], node_State = DEAD, LastSeenAlive = None\<rparr>"

definition doUpdateNode :: "NodeUpdate \<Rightarrow> ClusterState \<Rightarrow> ClusterState outcome" where
  "doUpdateNode cmd s =
     (let nextNodes =
            (case find_index (\<lambda>node. node_ID node = nu_ID cmd) (Nodes s) of
               None \<Rightarrow> Nodes s @ [set_node cmd new_node]
             | Some (node, nodeIndex) \<Rightarrow> (Nodes s)[nodeIndex := set_node cmd node])
      in Ret (s\<lparr>Nodes := sort_Slice node_ID nextNodes\<rparr>))"

subsection \<open>The store\<close>

text \<open>
  \<^verbatim>\<open>ClusterStateStore\<close> holds one pointer to the current state and replaces it by
  compare-and-swap, so each \<open>Do\<close> and each \<open>NextSegmentID\<close> is one atomic step on the state. A command
  with no body, at which \<open>Do\<close> panics, and a create command whose topic or group is nil cannot be
  written as a \<open>ClusterCommand\<close>.
\<close>

fun apply_command :: "ClusterCommand \<Rightarrow> ClusterState \<Rightarrow> ClusterState outcome" where
  "apply_command (CreateNamespace n) s = doCreateNamespace n s"
| "apply_command (DeleteNamespace n) s = doDeleteNamespace n s"
| "apply_command (CreateTopic n t) s = doCreateTopic n t s"
| "apply_command (DeleteTopic n name) s = doDeleteTopic n name s"
| "apply_command (CreateConsumerGroup n g) s = doCreateConsumerGroup n g s"
| "apply_command (DeleteConsumerGroup n name) s = doDeleteConsumerGroup n name s"
| "apply_command (UpdateConsumerGroupOffsetCommits n name cs) s = doUpdateOffsetCommits n name cs s"
| "apply_command (CreateSegment c) s = doOpenSegment c s"
| "apply_command (CloseSegment c) s = doCloseSegment c s"
| "apply_command (UpdateSegmentNodes i w ns) s = doUpdateSegmentNodes i w ns s"
| "apply_command (DeleteSegment i w) s = doDeleteSegment i w s"
| "apply_command (UpdateNode c) s = doUpdateNode c s"

definition Do :: "u64 \<Rightarrow> ClusterCommand option \<Rightarrow> ClusterState \<Rightarrow> ClusterState outcome" where
  "Do index cmd s =
     and_then (case cmd of None \<Rightarrow> Ret s | Some c \<Rightarrow> apply_command c s)
       (\<lambda>next. Ret (next\<lparr>Index := index\<rparr>))"

definition NextSegmentID :: "ClusterState \<Rightarrow> u64 \<times> ClusterState" where
  "NextSegmentID s = (CurrentSegmentID s + 1, s\<lparr>CurrentSegmentID := CurrentSegmentID s + 1\<rparr>)"

end
