(* ===== verification/Keyed_Lists.thy ===== *)
theory Keyed_Lists
  imports Go_Prelude
begin

text \<open>
  Slices of entities with a key (namespaces, topics, consumer groups, nodes, segments): the
  lookup by key as a map, and how each way the program rewrites such a slice changes that map.
\<close>

definition klookup :: "('a \<Rightarrow> 'k) \<Rightarrow> 'a list \<Rightarrow> 'k \<Rightarrow> 'a option" where
  "klookup key xs k = find (\<lambda>x. key x = k) xs"

lemma klookup_Nil [simp]: "klookup key [] k = None"
  by (simp add: klookup_def)

lemma klookup_Cons [simp]: "klookup key (x # xs) k = (if key x = k then Some x else klookup key xs k)"
  by (simp add: klookup_def)

lemma klookup_None_iff: "klookup key xs k = None \<longleftrightarrow> k \<notin> key ` set xs"
  by (induction xs) auto

lemma klookup_SomeD: "klookup key xs k = Some x \<Longrightarrow> x \<in> set xs \<and> key x = k"
  by (induction xs) (auto split: if_splits)

lemma klookup_unique: "distinct (map key xs) \<Longrightarrow> x \<in> set xs \<Longrightarrow> klookup key xs (key x) = Some x"
  by (simp add: klookup_def find_unique_key)

lemma klookup_Some_iff:
  "distinct (map key xs) \<Longrightarrow> klookup key xs k = Some x \<longleftrightarrow> x \<in> set xs \<and> key x = k"
  by (metis klookup_SomeD klookup_unique)

lemma klookup_append [lookup_simps]:
  "klookup key (xs @ ys) k = (case klookup key xs k of None \<Rightarrow> klookup key ys k | Some x \<Rightarrow> Some x)"
  by (induction xs) auto

lemma klookup_filter [lookup_simps]:
  assumes "distinct (map key xs)"
  shows "klookup key (filter P xs) k = Option.bind (klookup key xs k) (\<lambda>x. if P x then Some x else None)"
  using assms by (induction xs) (auto simp flip: klookup_None_iff)

lemma klookup_map [lookup_simps]:
  assumes "\<And>x. key (f x) = key x"
  shows "klookup key (map f xs) k = map_option f (klookup key xs k)"
  by (induction xs) (auto simp: assms)

lemma map_key_update [simp]:
  "i < length xs \<Longrightarrow> key y = key (xs ! i) \<Longrightarrow> map key (xs[i := y]) = map key xs"
  by (metis list_update_id map_update nth_map)

lemma klookup_update [lookup_simps]:
  assumes "distinct (map key xs)" and "i < length xs" and "key y = key (xs ! i)"
  shows "klookup key (xs[i := y]) k = (if k = key y then Some y else klookup key xs k)"
  using assms
proof (induction xs arbitrary: i)
  case (Cons x xs)
  show ?case
  proof (cases i)
    case (Suc j)
    then have "key x \<noteq> key y" using Cons.prems by (auto simp: image_iff)
    then show ?thesis using Cons Suc by auto
  qed (use Cons.prems in simp)
qed simp

lemma klookup_remove_at [lookup_simps]:
  assumes "distinct (map key xs)" and "i < length xs"
  shows "klookup key (remove_at i xs) k = (if k = key (xs ! i) then None else klookup key xs k)"
proof (cases "klookup key xs k")
  case None
  then show ?thesis
    by (simp add: remove_at_conv_filter [OF assms] klookup_filter [OF assms(1)])
next
  case (Some x)
  then show ?thesis using klookup_SomeD [OF Some]
    by (simp add: remove_at_conv_filter [OF assms] klookup_filter [OF assms(1)])
qed

lemma klookup_sort_Slice [lookup_simps]:
  "distinct (map key xs) \<Longrightarrow> klookup key (sort_Slice key xs) k = klookup key xs k"
  by (simp add: klookup_def find_sort_Slice)

lemma klookup_binary_find:
  "sorted (map key xs) \<Longrightarrow> distinct (map key xs) \<Longrightarrow>
   map_option (nth xs) (binary_find key k xs) = klookup key xs k"
  by (simp add: klookup_def binary_find_eq_find)

lemma binary_find_Some_lookup:
  assumes "sorted (map key xs)" and "distinct (map key xs)" and "binary_find key k xs = Some i"
  shows "i < length xs" and "key (xs ! i) = k" and "klookup key xs k = Some (xs ! i)"
  using binary_find_SomeD [OF assms(3)] klookup_binary_find [OF assms(1,2), of k] assms(3) by auto

lemma binary_find_None_lookup:
  "sorted (map key xs) \<Longrightarrow> distinct (map key xs) \<Longrightarrow> binary_find key k xs = None \<Longrightarrow>
   klookup key xs k = None"
  using klookup_binary_find [of key xs k] by simp

lemma find_index_lookup:
  "find_index (\<lambda>x. key x = k) xs = Some (x, i) \<Longrightarrow>
   i < length xs \<and> xs ! i = x \<and> key x = k \<and> klookup key xs k = Some x"
  using find_index_SomeD [of "\<lambda>x. key x = k" xs x i] find_from_fst [of 0 "\<lambda>x. key x = k" xs]
  by (simp add: klookup_def)

lemma find_index_None_lookup:
  "find_index (\<lambda>x. key x = k) xs = None \<longleftrightarrow> klookup key xs k = None"
  by (auto simp: klookup_None_iff)

lemma find_index_fst: "map_option fst (find_index (\<lambda>x. key x = k) xs) = klookup key xs k"
  by (simp add: klookup_def find_from_fst)

lemma sorted_remove_at: "sorted (map key xs) \<Longrightarrow> sorted (map key (remove_at i xs))"
proof -
  assume "sorted (map key xs)"
  moreover have "map key xs = map key (take i xs) @ map key (drop i xs)"
    by (simp flip: map_append)
  ultimately have s: "sorted (map key (take i xs) @ map key (drop i xs))" by simp
  show ?thesis
  proof (cases "i < length xs")
    case True
    then have "drop i xs = xs ! i # drop (Suc i) xs" by (simp add: Cons_nth_drop_Suc)
    with s show ?thesis by (auto simp: remove_at_def sorted_append)
  next
    case False
    with \<open>sorted (map key xs)\<close> show ?thesis by (simp add: remove_at_def)
  qed
qed

lemma distinct_remove_at: "distinct (map key xs) \<Longrightarrow> distinct (map key (remove_at i xs))"
proof -
  assume d: "distinct (map key xs)"
  show ?thesis
  proof (cases "i < length xs")
    case True
    then show ?thesis by (simp add: remove_at_conv_filter [OF d] distinct_map_filter d)
  qed (use d in \<open>simp add: remove_at_def\<close>)
qed

lemma sorted_map_filter: "sorted (map key xs) \<Longrightarrow> sorted (map key (filter P xs))"
  by (rule sorted_filter)


text \<open>The update-or-append idiom of the create commands.\<close>

lemma keyed_upsert:
  fixes key :: "'a \<Rightarrow> 'k" and f :: "'a \<Rightarrow> 'a"
  defines "upsert xs k d \<equiv> (case find_index (\<lambda>x. key x = k) xs of
      None \<Rightarrow> xs @ [f d] | Some (x, i) \<Rightarrow> xs[i := f x])"
  assumes d: "distinct (map key xs)" and k: "key (f d) = k" "\<And>x. key x = k \<Longrightarrow> key (f x) = k"
  shows "distinct (map key (upsert xs k d))"
    and "klookup key (upsert xs k d) =
      (klookup key xs)(k \<mapsto> f (case klookup key xs k of None \<Rightarrow> d | Some x \<Rightarrow> x))"
proof -
  have "distinct (map key (upsert xs k d)) \<and> klookup key (upsert xs k d) =
      (klookup key xs)(k \<mapsto> f (case klookup key xs k of None \<Rightarrow> d | Some x \<Rightarrow> x))"
  proof (cases "find_index (\<lambda>x. key x = k) xs")
    case None
    then have "klookup key xs k = None" by (simp only: find_index_None_lookup)
    then show ?thesis unfolding upsert_def None using d k(1)
      by (auto simp: klookup_append fun_eq_iff simp flip: klookup_None_iff split: option.splits)
  next
    case (Some a)
    then obtain x i where x: "find_index (\<lambda>x. key x = k) xs = Some (x, i)" by (cases a) auto
    show ?thesis unfolding upsert_def x using find_index_lookup [OF x] d k(2) [of x]
      by (auto simp: klookup_update fun_eq_iff)
  qed
  then show "distinct (map key (upsert xs k d))"
    and "klookup key (upsert xs k d) =
      (klookup key xs)(k \<mapsto> f (case klookup key xs k of None \<Rightarrow> d | Some x \<Rightarrow> x))" by auto
qed

end
