(* ===== verification/Cluster_Invariant.thy ===== *)
theory Cluster_Invariant
  imports Cluster_Commands Keyed_Lists
begin

text \<open>
  The well-formedness invariant of the cluster state, the abstract view of a state (finite maps
  instead of sorted slices), the abstract specification of each command on that view, and the
  proofs that every command keeps the invariant and implements its specification. The
  interface \<open>replicated_fsm\<close> states this as a contract and lifts it to logs of commands.
\<close>

subsection \<open>Invariant\<close>

definition wf_namespace :: "ClusterNamespace \<Rightarrow> bool" where
  "wf_namespace n \<longleftrightarrow> distinct (map topic_Name (Topics n)) \<and> distinct (map group_Name (ConsumerGroups n))"

definition wf_ids :: "('a \<Rightarrow> u64) \<Rightarrow> 'a list \<Rightarrow> bool" where
  "wf_ids key xs \<longleftrightarrow> sorted (map key xs) \<and> distinct (map key xs)"

definition segment_ids :: "ClusterState \<Rightarrow> u64 list" where
  "segment_ids s = map seg_ID (OpenSegments s @ ClosedSegments s)"

definition wf_state :: "ClusterState \<Rightarrow> bool" where
  "wf_state s \<longleftrightarrow>
     distinct (map ns_Name (Namespaces s)) \<and> list_all wf_namespace (Namespaces s) \<and>
     wf_ids seg_ID (OpenSegments s) \<and> wf_ids seg_ID (ClosedSegments s) \<and>
     distinct (segment_ids s) \<and> list_all (\<lambda>i. i \<le> CurrentSegmentID s) (segment_ids s) \<and>
     wf_ids node_ID (Nodes s)"

text \<open>The only command with a precondition is the creation of a segment: its ID is not in use.\<close>

fun admissible :: "ClusterCommand \<Rightarrow> ClusterState \<Rightarrow> bool" where
  "admissible (CreateSegment c) s = (sc_ID c \<notin> set (segment_ids s))"
| "admissible _ s = True"

lemmas wf_defs = wf_state_def wf_namespace_def wf_ids_def segment_ids_def

lemma wf_ids_update [simp]:
  "i < length xs \<Longrightarrow> key y = key (xs ! i) \<Longrightarrow> wf_ids key (xs[i := y]) = wf_ids key xs"
  by (simp add: wf_ids_def)

lemma wf_ids_remove_at [simp]: "wf_ids key xs \<Longrightarrow> wf_ids key (remove_at i xs)"
  by (simp add: wf_ids_def sorted_remove_at distinct_remove_at)

lemma wf_ids_filter [simp]: "wf_ids key xs \<Longrightarrow> wf_ids key (filter P xs)"
  by (simp add: wf_ids_def sorted_map_filter distinct_map_filter)

lemma wf_ids_insert: "wf_ids key xs \<Longrightarrow> key y \<notin> key ` set xs \<Longrightarrow> wf_ids key (sort_Slice key (xs @ [y]))"
  by (simp add: wf_ids_def)

lemma drop_segments_eq [simp]: "drop_segments P xs = filter (\<lambda>g. \<not> P g) xs"
  by (auto simp: drop_segments_def Let_def list_ex_iff filter_id_conv intro!: sym [of _ xs])

lemma wf_stateI:
  assumes "distinct (map ns_Name (Namespaces s))" "\<And>n. n \<in> set (Namespaces s) \<Longrightarrow> wf_namespace n"
    "wf_ids seg_ID (OpenSegments s)" "wf_ids seg_ID (ClosedSegments s)"
    "seg_ID ` set (OpenSegments s) \<inter> seg_ID ` set (ClosedSegments s) = {}"
    "\<And>g. g \<in> set (OpenSegments s) \<union> set (ClosedSegments s) \<Longrightarrow> seg_ID g \<le> CurrentSegmentID s"
    "wf_ids node_ID (Nodes s)"
  shows "wf_state s"
  using assms by (fastforce simp: wf_state_def segment_ids_def list_all_iff wf_ids_def)

lemma wf_stateD:
  assumes "wf_state s"
  shows "distinct (map ns_Name (Namespaces s))" "\<And>n. n \<in> set (Namespaces s) \<Longrightarrow> wf_namespace n"
    "wf_ids seg_ID (OpenSegments s)" "wf_ids seg_ID (ClosedSegments s)"
    "seg_ID ` set (OpenSegments s) \<inter> seg_ID ` set (ClosedSegments s) = {}"
    "\<And>g. g \<in> set (OpenSegments s) \<union> set (ClosedSegments s) \<Longrightarrow> seg_ID g \<le> CurrentSegmentID s"
    "wf_ids node_ID (Nodes s)"
  using assms by (auto simp: wf_state_def segment_ids_def list_all_iff)

lemma wf_idsD: "wf_ids key xs \<Longrightarrow> sorted (map key xs)" "wf_ids key xs \<Longrightarrow> distinct (map key xs)"
  by (simp_all add: wf_ids_def)

text \<open>Changes to the segment slices that keep a state well formed.\<close>

lemma wf_state_segments_subset:
  assumes "wf_state s" and "wf_ids seg_ID os" "wf_ids seg_ID cs"
    and "seg_ID ` set os \<subseteq> seg_ID ` set (OpenSegments s)"
    and "seg_ID ` set cs \<subseteq> seg_ID ` set (ClosedSegments s)"
  shows "wf_state (s\<lparr>OpenSegments := os, ClosedSegments := cs\<rparr>)"
proof (rule wf_stateI)
  fix g assume "g \<in> set (OpenSegments (s\<lparr>OpenSegments := os, ClosedSegments := cs\<rparr>))
    \<union> set (ClosedSegments (s\<lparr>OpenSegments := os, ClosedSegments := cs\<rparr>))"
  then have "seg_ID g \<in> seg_ID ` (set (OpenSegments s) \<union> set (ClosedSegments s))"
    using assms(4,5) by auto
  then obtain g' where "g' \<in> set (OpenSegments s) \<union> set (ClosedSegments s)" "seg_ID g = seg_ID g'"
    by (metis imageE)
  then show "seg_ID g \<le> CurrentSegmentID (s\<lparr>OpenSegments := os, ClosedSegments := cs\<rparr>)"
    using wf_stateD(6) [OF assms(1), of g'] by simp
next
  show "seg_ID ` set (OpenSegments (s\<lparr>OpenSegments := os, ClosedSegments := cs\<rparr>)) \<inter>
    seg_ID ` set (ClosedSegments (s\<lparr>OpenSegments := os, ClosedSegments := cs\<rparr>)) = {}"
    using assms(4,5) wf_stateD(5) [OF assms(1)] by (simp, blast)
qed (use assms(2,3) wf_stateD [OF assms(1)] in auto)

lemma wf_state_namespaces:
  "wf_state s \<Longrightarrow> distinct (map ns_Name ns) \<Longrightarrow> (\<And>n. n \<in> set ns \<Longrightarrow> wf_namespace n) \<Longrightarrow>
   wf_state (s\<lparr>Namespaces := ns\<rparr>)"
  by (simp add: wf_state_def list_all_iff segment_ids_def)

lemma wf_state_namespace_update:
  assumes "wf_state s" and "i < length (Namespaces s)"
    and "ns_Name n = ns_Name (Namespaces s ! i)" and "wf_namespace n"
  shows "wf_state (s\<lparr>Namespaces := (Namespaces s)[i := n]\<rparr>)"
  using assms wf_stateD(1,2) [OF assms(1)]
  by (intro wf_state_namespaces) (auto dest: set_update_subset_insert [THEN subsetD])

subsection \<open>The abstract view and the specification of the commands\<close>

record ns_view =
  nv_topics :: "string \<rightharpoonup> ClusterTopic"
  nv_groups :: "string \<rightharpoonup> ClusterConsumerGroup"

record cluster_view =
  v_ns :: "string \<rightharpoonup> ns_view"
  v_open :: "u64 \<rightharpoonup> ClusterSegment"
  v_closed :: "u64 \<rightharpoonup> ClusterSegment"
  v_nodes :: "u64 \<rightharpoonup> ClusterNode"

definition abs_ns :: "ClusterNamespace \<Rightarrow> ns_view" where
  "abs_ns n = \<lparr>nv_topics = klookup topic_Name (Topics n), nv_groups = klookup group_Name (ConsumerGroups n)\<rparr>"

definition abs_view :: "ClusterState \<Rightarrow> cluster_view" where
  "abs_view s = \<lparr>v_ns = (\<lambda>n. map_option abs_ns (klookup ns_Name (Namespaces s) n)),
     v_open = klookup seg_ID (OpenSegments s), v_closed = klookup seg_ID (ClosedSegments s),
     v_nodes = klookup node_ID (Nodes s)\<rparr>"

definition without :: "('v \<Rightarrow> bool) \<Rightarrow> ('k \<rightharpoonup> 'v) \<Rightarrow> 'k \<rightharpoonup> 'v" where
  "without P m = (\<lambda>k. Option.bind (m k) (\<lambda>v. if P v then None else Some v))"

definition v_segment :: "cluster_view \<Rightarrow> u64 \<Rightarrow> ClusterSegment option" where
  "v_segment v i = (case v_open v i of Some g \<Rightarrow> Some g | None \<Rightarrow> v_closed v i)"

definition forget_topic :: "cluster_view \<Rightarrow> string \<Rightarrow> string \<Rightarrow> ClusterConsumerGroup \<Rightarrow> ClusterConsumerGroup" where
  "forget_topic v nsName name cg = cg\<lparr>
     Bindings := filter (\<lambda>b. bind_TopicName b \<noteq> name) (Bindings cg),
     OffsetCommits := filter (\<lambda>c. case v_segment v (oc_SegmentID c) of
         None \<Rightarrow> False | Some g \<Rightarrow> \<not> owned_by TOPIC nsName name g) (OffsetCommits cg)\<rparr>"

definition on_ns :: "string \<Rightarrow> (ns_view \<Rightarrow> ns_view) \<Rightarrow> cluster_view \<Rightarrow> cluster_view" where
  "on_ns n f v = v\<lparr>v_ns := (v_ns v)(n := map_option f (v_ns v n))\<rparr>"

definition opened :: "SegmentCreate \<Rightarrow> ClusterSegment" where
  "opened c = \<lparr>seg_ID = sc_ID c, seg_Type = sc_Type c, OwnerNamespace = sc_OwnerNamespace c,
     OwnerName = sc_OwnerName c, Generation = sc_Generation c, Shard = sc_Shard c,
     CreatedAt = sc_OpenedAt c, ClosedAt = 0,
     seg_Nodes = \<lparr>PrimaryNodeID = sc_PrimaryNodeID c, DoneNodeIDs = [],
       ReplicatingNodeIDs = sc_ReplicatingNodeIDs c\<rparr>, seg_Size = 0, Sha1 = []\<rparr>"

definition has_topic :: "cluster_view \<Rightarrow> string \<Rightarrow> string \<Rightarrow> bool" where
  "has_topic v n t = (case v_ns v n of None \<Rightarrow> False | Some nv \<Rightarrow> nv_topics nv t \<noteq> None)"

definition has_group :: "cluster_view \<Rightarrow> string \<Rightarrow> string \<Rightarrow> bool" where
  "has_group v n g = (case v_ns v n of None \<Rightarrow> False | Some nv \<Rightarrow> nv_groups nv g \<noteq> None)"

definition upsert_group :: "ClusterConsumerGroup \<Rightarrow> ClusterConsumerGroup option \<Rightarrow> ClusterConsumerGroup" where
  "upsert_group g old = g\<lparr>OffsetCommits := (case old of None \<Rightarrow> [] | Some o' \<Rightarrow> OffsetCommits o')\<rparr>"

fun spec :: "ClusterCommand \<Rightarrow> cluster_view \<Rightarrow> cluster_view" where
  "spec (CreateNamespace n) v =
     (if v_ns v n = None then v\<lparr>v_ns := (v_ns v)(n \<mapsto> \<lparr>nv_topics = Map.empty, nv_groups = Map.empty\<rparr>)\<rparr> else v)"
| "spec (DeleteNamespace n) v = v\<lparr>v_ns := (v_ns v)(n := None)\<rparr>"
| "spec (CreateTopic n t) v = on_ns n (\<lambda>nv. nv\<lparr>nv_topics := (nv_topics nv)(topic_Name t \<mapsto> t)\<rparr>) v"
| "spec (DeleteTopic n t) v =
     (if has_topic v n t
      then (on_ns n (\<lambda>nv. nv\<lparr>nv_topics := (nv_topics nv)(t := None),
              nv_groups := (\<lambda>g. map_option (forget_topic v n t) (nv_groups nv g))\<rparr>) v)
           \<lparr>v_open := without (owned_by TOPIC n t) (v_open v),
            v_closed := without (owned_by TOPIC n t) (v_closed v)\<rparr>
      else v)"
| "spec (CreateConsumerGroup n g) v =
     on_ns n (\<lambda>nv. nv\<lparr>nv_groups := (nv_groups nv)(group_Name g \<mapsto> upsert_group g (nv_groups nv (group_Name g)))\<rparr>) v"
| "spec (DeleteConsumerGroup n g) v =
     (if has_group v n g
      then (on_ns n (\<lambda>nv. nv\<lparr>nv_groups := (nv_groups nv)(g := None)\<rparr>) v)
           \<lparr>v_open := without (owned_by CONSUMER_GROUP_OFFSET_COMMITS n g) (v_open v),
            v_closed := without (owned_by CONSUMER_GROUP_OFFSET_COMMITS n g) (v_closed v)\<rparr>
      else v)"
| "spec (UpdateConsumerGroupOffsetCommits n g cs) v =
     on_ns n (\<lambda>nv. nv\<lparr>nv_groups := (nv_groups nv)(g :=
       map_option (\<lambda>cg. cg\<lparr>OffsetCommits := sort_Slice oc_SegmentID cs\<rparr>) (nv_groups nv g))\<rparr>) v"
| "spec (CreateSegment c) v = v\<lparr>v_open := (v_open v)(sc_ID c \<mapsto> opened c)\<rparr>"
| "spec (CloseSegment c) v =
     (case v_open v (cl_ID c) of
        None \<Rightarrow> v
      | Some g \<Rightarrow> v\<lparr>v_open := (v_open v)(cl_ID c := None),
                     v_closed := (v_closed v)(cl_ID c \<mapsto> close_segment c g)\<rparr>)"
| "spec (UpdateSegmentNodes i w ns) v =
     (if w = OPEN then v\<lparr>v_open := (v_open v)(i := map_option (\<lambda>g. g\<lparr>seg_Nodes := ns\<rparr>) (v_open v i))\<rparr>
      else v\<lparr>v_closed := (v_closed v)(i := map_option (\<lambda>g. g\<lparr>seg_Nodes := ns\<rparr>) (v_closed v i))\<rparr>)"
| "spec (DeleteSegment i w) v =
     (if w = OPEN then v\<lparr>v_open := (v_open v)(i := None)\<rparr> else v\<lparr>v_closed := (v_closed v)(i := None)\<rparr>)"
| "spec (UpdateNode c) v =
     v\<lparr>v_nodes := (v_nodes v)(nu_ID c \<mapsto> \<lparr>node_ID = nu_ID c, Address = nu_Address c,
        node_State = nu_State c, LastSeenAlive = nu_LastSeenAlive c\<rparr>)\<rparr>"

subsection \<open>The queries read the view\<close>

lemma FindNamespace_Some:
  "FindNamespace s n = Some (x, i) \<Longrightarrow> i < length (Namespaces s) \<and> Namespaces s ! i = x \<and> ns_Name x = n
     \<and> klookup ns_Name (Namespaces s) n = Some x"
  unfolding FindNamespace_def by (rule find_index_lookup)

lemma FindTopic_Some:
  "FindTopic x t = Some (y, i) \<Longrightarrow> i < length (Topics x) \<and> Topics x ! i = y \<and> topic_Name y = t
     \<and> klookup topic_Name (Topics x) t = Some y"
  unfolding FindTopic_def by (rule find_index_lookup)

lemma FindConsumerGroup_Some:
  "FindConsumerGroup x g = Some (y, i) \<Longrightarrow> i < length (ConsumerGroups x) \<and> ConsumerGroups x ! i = y
     \<and> group_Name y = g \<and> klookup group_Name (ConsumerGroups x) g = Some y"
  unfolding FindConsumerGroup_def by (rule find_index_lookup)

lemma Find_None:
  "FindNamespace s n = None \<longleftrightarrow> klookup ns_Name (Namespaces s) n = None"
  "FindTopic x t = None \<longleftrightarrow> klookup topic_Name (Topics x) t = None"
  "FindConsumerGroup x g = None \<longleftrightarrow> klookup group_Name (ConsumerGroups x) g = None"
  unfolding FindNamespace_def FindTopic_def FindConsumerGroup_def by (rule find_index_None_lookup)+

lemma Find_fst:
  "map_option fst (FindTopic x t) = klookup topic_Name (Topics x) t"
  "map_option fst (FindConsumerGroup x g) = klookup group_Name (ConsumerGroups x) g"
  unfolding FindTopic_def FindConsumerGroup_def by (rule find_index_fst)+

lemma GetTopic_view: "GetTopic s n t = Option.bind (v_ns (abs_view s) n) (\<lambda>nv. nv_topics nv t)"
  by (cases "FindNamespace s n")
    (auto simp: GetTopic_def abs_view_def abs_ns_def Find_fst dest!: FindNamespace_Some Find_None(1) [THEN iffD1])

lemma GetConsumerGroup_view:
  "GetConsumerGroup s n g = Option.bind (v_ns (abs_view s) n) (\<lambda>nv. nv_groups nv g)"
  by (cases "FindNamespace s n")
    (auto simp: GetConsumerGroup_def abs_view_def abs_ns_def Find_fst
      dest!: FindNamespace_Some Find_None(1) [THEN iffD1])

lemma GetOpenSegment_view: "wf_state s \<Longrightarrow> GetOpenSegment s i = v_open (abs_view s) i"
  by (simp add: GetOpenSegment_def abs_view_def klookup_binary_find wf_idsD wf_stateD)

lemma GetClosedSegment_view: "wf_state s \<Longrightarrow> GetClosedSegment s i = v_closed (abs_view s) i"
  by (simp add: GetClosedSegment_def abs_view_def klookup_binary_find wf_idsD wf_stateD)

lemma GetSegment_view: "wf_state s \<Longrightarrow> GetSegment s i = v_segment (abs_view s) i"
  by (simp add: GetSegment_def v_segment_def GetOpenSegment_view GetClosedSegment_view split: option.split)

lemma GetNode_view: "GetNode s i = v_nodes (abs_view s) i"
  by (simp add: GetNode_def abs_view_def klookup_def)


subsection \<open>Every command keeps the invariant and implements its specification\<close>

definition step_ok :: "ClusterCommand \<Rightarrow> ClusterState \<Rightarrow> ClusterState \<Rightarrow> bool" where
  "step_ok c s s' \<longleftrightarrow> wf_state s' \<and> abs_view s' = spec c (abs_view s)"

lemma v_ns_update:
  assumes "wf_state s" and "i < length (Namespaces s)"
    and "ns_Name x = ns_Name (Namespaces s ! i)"
  shows "v_ns (abs_view (s\<lparr>Namespaces := (Namespaces s)[i := x]\<rparr>)) = (v_ns (abs_view s))(ns_Name x \<mapsto> abs_ns x)"
  using assms wf_stateD(1) [OF assms(1)] by (auto simp: abs_view_def lookup_simps)

text \<open>A command that rewrites one namespace and no segment.\<close>

lemma namespace_step:
  assumes wf: "wf_state s" and f: "FindNamespace s n = Some (x, i)"
    and "ns_Name y = n" and "wf_namespace y" and "abs_ns y = f (abs_ns x)"
  shows "wf_state (s\<lparr>Namespaces := (Namespaces s)[i := y]\<rparr>)"
    and "abs_view (s\<lparr>Namespaces := (Namespaces s)[i := y]\<rparr>) = on_ns n f (abs_view s)"
proof -
  note fn = FindNamespace_Some [OF f]
  show "wf_state (s\<lparr>Namespaces := (Namespaces s)[i := y]\<rparr>)"
    using assms fn by (intro wf_state_namespace_update) auto
  have "v_ns (abs_view s) n = Some (abs_ns x)" using fn by (simp add: abs_view_def)
  then show "abs_view (s\<lparr>Namespaces := (Namespaces s)[i := y]\<rparr>) = on_ns n f (abs_view s)"
    using v_ns_update [OF wf, of i y] fn assms(3,5)
    by (simp add: on_ns_def) (simp add: abs_view_def)
qed

lemma step_ok_namespace:
  assumes wf: "wf_state s" and f: "FindNamespace s n = Some (x, i)"
    and spec: "spec c (abs_view s) = on_ns n F (abs_view s)"
    and s': "s' = s\<lparr>Namespaces := (Namespaces s)[i := y]\<rparr>"
    and y: "ns_Name y = ns_Name x" "wf_namespace y" "abs_ns y = F (abs_ns x)"
  shows "step_ok c s s'"
  unfolding step_ok_def s' spec using namespace_step [of s n x i y F] wf f FindNamespace_Some [OF f] y by simp

lemma wf_namespace_found: "wf_state s \<Longrightarrow> FindNamespace s n = Some (x, i) \<Longrightarrow> wf_namespace x"
  using wf_stateD(2) [of s x] FindNamespace_Some [of s n x i] by (metis nth_mem)

lemma abs_view_segments:
  "abs_view (s\<lparr>OpenSegments := os, ClosedSegments := cs\<rparr>) =
     (abs_view s)\<lparr>v_open := klookup seg_ID os, v_closed := klookup seg_ID cs\<rparr>"
  by (simp add: abs_view_def)

lemma abs_view_simps [simp]:
  "v_open (abs_view s) = klookup seg_ID (OpenSegments s)"
  "v_closed (abs_view s) = klookup seg_ID (ClosedSegments s)"
  "v_nodes (abs_view s) = klookup node_ID (Nodes s)"
  by (simp_all add: abs_view_def)

lemma v_ns_None: "FindNamespace s n = None \<Longrightarrow> v_ns (abs_view s) n = None"
  by (simp add: Find_None abs_view_def)

lemma v_ns_Some: "FindNamespace s n = Some (x, i) \<Longrightarrow> v_ns (abs_view s) n = Some (abs_ns x)"
  using FindNamespace_Some [of s n x i] by (simp add: abs_view_def)

lemma klookup_without:
  "distinct (map key xs) \<Longrightarrow> klookup key (filter (\<lambda>g. \<not> P g) xs) = without P (klookup key xs)"
  by (auto simp: without_def lookup_simps intro!: ext arg_cong2 [where f = Option.bind])

lemma step_CreateNamespace:
  assumes wf: "wf_state s" and s': "doCreateNamespace n s = Ret s'"
  shows "step_ok (CreateNamespace n) s s'"
proof (cases "FindNamespace s n")
  case None
  then have k: "klookup ns_Name (Namespaces s) n = None" by (simp add: Find_None)
  have "wf_state s'" using s' None k wf_stateD(1,2) [OF wf]
    by (auto simp: doCreateNamespace_def klookup_None_iff wf_namespace_def intro!: wf_state_namespaces [OF wf])
  moreover have "abs_view s' = spec (CreateNamespace n) (abs_view s)" using s' None k
    by (auto simp: doCreateNamespace_def abs_view_def abs_ns_def lookup_simps fun_eq_iff split: option.splits)
  ultimately show ?thesis by (simp add: step_ok_def)
next
  case (Some a)
  then show ?thesis using wf s' v_ns_Some [of s n "fst a" "snd a"]
    by (auto simp: doCreateNamespace_def step_ok_def)
qed

lemma step_DeleteNamespace:
  assumes wf: "wf_state s" and s': "doDeleteNamespace n s = Ret s'"
  shows "step_ok (DeleteNamespace n) s s'"
proof (cases "FindNamespace s n")
  case None
  then show ?thesis using wf s' v_ns_None [OF None]
    by (simp add: doDeleteNamespace_def step_ok_def fun_upd_idem)
next
  case (Some a)
  then obtain x i where x: "FindNamespace s n = Some (x, i)" by (cases a) auto
  note fn = FindNamespace_Some [OF x]
  have s': "s' = s\<lparr>Namespaces := remove_at i (Namespaces s)\<rparr>"
    using s' x by (simp add: doDeleteNamespace_def)
  have "wf_state s'" unfolding s' using wf_stateD(1,2) [OF wf]
    by (intro wf_state_namespaces [OF wf]) (auto simp: distinct_remove_at dest: set_remove_at_subset [THEN subsetD])
  moreover have "abs_view s' = spec (DeleteNamespace n) (abs_view s)" unfolding s' using fn
    by (auto simp: abs_view_def lookup_simps wf_stateD(1) [OF wf])
  ultimately show ?thesis by (simp add: step_ok_def)
qed

lemma step_CreateTopic:
  assumes wf: "wf_state s" and s': "doCreateTopic n t s = Ret s'"
  shows "step_ok (CreateTopic n t) s s'"
proof (cases "FindNamespace s n")
  case (Some a)
  then obtain x i where x: "FindNamespace s n = Some (x, i)" by (cases a) auto
  have d: "distinct (map topic_Name (Topics x))" "distinct (map group_Name (ConsumerGroups x))"
    using wf_namespace_found [OF wf x] by (simp_all add: wf_namespace_def)
  have "set_topic t (case klookup topic_Name (Topics x) (topic_Name t) of
      None \<Rightarrow> new_topic (topic_Name t) | Some y \<Rightarrow> y) = t"
    by (auto simp: new_topic_def set_topic_def split: option.split dest: klookup_SomeD)
  moreover have s'': "s' = s\<lparr>Namespaces := (Namespaces s)[i := x\<lparr>Topics := case FindTopic x (topic_Name t) of
      None \<Rightarrow> Topics x @ [set_topic t (new_topic (topic_Name t))]
    | Some (topic, j) \<Rightarrow> (Topics x)[j := set_topic t topic]\<rparr>]\<rparr>"
    using s' x by (simp add: doCreateTopic_def Let_def)
  ultimately show ?thesis
    using d(2) keyed_upsert [OF d(1), of "set_topic t" "new_topic (topic_Name t)" "topic_Name t"]
    by (intro step_ok_namespace [OF wf x spec.simps(3) s''])
      (auto simp: wf_namespace_def abs_ns_def FindTopic_def set_topic_def new_topic_def)
qed (use s' in \<open>simp add: doCreateTopic_def\<close>)

lemma step_CreateConsumerGroup:
  assumes wf: "wf_state s" and s': "doCreateConsumerGroup n g s = Ret s'"
  shows "step_ok (CreateConsumerGroup n g) s s'"
proof (cases "FindNamespace s n")
  case (Some a)
  then obtain x i where x: "FindNamespace s n = Some (x, i)" by (cases a) auto
  have d: "distinct (map topic_Name (Topics x))" "distinct (map group_Name (ConsumerGroups x))"
    using wf_namespace_found [OF wf x] by (simp_all add: wf_namespace_def)
  have "set_group g (case klookup group_Name (ConsumerGroups x) (group_Name g) of
      None \<Rightarrow> new_group (group_Name g) | Some y \<Rightarrow> y) = upsert_group g (klookup group_Name (ConsumerGroups x) (group_Name g))"
    by (auto simp: new_group_def set_group_def upsert_group_def split: option.split dest: klookup_SomeD)
  moreover have s'': "s' = s\<lparr>Namespaces := (Namespaces s)[i := x\<lparr>ConsumerGroups :=
      case FindConsumerGroup x (group_Name g) of
        None \<Rightarrow> ConsumerGroups x @ [set_group g (new_group (group_Name g))]
      | Some (cg, j) \<Rightarrow> (ConsumerGroups x)[j := set_group g cg]\<rparr>]\<rparr>"
    using s' x by (simp add: doCreateConsumerGroup_def Let_def)
  ultimately show ?thesis
    using d(1) keyed_upsert [OF d(2), of "set_group g" "new_group (group_Name g)" "group_Name g"]
    by (intro step_ok_namespace [OF wf x spec.simps(5) s''])
      (auto simp: wf_namespace_def abs_ns_def FindConsumerGroup_def set_group_def new_group_def)
qed (use s' in \<open>simp add: doCreateConsumerGroup_def\<close>)

lemma step_UpdateOffsetCommits:
  assumes wf: "wf_state s" and s': "doUpdateOffsetCommits n g cs s = Ret s'"
  shows "step_ok (UpdateConsumerGroupOffsetCommits n g cs) s s'"
proof (cases "FindNamespace s n")
  case (Some a)
  then obtain x i where x: "FindNamespace s n = Some (x, i)" by (cases a) auto
  have d: "distinct (map topic_Name (Topics x))" "distinct (map group_Name (ConsumerGroups x))"
    using wf_namespace_found [OF wf x] by (simp_all add: wf_namespace_def)
  show ?thesis
  proof (cases "FindConsumerGroup x g")
    case None
    then have "klookup group_Name (ConsumerGroups x) g = None" by (simp add: Find_None)
    then show ?thesis using wf s' x v_ns_Some [OF x] None
      by (simp add: doUpdateOffsetCommits_def step_ok_def on_ns_def abs_ns_def fun_upd_idem)
  next
    case (Some b)
    then obtain cg j where cg: "FindConsumerGroup x g = Some (cg, j)" by (cases b) auto
    have s'': "s' = s\<lparr>Namespaces := (Namespaces s)[i := x\<lparr>ConsumerGroups :=
        (ConsumerGroups x)[j := cg\<lparr>OffsetCommits := sort_Slice oc_SegmentID cs\<rparr>]\<rparr>]\<rparr>"
      using s' x cg by (simp add: doUpdateOffsetCommits_def Let_def)
    then show ?thesis using d FindConsumerGroup_Some [OF cg]
      by (intro step_ok_namespace [OF wf x spec.simps(7) s''])
        (auto simp: wf_namespace_def abs_ns_def klookup_update fun_eq_iff)
  qed
qed (use s' in \<open>simp add: doUpdateOffsetCommits_def\<close>)

text \<open>A command that rewrites one namespace and filters the segments of an owner.\<close>

lemma step_ok_owner:
  assumes wf: "wf_state s" and f: "FindNamespace s n = Some (x, i)"
    and spec: "spec c (abs_view s) = (on_ns n F (abs_view s))
      \<lparr>v_open := without P (v_open (abs_view s)), v_closed := without P (v_closed (abs_view s))\<rparr>"
    and s': "s' = s\<lparr>Namespaces := (Namespaces s)[i := y], OpenSegments := drop_segments P (OpenSegments s),
      ClosedSegments := drop_segments P (ClosedSegments s)\<rparr>"
    and y: "ns_Name y = ns_Name x" "wf_namespace y" "abs_ns y = F (abs_ns x)"
  shows "step_ok c s s'"
proof -
  let ?s = "s\<lparr>Namespaces := (Namespaces s)[i := y]\<rparr>"
  have "wf_state ?s" "abs_view ?s = on_ns n F (abs_view s)"
    using namespace_step [of s n x i y F] wf f FindNamespace_Some [OF f] y by auto
  moreover have "wf_ids seg_ID (OpenSegments s)" "wf_ids seg_ID (ClosedSegments s)"
    using wf_stateD [OF wf] by auto
  ultimately show ?thesis unfolding step_ok_def s' spec
    by (auto simp: abs_view_segments klookup_without [OF wf_idsD(2)] intro!: wf_state_segments_subset)
qed

lemma step_DeleteConsumerGroup:
  assumes wf: "wf_state s" and s': "doDeleteConsumerGroup n g s = Ret s'"
  shows "step_ok (DeleteConsumerGroup n g) s s'"
proof (cases "FindNamespace s n")
  case (Some a)
  then obtain x i where x: "FindNamespace s n = Some (x, i)" by (cases a) auto
  have d: "distinct (map topic_Name (Topics x))" "distinct (map group_Name (ConsumerGroups x))"
    using wf_namespace_found [OF wf x] by (simp_all add: wf_namespace_def)
  show ?thesis
  proof (cases "FindConsumerGroup x g")
    case None
    then show ?thesis using wf s' x v_ns_Some [OF x] Find_None(3) [of x g]
      by (simp add: doDeleteConsumerGroup_def step_ok_def has_group_def abs_ns_def)
  next
    case (Some b)
    then obtain cg j where cg: "FindConsumerGroup x g = Some (cg, j)" by (cases b) auto
    note fg = FindConsumerGroup_Some [OF cg]
    have "has_group (abs_view s) n g" using v_ns_Some [OF x] fg by (simp add: has_group_def abs_ns_def)
    note sp = spec.simps(6) [of n g "abs_view s", unfolded if_P [OF this]]
    have s'': "s' = s\<lparr>Namespaces := (Namespaces s)[i := x\<lparr>ConsumerGroups := remove_at j (ConsumerGroups x)\<rparr>],
        OpenSegments := drop_segments (owned_by CONSUMER_GROUP_OFFSET_COMMITS n g) (OpenSegments s),
        ClosedSegments := drop_segments (owned_by CONSUMER_GROUP_OFFSET_COMMITS n g) (ClosedSegments s)\<rparr>"
      using s' x cg by (simp add: doDeleteConsumerGroup_def Let_def)
    show ?thesis using d fg
      by (intro step_ok_owner [OF wf x sp s''])
        (auto simp: wf_namespace_def abs_ns_def klookup_remove_at distinct_remove_at fun_eq_iff)
  qed
qed (use s' in \<open>simp add: doDeleteConsumerGroup_def\<close>)

lemma v_segment_view: "wf_state s \<Longrightarrow> v_segment (abs_view s) i = GetSegment s i"
  by (simp add: v_segment_def GetSegment_view)

lemma delete_topic_refs_fst:
  assumes "wf_state s"
  shows "fst (delete_topic_refs s n t cg) = forget_topic (abs_view s) n t cg"
    and "\<not> snd (delete_topic_refs s n t cg) \<Longrightarrow> forget_topic (abs_view s) n t cg = cg"
proof -
  have c: "(\<lambda>c. case v_segment (abs_view s) (oc_SegmentID c) of
      None \<Rightarrow> False | Some g \<Rightarrow> \<not> owned_by TOPIC n t g) = (\<lambda>c. \<not> drop_commit s n t c)"
    by (auto simp: fun_eq_iff drop_commit_def v_segment_view [OF assms] split: option.split)
  show "fst (delete_topic_refs s n t cg) = forget_topic (abs_view s) n t cg"
    and "\<not> snd (delete_topic_refs s n t cg) \<Longrightarrow> forget_topic (abs_view s) n t cg = cg"
    unfolding forget_topic_def c delete_topic_refs_def Let_def
    by (auto simp: list_ex_iff filter_id_conv[THEN iffD2] split: if_splits)
qed

lemma delete_topic_groups:
  assumes "wf_state s" and "results = map (delete_topic_refs s n t) cgs"
  shows "(if list_ex snd results then map fst results else cgs) = map (forget_topic (abs_view s) n t) cgs"
  using delete_topic_refs_fst [OF assms(1), of n t]
  by (auto simp: assms(2) list_ex_iff o_def intro!: map_idI [symmetric])

lemma step_DeleteTopic:
  assumes wf: "wf_state s" and s': "doDeleteTopic n t s = Ret s'"
  shows "step_ok (DeleteTopic n t) s s'"
proof (cases "FindNamespace s n")
  case (Some a)
  then obtain x i where x: "FindNamespace s n = Some (x, i)" by (cases a) auto
  have d: "distinct (map topic_Name (Topics x))" "distinct (map group_Name (ConsumerGroups x))"
    using wf_namespace_found [OF wf x] by (simp_all add: wf_namespace_def)
  show ?thesis
  proof (cases "FindTopic x t")
    case None
    then show ?thesis using wf s' x v_ns_Some [OF x] Find_None(2) [of x t]
      by (simp add: doDeleteTopic_def step_ok_def has_topic_def abs_ns_def)
  next
    case (Some b)
    then obtain tp j where tp: "FindTopic x t = Some (tp, j)" by (cases b) auto
    note ft = FindTopic_Some [OF tp]
    have "has_topic (abs_view s) n t" using v_ns_Some [OF x] ft by (simp add: has_topic_def abs_ns_def)
    note sp = spec.simps(4) [of n t "abs_view s", unfolded if_P [OF this]]
    have s'': "s' = s\<lparr>Namespaces := (Namespaces s)[i := x\<lparr>Topics := remove_at j (Topics x),
          ConsumerGroups := map (forget_topic (abs_view s) n t) (ConsumerGroups x)\<rparr>],
        OpenSegments := drop_segments (owned_by TOPIC n t) (OpenSegments s),
        ClosedSegments := drop_segments (owned_by TOPIC n t) (ClosedSegments s)\<rparr>"
      unfolding delete_topic_groups [OF wf refl, symmetric]
      using s' x tp by (auto simp: doDeleteTopic_def Let_def)
    have g: "group_Name (forget_topic (abs_view s) n t cg) = group_Name cg" for cg
      by (simp add: forget_topic_def)
    show ?thesis using d ft
      by (intro step_ok_owner [OF wf x sp s''])
        (auto simp: wf_namespace_def abs_ns_def klookup_remove_at distinct_remove_at klookup_map g o_def fun_eq_iff)
  qed
qed (use s' in \<open>simp add: doDeleteTopic_def\<close>)

lemma step_CreateSegment:
  assumes wf: "wf_state s" and new: "sc_ID c \<notin> set (segment_ids s)" and s': "doOpenSegment c s = Ret s'"
  shows "step_ok (CreateSegment c) s s'"
proof -
  have s'': "s' = s\<lparr>CurrentSegmentID := max (CurrentSegmentID s) (sc_ID c),
      OpenSegments := sort_Slice seg_ID (OpenSegments s @ [opened c])\<rparr>"
    using s' by (auto simp: doOpenSegment_def opened_def Let_def max_def)
  have id: "seg_ID (opened c) = sc_ID c" by (simp add: opened_def)
  note w = wf_stateD [OF wf]
  have n: "sc_ID c \<notin> seg_ID ` set (OpenSegments s)" "sc_ID c \<notin> seg_ID ` set (ClosedSegments s)"
    using new by (auto simp: segment_ids_def)
  have "wf_state s'"
  proof (rule wf_stateI)
    show "wf_ids seg_ID (OpenSegments s')" using w(3) n(1) by (simp add: s'' id wf_ids_insert)
    show "seg_ID ` set (OpenSegments s') \<inter> seg_ID ` set (ClosedSegments s') = {}"
      using w(5) n(2) by (simp add: s'' id)
    fix g assume "g \<in> set (OpenSegments s') \<union> set (ClosedSegments s')"
    then show "seg_ID g \<le> CurrentSegmentID s'" using w(6) [of g] by (auto simp: s'' id le_max_iff_disj)
  qed (use w in \<open>auto simp: s''\<close>)
  moreover have "klookup seg_ID (sort_Slice seg_ID (OpenSegments s @ [opened c]))
      = (klookup seg_ID (OpenSegments s))(sc_ID c \<mapsto> opened c)"
  proof
    fix k
    have "distinct (map seg_ID (OpenSegments s @ [opened c]))" using wf_idsD(2) [OF w(3)] n(1) by (simp add: id)
    then show "klookup seg_ID (sort_Slice seg_ID (OpenSegments s @ [opened c])) k
        = ((klookup seg_ID (OpenSegments s))(sc_ID c \<mapsto> opened c)) k"
      using n(1) klookup_None_iff [of seg_ID "OpenSegments s" "sc_ID c"]
      by (auto simp: klookup_sort_Slice klookup_append id split: option.split)
  qed
  ultimately show ?thesis by (simp add: step_ok_def s'' abs_view_def)
qed

lemma close_segment_ID [simp]: "seg_ID (close_segment c g) = seg_ID g"
  by (simp add: close_segment_def)

lemma step_CloseSegment:
  assumes wf: "wf_state s" and s': "doCloseSegment c s = Ret s'"
  shows "step_ok (CloseSegment c) s s'"
proof (cases "find_index (\<lambda>g. seg_ID g = cl_ID c) (OpenSegments s)")
  case None
  moreover from this have "klookup seg_ID (OpenSegments s) (cl_ID c) = None"
    by (simp only: find_index_None_lookup)
  ultimately show ?thesis using wf s' by (simp add: doCloseSegment_def step_ok_def del: find_from_None)
next
  case (Some a)
  then obtain g j where g: "find_index (\<lambda>g. seg_ID g = cl_ID c) (OpenSegments s) = Some (g, j)" by (cases a) auto
  note fg = find_index_lookup [OF g]
  note w = wf_stateD [OF wf] and d = wf_idsD(2) [OF wf_stateD(3) [OF wf]]
  have s'': "s' = s\<lparr>OpenSegments := remove_at j (OpenSegments s),
      ClosedSegments := sort_Slice seg_ID (ClosedSegments s @ [close_segment c g])\<rparr>"
    using s' g by (simp add: doCloseSegment_def)
  have gin: "g \<in> set (OpenSegments s)" using fg by (metis nth_mem)
  have n: "seg_ID g \<notin> seg_ID ` set (ClosedSegments s)" using w(5) gin by blast
  have rem: "set (remove_at j (OpenSegments s)) = set (OpenSegments s) - {x. seg_ID x = seg_ID g}"
    using remove_at_conv_filter [OF d, of j] fg by auto
  have "wf_state s'"
  proof (rule wf_stateI)
    show "wf_ids seg_ID (ClosedSegments s')" using w(4) n by (simp add: s'' wf_ids_insert)
    show "seg_ID ` set (OpenSegments s') \<inter> seg_ID ` set (ClosedSegments s') = {}"
      using w(5) n by (auto simp: s'' rem)
    fix x assume "x \<in> set (OpenSegments s') \<union> set (ClosedSegments s')"
    then show "seg_ID x \<le> CurrentSegmentID s'" using w(6) [of x] w(6) [of g] gin by (auto simp: s'' rem)
  qed (use w in \<open>auto simp: s''\<close>)
  moreover have "klookup seg_ID (sort_Slice seg_ID (ClosedSegments s @ [close_segment c g]))
      = (klookup seg_ID (ClosedSegments s))(seg_ID g \<mapsto> close_segment c g)"
    using n wf_idsD(2) [OF w(4)] klookup_None_iff [of seg_ID "ClosedSegments s" "seg_ID g"]
    by (auto simp: klookup_sort_Slice klookup_append fun_eq_iff split: option.split)
  moreover have "klookup seg_ID (remove_at j (OpenSegments s)) = (klookup seg_ID (OpenSegments s))(seg_ID g := None)"
    using fg by (auto simp: klookup_remove_at [OF d] fun_eq_iff)
  ultimately show ?thesis using fg by (simp add: step_ok_def s'' abs_view_segments)
qed

text \<open>The two commands that address a segment by binary search in one of the two slices.\<close>

lemma segments_update:
  assumes w: "wf_ids seg_ID xs" and f: "binary_find seg_ID i xs = Some k"
  shows "wf_ids seg_ID (doUpdateSegmentNodesIn xs k ns)"
    and "klookup seg_ID (doUpdateSegmentNodesIn xs k ns) =
      (klookup seg_ID xs)(i := map_option (\<lambda>g. g\<lparr>seg_Nodes := ns\<rparr>) (klookup seg_ID xs i))"
    and "wf_ids seg_ID (remove_at k xs)"
    and "seg_ID ` set (remove_at k xs) \<subseteq> seg_ID ` set xs"
    and "klookup seg_ID (remove_at k xs) = (klookup seg_ID xs)(i := None)"
proof -
  note b = binary_find_Some_lookup [OF wf_idsD [OF w] f]
  show "wf_ids seg_ID (doUpdateSegmentNodesIn xs k ns)" "wf_ids seg_ID (remove_at k xs)"
    using w b by (simp_all add: doUpdateSegmentNodesIn_def)
  show "seg_ID ` set (remove_at k xs) \<subseteq> seg_ID ` set xs" using set_remove_at_subset by (rule image_mono)
  show "klookup seg_ID (doUpdateSegmentNodesIn xs k ns) =
      (klookup seg_ID xs)(i := map_option (\<lambda>g. g\<lparr>seg_Nodes := ns\<rparr>) (klookup seg_ID xs i))"
    "klookup seg_ID (remove_at k xs) = (klookup seg_ID xs)(i := None)"
    using b wf_idsD(2) [OF w]
    by (auto simp: doUpdateSegmentNodesIn_def klookup_update klookup_remove_at fun_eq_iff)
qed

lemma segments_update_mem:
  assumes "binary_find seg_ID i xs = Some k" and "g \<in> set (doUpdateSegmentNodesIn xs k ns)"
  shows "seg_ID g \<in> seg_ID ` set xs"
  using assms binary_find_SomeD [OF assms(1)]
  by (auto simp: doUpdateSegmentNodesIn_def dest!: set_update_subset_insert [THEN subsetD])

lemma segments_not_found:
  assumes "wf_ids seg_ID xs" and "binary_find seg_ID i xs = None"
  shows "(klookup seg_ID xs)(i := None) = klookup seg_ID xs"
    and "(klookup seg_ID xs)(i := map_option f (klookup seg_ID xs i)) = klookup seg_ID xs"
  using binary_find_None_lookup [OF wf_idsD [OF assms(1)] assms(2)] by (auto simp: fun_eq_iff)

lemma wf_state_open:
  "wf_state s \<Longrightarrow> wf_ids seg_ID os \<Longrightarrow> seg_ID ` set os \<subseteq> seg_ID ` set (OpenSegments s) \<Longrightarrow>
   wf_state (s\<lparr>OpenSegments := os\<rparr>)"
  using wf_state_segments_subset [of s os "ClosedSegments s"] by (simp add: wf_stateD)

lemma wf_state_closed:
  "wf_state s \<Longrightarrow> wf_ids seg_ID cs \<Longrightarrow> seg_ID ` set cs \<subseteq> seg_ID ` set (ClosedSegments s) \<Longrightarrow>
   wf_state (s\<lparr>ClosedSegments := cs\<rparr>)"
  using wf_state_segments_subset [of s "OpenSegments s" cs] by (simp add: wf_stateD)

lemma abs_view_open: "abs_view (s\<lparr>OpenSegments := os\<rparr>) = (abs_view s)\<lparr>v_open := klookup seg_ID os\<rparr>"
  and abs_view_closed: "abs_view (s\<lparr>ClosedSegments := os\<rparr>) = (abs_view s)\<lparr>v_closed := klookup seg_ID os\<rparr>"
  by (simp_all add: abs_view_def)

lemma view_unchanged:
  "v_open (abs_view s) = m \<Longrightarrow> (abs_view s)\<lparr>v_open := m\<rparr> = abs_view s"
  "v_closed (abs_view s) = m \<Longrightarrow> (abs_view s)\<lparr>v_closed := m\<rparr> = abs_view s"
  by auto

lemma step_UpdateSegmentNodes:
  assumes wf: "wf_state s" and s': "doUpdateSegmentNodes i w ns s = Ret s'"
  shows "step_ok (UpdateSegmentNodes i w ns) s s'"
  using wf s' wf_stateD(3,4) [OF wf]
  by (cases w) (auto simp: step_ok_def abs_view_open abs_view_closed segments_update segments_not_found view_unchanged
      intro!: wf_state_open wf_state_closed split: option.splits dest: segments_update_mem)

lemma step_DeleteSegment:
  assumes wf: "wf_state s" and s': "doDeleteSegment i w s = Ret s'"
  shows "step_ok (DeleteSegment i w) s s'"
  using wf s' wf_stateD(3,4) [OF wf]
  by (cases w) (auto simp: step_ok_def abs_view_open abs_view_closed segments_update(3-) segments_not_found view_unchanged
      intro!: wf_state_open wf_state_closed split: option.splits dest: set_remove_at_subset [THEN subsetD])

lemma step_UpdateNode:
  assumes wf: "wf_state s" and s': "doUpdateNode c s = Ret s'"
  shows "step_ok (UpdateNode c) s s'"
proof -
  define ns where "ns = (case find_index (\<lambda>node. node_ID node = nu_ID c) (Nodes s) of
      None \<Rightarrow> Nodes s @ [set_node c new_node] | Some (node, i) \<Rightarrow> (Nodes s)[i := set_node c node])"
  have s'': "s' = s\<lparr>Nodes := sort_Slice node_ID ns\<rparr>"
    using s' by (simp add: doUpdateNode_def ns_def Let_def)
  have node: "set_node c x = \<lparr>node_ID = nu_ID c, Address = nu_Address c, node_State = nu_State c,
      LastSeenAlive = nu_LastSeenAlive c\<rparr>" for x by (simp add: set_node_def)
  have "distinct (map node_ID ns)" "klookup node_ID ns = (klookup node_ID (Nodes s))(nu_ID c \<mapsto> set_node c new_node)"
    unfolding ns_def using keyed_upsert [OF wf_idsD(2) [OF wf_stateD(7) [OF wf]], of "set_node c" new_node "nu_ID c"]
    by (simp_all add: node)
  moreover from this have "klookup node_ID (sort_Slice node_ID ns) = klookup node_ID ns"
    by (auto simp: klookup_sort_Slice)
  moreover from calculation(1) have "wf_state s'" using wf unfolding s''
    by (simp add: wf_state_def segment_ids_def wf_ids_def)
  ultimately show ?thesis by (simp add: step_ok_def s'' abs_view_def node)
qed

lemmas command_steps = step_CreateNamespace step_DeleteNamespace step_CreateTopic step_DeleteTopic
  step_CreateConsumerGroup step_DeleteConsumerGroup step_UpdateOffsetCommits step_CreateSegment
  step_CloseSegment step_UpdateSegmentNodes step_DeleteSegment step_UpdateNode

lemma apply_command_step_ok:
  "wf_state s \<Longrightarrow> admissible c s \<Longrightarrow> apply_command c s = Ret s' \<Longrightarrow> step_ok c s s'"
  by (cases c) (auto intro: command_steps)

subsection \<open>The contract of a replicated state machine\<close>

fun ok_log :: "('c \<Rightarrow> 's \<Rightarrow> bool) \<Rightarrow> ('c \<Rightarrow> 's \<Rightarrow> 's outcome) \<Rightarrow> 'c list \<Rightarrow> 's \<Rightarrow> bool" where
  "ok_log ok step [] s = True"
| "ok_log ok step (c # cs) s = (ok c s \<and> (case step c s of Panic _ \<Rightarrow> True | Ret s' \<Rightarrow> ok_log ok step cs s'))"

locale replicated_fsm =
  fixes step :: "'c \<Rightarrow> 's \<Rightarrow> 's outcome" and inv :: "'s \<Rightarrow> bool" and ok :: "'c \<Rightarrow> 's \<Rightarrow> bool"
    and abs :: "'s \<Rightarrow> 'a" and spec_step :: "'c \<Rightarrow> 'a \<Rightarrow> 'a"
  assumes step_inv: "inv s \<Longrightarrow> ok c s \<Longrightarrow> step c s = Ret s' \<Longrightarrow> inv s'"
    and step_abs: "inv s \<Longrightarrow> ok c s \<Longrightarrow> step c s = Ret s' \<Longrightarrow> abs s' = spec_step c (abs s)"
begin

lemma log_refines:
  "inv s \<Longrightarrow> ok_log ok step cs s \<Longrightarrow> fold_outcome step cs s = Ret s' \<Longrightarrow>
   inv s' \<and> abs s' = fold spec_step cs (abs s)"
proof (induction cs arbitrary: s)
  case (Cons c cs)
  then obtain s1 where s1: "step c s = Ret s1" "fold_outcome step cs s1 = Ret s'" by auto
  then have "inv s1" "abs s1 = spec_step c (abs s)" "ok_log ok step cs s1"
    using Cons.prems step_inv step_abs by auto
  then show ?case using Cons.IH s1(2) by simp
qed simp

lemma replicas_agree:
  assumes "inv s" "inv t" "abs s = abs t"
    and "ok_log ok step cs s" "fold_outcome step cs s = Ret s'"
    and "ok_log ok step cs t" "fold_outcome step cs t = Ret t'"
  shows "abs s' = abs t'"
  using log_refines assms by metis

end

interpretation fsm: replicated_fsm apply_command wf_state admissible abs_view spec
  by unfold_locales (auto dest: apply_command_step_ok simp: step_ok_def)

text \<open>Entries of the log as the store applies them: an index and possibly a command.\<close>

type_synonym entry = "u64 \<times> ClusterCommand option"

definition apply_entry :: "entry \<Rightarrow> ClusterState \<Rightarrow> ClusterState outcome" where
  "apply_entry e s = Do (fst e) (snd e) s"

definition admissible_entry :: "entry \<Rightarrow> ClusterState \<Rightarrow> bool" where
  "admissible_entry e s = (case snd e of None \<Rightarrow> True | Some c \<Rightarrow> admissible c s)"

definition spec_entry :: "entry \<Rightarrow> cluster_view \<Rightarrow> cluster_view" where
  "spec_entry e v = (case snd e of None \<Rightarrow> v | Some c \<Rightarrow> spec c v)"

lemma Index_irrelevant [simp]:
  "wf_state (s\<lparr>Index := i\<rparr>) = wf_state s" "abs_view (s\<lparr>Index := i\<rparr>) = abs_view s"
  by (simp_all add: wf_state_def segment_ids_def abs_view_def)

interpretation store: replicated_fsm apply_entry wf_state admissible_entry abs_view spec_entry
  by unfold_locales
    (auto simp: apply_entry_def admissible_entry_def spec_entry_def Do_def fsm.step_inv fsm.step_abs
      split: option.splits)

end
