(* ===== verification/Cluster_Store.thy ===== *)
theory Cluster_Store
  imports Cluster_Invariant
begin

text \<open>
  The properties of the cluster state machine, and the store as a transition system: segment
  IDs are handed out by \<open>NextSegmentID\<close> and used later by a \<open>CreateSegment\<close> command, with any other
  command in between.
\<close>

subsection \<open>The store as a step relation\<close>

text \<open>A store together with the IDs that were handed out and not used yet.\<close>

record store_state =
  st_current :: ClusterState
  st_pending :: "u64 list"

fun uses_id :: "ClusterCommand \<Rightarrow> u64 option" where
  "uses_id (CreateSegment c) = Some (sc_ID c)"
| "uses_id _ = None"

inductive store_step :: "store_state \<Rightarrow> store_state \<Rightarrow> bool" where
  allocate: "CurrentSegmentID (st_current st) \<noteq> - 1 \<Longrightarrow> NextSegmentID (st_current st) = (i, s') \<Longrightarrow>
    store_step st \<lparr>st_current = s', st_pending = i # st_pending st\<rparr>"
| noop: "Do index None (st_current st) = Ret s' \<Longrightarrow> store_step st (st\<lparr>st_current := s'\<rparr>)"
| other: "uses_id c = None \<Longrightarrow> Do index (Some c) (st_current st) = Ret s' \<Longrightarrow>
    store_step st (st\<lparr>st_current := s'\<rparr>)"
| create: "uses_id c = Some i \<Longrightarrow> i \<in> set (st_pending st) \<Longrightarrow> Do index (Some c) (st_current st) = Ret s' \<Longrightarrow>
    store_step st \<lparr>st_current = s', st_pending = removeAll i (st_pending st)\<rparr>"

inductive store_reachable :: "store_state \<Rightarrow> bool" where
  init: "store_reachable \<lparr>st_current = empty_state, st_pending = []\<rparr>"
| step: "store_reachable st \<Longrightarrow> store_step st st' \<Longrightarrow> store_reachable st'"

inductive_cases store_stepE: "store_step st st'"

definition store_inv :: "store_state \<Rightarrow> bool" where
  "store_inv st \<longleftrightarrow> wf_state (st_current st) \<and> distinct (st_pending st) \<and>
     set (st_pending st) \<inter> set (segment_ids (st_current st)) = {} \<and>
     (\<forall>i \<in> set (st_pending st). i \<le> CurrentSegmentID (st_current st))"

lemma wf_empty_state [simp]: "wf_state empty_state"
  by (simp add: wf_defs empty_state_def)

lemma no_new_segment_ids:
  assumes "wf_state s" and "uses_id c = None" and "apply_command c s = Ret s'"
  shows "set (segment_ids s') \<subseteq> set (segment_ids s) \<and> CurrentSegmentID s' = CurrentSegmentID s"
proof (cases c)
  case (CloseSegment x)
  then show ?thesis using assms
    by (auto simp: doCloseSegment_def segment_ids_def split: option.splits
        dest!: find_index_SomeD(4) set_remove_at_subset [THEN subsetD])
next
  case (UpdateSegmentNodes i w ns)
  then show ?thesis using assms
    by (cases w) (auto simp: segment_ids_def split: option.splits dest: segments_update_mem)
next
  case (DeleteSegment i w)
  then show ?thesis using assms
    by (cases w) (auto simp: segment_ids_def split: option.splits dest!: set_remove_at_subset [THEN subsetD])
qed (use assms in \<open>auto simp: doCreateNamespace_def doDeleteNamespace_def doCreateTopic_def doDeleteTopic_def
    doCreateConsumerGroup_def doDeleteConsumerGroup_def doUpdateOffsetCommits_def doUpdateNode_def
    segment_ids_def Let_def split: option.splits\<close>)

lemma create_segment_ids:
  assumes "apply_command (CreateSegment c) s = Ret s'"
  shows "set (segment_ids s') = insert (sc_ID c) (set (segment_ids s))"
    and "CurrentSegmentID s \<le> CurrentSegmentID s'"
  using assms by (auto simp: doOpenSegment_def segment_ids_def Let_def)

lemma uses_id_None_admissible: "uses_id c = None \<Longrightarrow> admissible c s"
  by (cases c) auto

lemma uses_id_SomeE: "uses_id c = Some i \<Longrightarrow> (\<And>x. c = CreateSegment x \<Longrightarrow> sc_ID x = i \<Longrightarrow> P) \<Longrightarrow> P"
  by (cases c) auto

lemma Do_SomeE:
  assumes "Do index (Some c) s = Ret s'"
  obtains s1 where "apply_command c s = Ret s1" "s' = s1\<lparr>Index := index\<rparr>"
  using assms by (auto simp: Do_def)

lemma segment_ids_Index [simp]: "segment_ids (s\<lparr>Index := i\<rparr>) = segment_ids s"
  by (simp add: segment_ids_def)

lemma store_inv_allocate:
  assumes "store_inv st" and "CurrentSegmentID (st_current st) \<noteq> - 1"
    and "NextSegmentID (st_current st) = (i, s')"
  shows "store_inv \<lparr>st_current = s', st_pending = i # st_pending st\<rparr>"
proof -
  let ?c = "CurrentSegmentID (st_current st)"
  have "?c < ?c + 1" using assms(2) by (rule word_less_inc)
  then have le: "x \<le> ?c + 1" "x \<noteq> ?c + 1" if "x \<le> ?c" for x using that by auto
  have i: "i = ?c + 1" "s' = (st_current st)\<lparr>CurrentSegmentID := ?c + 1\<rparr>"
    using assms(3) by (auto simp: NextSegmentID_def)
  have ids: "segment_ids s' = segment_ids (st_current st)" by (simp add: i segment_ids_def)
  have old: "x \<le> ?c" if "x \<in> set (st_pending st) \<union> set (segment_ids (st_current st))" for x
    using assms(1) that by (auto simp: store_inv_def wf_state_def list_all_iff)
  have "wf_state s'" using assms(1) old le(1) unfolding store_inv_def wf_state_def ids
    by (simp add: i list_all_iff)
  moreover have "i \<notin> set (st_pending st) \<union> set (segment_ids s')"
    using old le(2) unfolding ids i(1) by blast
  moreover have "\<forall>x \<in> set (i # st_pending st). x \<le> CurrentSegmentID s'"
    using old le(1) by (simp add: i)
  ultimately show ?thesis using assms(1) by (simp add: store_inv_def ids)
qed

lemma store_inv_step: "store_step st st' \<Longrightarrow> store_inv st \<Longrightarrow> store_inv st'"
proof (induction rule: store_step.induct)
  case (allocate st i s')
  then show ?case using store_inv_allocate by blast
next
  case (noop index st s')
  then show ?case by (auto simp: store_inv_def Do_def)
next
  case (other c index st s')
  from other(2) obtain s1 where s1: "apply_command c (st_current st) = Ret s1" "s' = s1\<lparr>Index := index\<rparr>"
    by (rule Do_SomeE)
  have wf: "wf_state (st_current st)" using other(3) by (simp add: store_inv_def)
  have "wf_state s1" using apply_command_step_ok [OF wf uses_id_None_admissible [OF other(1)] s1(1)]
    by (simp add: step_ok_def)
  then show ?case using other(3) no_new_segment_ids [OF wf other(1) s1(1)] s1(2)
    by (auto simp: store_inv_def)
next
  case (create c i st index s')
  from create(3) obtain s1 where s1: "apply_command c (st_current st) = Ret s1" "s' = s1\<lparr>Index := index\<rparr>"
    by (rule Do_SomeE)
  from create(1) obtain x where x: "c = CreateSegment x" "sc_ID x = i" by (rule uses_id_SomeE)
  have wf: "wf_state (st_current st)" and new: "admissible c (st_current st)"
    using create(2,4) x by (auto simp: store_inv_def)
  have "wf_state s1" using apply_command_step_ok [OF wf new s1(1)] by (simp add: step_ok_def)
  then show ?case using create(4) create_segment_ids [OF s1(1) [unfolded x(1)]] s1(2) x(2)
    by (auto simp: store_inv_def distinct_removeAll)
qed

lemma store_reachable_inv: "store_reachable st \<Longrightarrow> store_inv st"
proof (induction rule: store_reachable.induct)
  case init
  show ?case using wf_empty_state by (simp add: store_inv_def)
qed (rule store_inv_step)

subsection \<open>Deleting a topic\<close>

lemma has_topic_view: "TopicExists s n t = has_topic (abs_view s) n t"
  by (cases "FindNamespace s n")
    (auto simp: TopicExists_def has_topic_def v_ns_None v_ns_Some abs_ns_def Find_None(2,3))

lemma DeleteTopic_view:
  assumes "wf_state s" and "TopicExists s n t" and "apply_command (DeleteTopic n t) s = Ret s'"
  shows "wf_state s'"
    and "abs_view s' = (on_ns n (\<lambda>nv. nv\<lparr>nv_topics := (nv_topics nv)(t := None),
              nv_groups := (\<lambda>g. map_option (forget_topic (abs_view s) n t) (nv_groups nv g))\<rparr>) (abs_view s))
           \<lparr>v_open := without (owned_by TOPIC n t) (v_open (abs_view s)),
            v_closed := without (owned_by TOPIC n t) (v_closed (abs_view s))\<rparr>"
  using apply_command_step_ok [OF assms(1) _ assms(3)] assms(2) by (auto simp: step_ok_def has_topic_view)

lemma without_SomeD: "without P m k = Some v \<Longrightarrow> m k = Some v \<and> \<not> P v"
  by (auto simp: without_def Option.bind_eq_Some_conv split: if_splits)

lemma v_segment_without:
  assumes "v_segment v i = Some g" and "\<not> P g"
  shows "v_segment (v\<lparr>v_ns := ns, v_open := without P (v_open v), v_closed := without P (v_closed v)\<rparr>) i \<noteq> None"
  using assms by (auto simp: v_segment_def without_def split: option.splits)

lemma segments_of_view:
  "wf_state s \<Longrightarrow> g \<in> set (OpenSegments s) \<longleftrightarrow> v_open (abs_view s) (seg_ID g) = Some g"
  "wf_state s \<Longrightarrow> g \<in> set (ClosedSegments s) \<longleftrightarrow> v_closed (abs_view s) (seg_ID g) = Some g"
  using wf_idsD(2) [OF wf_stateD(3)] wf_idsD(2) [OF wf_stateD(4)]
  by (auto simp: klookup_Some_iff)

lemma GetConsumerGroup_deleted_topic:
  assumes "wf_state s" and "TopicExists s n t" and "apply_command (DeleteTopic n t) s = Ret s'"
    and "GetConsumerGroup s' n g = Some cg"
  shows "\<exists>old. cg = forget_topic (abs_view s) n t old"
  using assms(4) DeleteTopic_view [OF assms(1-3)]
  by (auto simp: GetConsumerGroup_view on_ns_def Option.bind_eq_Some_conv)

subsection \<open>Segment counts\<close>

definition node_load :: "u64 \<Rightarrow> ClusterSegment \<Rightarrow> nat" where
  "node_load i g = (if 0 < i \<and> PrimaryNodeID (seg_Nodes g) = i then 1 else 0)
     + count_list (ReplicatingNodeIDs (seg_Nodes g)) i + count_list (DoneNodeIDs (seg_Nodes g)) i"

lemma fold_bump: "fold bump xs m i = m i + int (count_list xs i)"
  by (induction xs arbitrary: m) (auto simp: bump_def)

lemma count_segment_eq: "count_segment g m i = m i + int (node_load i g)"
  by (auto simp: count_segment_def node_load_def fold_bump Let_def bump_def)

lemma fold_count_segment: "fold count_segment gs m i = m i + (\<Sum>g\<leftarrow>gs. int (node_load i g))"
  by (induction gs arbitrary: m) (auto simp: count_segment_eq)

lemma int_sum_loads: "int (\<Sum>g\<leftarrow>gs. node_load i g) = (\<Sum>g\<leftarrow>gs. int (node_load i g))"
  by (induction gs) auto

subsection \<open>A sample state\<close>

definition sample_topic :: ClusterTopic where
  "sample_topic = \<lparr>topic_Name = ''orders'', Shards = 1, ReplicationFactor = 2, Retention = 60, DefaultExchangeType = ''fanout''\<rparr>"

definition sample_segment :: "u64 \<Rightarrow> string \<Rightarrow> ClusterSegment" where
  "sample_segment i owner = \<lparr>seg_ID = i, seg_Type = TOPIC, OwnerNamespace = ''default'', OwnerName = owner,
     Generation = 1, Shard = 0, CreatedAt = 5, ClosedAt = 0,
     seg_Nodes = \<lparr>PrimaryNodeID = 7, DoneNodeIDs = [], ReplicatingNodeIDs = [8]\<rparr>, seg_Size = 0, Sha1 = []\<rparr>"

definition sample_group :: ClusterConsumerGroup where
  "sample_group = \<lparr>group_Name = ''billing'',
     Bindings = [\<lparr>bind_TopicName = ''orders'', bind_ExchangeType = ''fanout'', bind_By = ByNone\<rparr>,
                 \<lparr>bind_TopicName = ''audit'', bind_ExchangeType = ''fanout'', bind_By = ByNone\<rparr>],
     group_Size = 4, Since = 0,
     OffsetCommits = [\<lparr>oc_SegmentID = 1, oc_Offset = 10\<rparr>, \<lparr>oc_SegmentID = 2, oc_Offset = 20\<rparr>]\<rparr>"

definition sample_state :: ClusterState where
  "sample_state = \<lparr>Index = 9, CurrentSegmentID = 3,
     Namespaces = [\<lparr>ns_Name = ''default'', Topics = [sample_topic, sample_topic\<lparr>topic_Name := ''audit''\<rparr>],
                    ConsumerGroups = [sample_group]\<rparr>],
     OpenSegments = [sample_segment 1 ''orders'', sample_segment 2 ''audit''], ClosedSegments = [],
     Nodes = [\<lparr>node_ID = 7, Address = ''a'', node_State = ALIVE, LastSeenAlive = None\<rparr>]\<rparr>"

lemmas sample_defs = sample_state_def sample_group_def sample_segment_def sample_topic_def

lemma wf_sample_state [simp]: "wf_state sample_state"
  by code_simp

subsection \<open>Properties\<close>

text \<open>(C1) Each of the twelve commands, run on a well-formed state, leaves a well-formed state
  (unique namespace, topic and group names, segments and nodes sorted by unique ID, an ID in at most
  one of the two segment slices and never above the segment counter) and changes the abstract
  state exactly as its specification on finite maps says. The only precondition is that the ID
  of a segment to create is not in use.\<close>

theorem command_refines_spec:
  assumes "wf_state s" and "admissible c s" and "apply_command c s = Ret s'"
  shows "wf_state s' \<and> abs_view s' = spec c (abs_view s)"
  using apply_command_step_ok [OF assms] by (simp add: step_ok_def)

theorem command_refines_spec_witness:
  "\<exists>s'. apply_command (DeleteTopic ''default'' ''orders'') sample_state = Ret s' \<and> wf_state s'
     \<and> abs_view s' = spec (DeleteTopic ''default'' ''orders'') (abs_view sample_state)"
proof -
  have "is_ret (apply_command (DeleteTopic ''default'' ''orders'') sample_state)" by code_simp
  then show ?thesis using command_refines_spec [of sample_state "DeleteTopic ''default'' ''orders''"]
    by (auto simp: is_ret_iff)
qed

text \<open>(C2) A log of entries, applied by the store to the empty state, ends in a well-formed state
  whose abstract view is the specification folded over the commands of the log: replicas that
  apply the same log hold the same topics, groups, segments and nodes.\<close>

theorem log_refines_spec:
  assumes "ok_log admissible_entry apply_entry es empty_state"
    and "fold_outcome apply_entry es empty_state = Ret s'"
  shows "wf_state s' \<and> abs_view s' = fold spec_entry es (abs_view empty_state)"
  using store.log_refines [OF wf_empty_state] assms by blast

definition sample_log :: "entry list" where
  "sample_log = [(1, Some (CreateNamespace ''default'')), (2, None), (3, Some (CreateTopic ''default'' sample_topic)),
     (4, Some (CreateConsumerGroup ''default'' sample_group)),
     (5, Some (CreateSegment \<lparr>sc_ID = 1, sc_Type = TOPIC, sc_OwnerNamespace = ''default'', sc_OwnerName = ''orders'',
        sc_Generation = 1, sc_Shard = 0, sc_OpenedAt = 5, sc_PrimaryNodeID = 7, sc_ReplicatingNodeIDs = [8]\<rparr>)),
     (6, Some (CloseSegment \<lparr>cl_ID = 1, cl_DoneNodeID = 7, cl_ClosedAt = 9, cl_Size = 3, cl_Sha1 = []\<rparr>)),
     (7, Some (DeleteTopic ''default'' ''orders''))]"

theorem log_refines_spec_witness:
  "\<exists>s'. fold_outcome apply_entry sample_log empty_state = Ret s' \<and> wf_state s'
     \<and> abs_view s' = fold spec_entry sample_log (abs_view empty_state)"
proof -
  have "is_ret (fold_outcome apply_entry sample_log empty_state)"
    and "ok_log admissible_entry apply_entry sample_log empty_state" by code_simp+
  then show ?thesis using log_refines_spec [of sample_log] by (auto simp: is_ret_iff)
qed

fun needs_namespace :: "ClusterCommand \<Rightarrow> string option" where
  "needs_namespace (CreateTopic n _) = Some n"
| "needs_namespace (DeleteTopic n _) = Some n"
| "needs_namespace (CreateConsumerGroup n _) = Some n"
| "needs_namespace (DeleteConsumerGroup n _) = Some n"
| "needs_namespace (UpdateConsumerGroupOffsetCommits n _ _) = Some n"
| "needs_namespace _ = None"

fun invalid_which :: "ClusterCommand \<Rightarrow> bool" where
  "invalid_which (UpdateSegmentNodes _ w _) = (w = WhichINVALID)"
| "invalid_which (DeleteSegment _ w) = (w = WhichINVALID)"
| "invalid_which _ = False"

lemma apply_command_panics:
  "(\<exists>m. apply_command c s = Panic m) \<longleftrightarrow>
     (\<exists>n. needs_namespace c = Some n \<and> FindNamespace s n = None) \<or> invalid_which c"
proof (cases c)
  case (UpdateSegmentNodes i w ns)
  then show ?thesis by (cases w) (auto split: option.split)
next
  case (DeleteSegment i w)
  then show ?thesis by (cases w) (auto split: option.split)
qed (auto simp: doCreateNamespace_def doDeleteNamespace_def doCreateTopic_def doDeleteTopic_def Let_def
    doCreateConsumerGroup_def doDeleteConsumerGroup_def doUpdateOffsetCommits_def doOpenSegment_def
    doCloseSegment_def doUpdateNode_def split: option.splits)

text \<open>(C3) A command panics exactly when it names a namespace that does not exist, or when it
  addresses segments with an invalid \<open>Which\<close>; in every other case it returns a state.\<close>

theorem command_panics_iff:
  "(\<exists>m. apply_command c s = Panic m) \<longleftrightarrow>
     (\<exists>n. needs_namespace c = Some n \<and> FindNamespace s n = None) \<or> invalid_which c"
  by (rule apply_command_panics)

text \<open>(C4) In every reachable state of a store whose segment IDs come from \<open>NextSegmentID\<close>, the state
  is well formed and the IDs that are handed out and not used yet are distinct, not in use by any
  segment and not above the counter: no interleaving of allocation, creation, closing and
  deletion reuses the ID of an existing segment. The counter must not have reached the maximal
  64-bit value.\<close>

theorem store_ids_fresh:
  assumes "store_reachable st"
  shows "wf_state (st_current st) \<and> distinct (st_pending st)
    \<and> set (st_pending st) \<inter> set (segment_ids (st_current st)) = {}
    \<and> (\<forall>i \<in> set (st_pending st). i \<le> CurrentSegmentID (st_current st))"
  using store_reachable_inv [OF assms] by (simp add: store_inv_def)

theorem store_ids_fresh_witness:
  "\<exists>st. store_reachable st \<and> st_pending st = [2] \<and> segment_ids (st_current st) = [1]
     \<and> wf_state (st_current st) \<and> set (st_pending st) \<inter> set (segment_ids (st_current st)) = {}"
proof -
  let ?c = "\<lparr>sc_ID = 1, sc_Type = TOPIC, sc_OwnerNamespace = ''n'', sc_OwnerName = ''t'', sc_Generation = 1,
    sc_Shard = 0, sc_OpenedAt = 5, sc_PrimaryNodeID = 7, sc_ReplicatingNodeIDs = []\<rparr>"
  let ?s1 = "empty_state\<lparr>CurrentSegmentID := 1\<rparr>" and ?s2 = "empty_state\<lparr>CurrentSegmentID := 2\<rparr>"
  let ?s3 = "empty_state\<lparr>CurrentSegmentID := 2, OpenSegments := [opened ?c], Index := 1\<rparr>"
  have 1: "store_reachable \<lparr>st_current = ?s1, st_pending = [1]\<rparr>"
    using store_reachable.step [OF store_reachable.init store_step.allocate, of 1 ?s1]
    by (simp add: NextSegmentID_def empty_state_def)
  have 2: "store_reachable \<lparr>st_current = ?s2, st_pending = [2, 1]\<rparr>"
    using store_reachable.step [OF 1 store_step.allocate, of 2 ?s2]
    by (simp add: NextSegmentID_def empty_state_def)
  have 3: "store_reachable \<lparr>st_current = ?s3, st_pending = [2]\<rparr>"
    using store_reachable.step [OF 2 store_step.create, of "CreateSegment ?c" 1 1 ?s3]
    by (simp add: Do_def doOpenSegment_def empty_state_def sort_Slice_def opened_def Let_def)
  show ?thesis using 3 store_ids_fresh [OF 3]
    by (intro exI [of _ "\<lparr>st_current = ?s3, st_pending = [2]\<rparr>"])
      (simp add: segment_ids_def empty_state_def opened_def)
qed

text \<open>(C5) Deleting an existing topic leaves no dangling reference to it: the topic is gone, no open
  or closed segment belongs to it, no consumer group of the namespace has a binding to it, and
  every offset commit of those groups still names an existing segment.\<close>

theorem delete_topic_integrity:
  assumes "wf_state s" and "TopicExists s n t" and "apply_command (DeleteTopic n t) s = Ret s'"
  shows "\<not> TopicExists s' n t
    \<and> (\<forall>g \<in> set (OpenSegments s') \<union> set (ClosedSegments s'). \<not> owned_by TOPIC n t g)
    \<and> (\<forall>gn cg. GetConsumerGroup s' n gn = Some cg \<longrightarrow>
         (\<forall>b \<in> set (Bindings cg). bind_TopicName b \<noteq> t) \<and>
         (\<forall>c \<in> set (OffsetCommits cg). GetSegment s' (oc_SegmentID c) \<noteq> None))"
proof (intro conjI ballI allI impI)
  note v = DeleteTopic_view [OF assms]
  show "\<not> TopicExists s' n t" by (auto simp: has_topic_view v(2) has_topic_def on_ns_def split: option.splits)
  show "\<not> owned_by TOPIC n t g" if "g \<in> set (OpenSegments s') \<union> set (ClosedSegments s')" for g
    using that segments_of_view [OF v(1), of g] unfolding v(2) by (auto dest: without_SomeD)
  fix gn cg assume "GetConsumerGroup s' n gn = Some cg"
  then obtain old where cg: "cg = forget_topic (abs_view s) n t old"
    using GetConsumerGroup_deleted_topic [OF assms] by blast
  show "bind_TopicName b \<noteq> t" if "b \<in> set (Bindings cg)" for b using that by (auto simp: cg forget_topic_def)
  show "GetSegment s' (oc_SegmentID c) \<noteq> None" if "c \<in> set (OffsetCommits cg)" for c
    using that v_segment_without [of "abs_view s" "oc_SegmentID c" _ "owned_by TOPIC n t"]
    unfolding v_segment_view [OF v(1), symmetric] v(2)
    by (auto simp: cg forget_topic_def on_ns_def split: option.splits)
qed

theorem delete_topic_integrity_witness:
  "\<exists>s'. apply_command (DeleteTopic ''default'' ''orders'') sample_state = Ret s' \<and> \<not> TopicExists s' ''default'' ''orders''
     \<and> (\<forall>g \<in> set (OpenSegments s') \<union> set (ClosedSegments s'). \<not> owned_by TOPIC ''default'' ''orders'' g)"
proof -
  have "is_ret (apply_command (DeleteTopic ''default'' ''orders'') sample_state)"
    and "TopicExists sample_state ''default'' ''orders''" by code_simp+
  then show ?thesis using delete_topic_integrity [of sample_state "''default''" "''orders''"]
    by (auto simp: is_ret_iff)
qed

text \<open>On a well-formed state the two binary searches of \<open>GetSegment\<close> find a segment if and only
  if it is among the open or the closed segments, whatever its position.\<close>

theorem GetSegment_iff_mem:
  assumes "wf_state s"
  shows "GetSegment s i = Some g \<longleftrightarrow> seg_ID g = i \<and> g \<in> set (OpenSegments s) \<union> set (ClosedSegments s)"
proof -
  have "v_open (abs_view s) i = Some g \<longleftrightarrow> g \<in> set (OpenSegments s) \<and> seg_ID g = i"
    "v_closed (abs_view s) i = Some g \<longleftrightarrow> g \<in> set (ClosedSegments s) \<and> seg_ID g = i"
    using wf_idsD(2) [OF wf_stateD(3) [OF assms]] wf_idsD(2) [OF wf_stateD(4) [OF assms]]
    by (auto simp: klookup_Some_iff)
  moreover have "v_open (abs_view s) i = None \<or> v_closed (abs_view s) i = None"
    using wf_stateD(5) [OF assms] by (auto simp: klookup_None_iff)
  ultimately show ?thesis
    by (auto simp: v_segment_view [OF assms, symmetric] v_segment_def split: option.splits)
qed

theorem GetSegment_iff_mem_witness: "GetSegment sample_state 2 = Some (sample_segment 2 ''audit'')"
  using GetSegment_iff_mem [OF wf_sample_state, of 2 "sample_segment 2 ''audit''"] by (simp add: sample_defs)

text \<open>\<open>CountSegmentsPerNode\<close> counts, for each node, the open and closed segments it is the
  primary of (node ID 0 is no node) plus its occurrences among the replicating and the done nodes.\<close>

theorem CountSegmentsPerNode_eq:
  "CountSegmentsPerNode s i = int (\<Sum>g\<leftarrow>OpenSegments s @ ClosedSegments s. node_load i g)"
  by (simp add: CountSegmentsPerNode_def fold_count_segment int_sum_loads)

end
