(* ===== verification/Node_Id.thy ===== *)
theory Node_Id
  imports Go_Prelude
begin

text \<open>
  Node identifiers as text (\<^verbatim>\<open>mq/node_id.go\<close>) with the parts of \<^verbatim>\<open>strconv\<close> they use, and the
  rounding to a power of two (\<^verbatim>\<open>mq/util/math.go\<close>).
\<close>

unbundle bit_operations_syntax

subsection \<open>Hexadecimal numbers\<close>

definition hex_char :: "nat \<Rightarrow> char" where
  "hex_char d = ''0123456789abcdef'' ! d"

fun FormatUint16 :: "nat \<Rightarrow> string" where
  "FormatUint16 n = (if n < 16 then [hex_char n] else FormatUint16 (n div 16) @ [hex_char (n mod 16)])"

declare FormatUint16.simps [simp del]

datatype num_error = ErrSyntax | ErrRange

text \<open>The value of a digit character, letters in either case; the base is checked by the caller.\<close>

definition digit_value :: "char \<Rightarrow> nat option" where
  "digit_value c = (let n = (of_char c :: nat) in
     if 48 \<le> n \<and> n \<le> 57 then Some (n - 48)
     else if 97 \<le> n \<and> n \<le> 122 then Some (n - 97 + 10)
     else if 65 \<le> n \<and> n \<le> 90 then Some (n - 65 + 10)
     else None)"

fun parse_digits :: "string \<Rightarrow> nat \<Rightarrow> num_error + nat" where
  "parse_digits [] n = Inr n"
| "parse_digits (c # cs) n =
     (case digit_value c of
        None \<Rightarrow> Inl ErrSyntax
      | Some d \<Rightarrow>
          if d \<ge> 16 then Inl ErrSyntax
          else if n \<ge> 2 ^ 60 then Inl ErrRange
          else if n * 16 + d \<ge> 2 ^ 64 then Inl ErrRange
          else parse_digits cs (n * 16 + d))"

definition NodeIDToString :: "u64 \<Rightarrow> string" where
  "NodeIDToString i =
     (let s = FormatUint16 (unat i)
      in if length s < 16 then replicate (16 - length s) CHR ''0'' @ s else s)"

definition NodeIDFromString :: "string \<Rightarrow> num_error + u64" where
  "NodeIDFromString s =
     (if s = [] then Inl ErrSyntax
      else case parse_digits s 0 of Inl e \<Rightarrow> Inl e | Inr n \<Rightarrow> Inr (of_nat n))"

definition MustIDFromString :: "string \<Rightarrow> u64 outcome" where
  "MustIDFromString s =
     (case NodeIDFromString s of Inl _ \<Rightarrow> Panic ''strconv.ParseUint'' | Inr i \<Rightarrow> Ret i)"

lemma digit_value_hex_char: "d < 16 \<Longrightarrow> digit_value (hex_char d) = Some d"
proof -
  assume "d < 16"
  then have "d \<in> set [0..<16]" by simp
  moreover have "\<forall>d \<in> set [0..<16]. digit_value (hex_char d) = Some d" by code_simp
  ultimately show ?thesis by blast
qed

lemma parse_digits_append:
  "parse_digits (xs @ ys) n = (case parse_digits xs n of Inl e \<Rightarrow> Inl e | Inr m \<Rightarrow> parse_digits ys m)"
  by (induction xs arbitrary: n) (auto split: option.split)

lemma parse_FormatUint16: "n < 2 ^ 64 \<Longrightarrow> parse_digits (FormatUint16 n) 0 = Inr n"
proof (induction n rule: FormatUint16.induct)
  case (1 n)
  show ?case
  proof (cases "n < 16")
    case False
    then have "parse_digits (FormatUint16 (n div 16)) 0 = Inr (n div 16)" using 1 by simp
    moreover have "n div 16 < 2 ^ 60" using 1(2) by (simp add: less_mult_imp_div_less)
    moreover have "n div 16 * 16 + n mod 16 = n" by simp
    ultimately show ?thesis using False 1(2)
      by (subst FormatUint16.simps) (simp add: parse_digits_append digit_value_hex_char del: mod_div_mult_eq)
  qed (simp add: FormatUint16.simps digit_value_hex_char)
qed

lemma parse_leading_zeros: "parse_digits (replicate k CHR ''0'' @ s) 0 = parse_digits s 0"
proof (induction k)
  case (Suc k)
  have "digit_value CHR ''0'' = Some 0" by code_simp
  then show ?case using Suc by simp
qed simp

lemma length_FormatUint16: "n < 16 ^ k \<Longrightarrow> 0 < k \<Longrightarrow> length (FormatUint16 n) \<le> k \<and> FormatUint16 n \<noteq> []"
proof (induction n arbitrary: k rule: FormatUint16.induct)
  case (1 n)
  show ?case
  proof (cases "n < 16")
    case False
    with 1(2,3) obtain j where j: "k = Suc j" "0 < j" by (cases k; cases "k - 1") auto
    then have "n div 16 < 16 ^ j" using 1(2) by (simp add: less_mult_imp_div_less mult.commute)
    then show ?thesis using 1(1) [OF False, of j] False j by (subst (1 2) FormatUint16.simps) simp
  qed (use 1 in \<open>simp add: FormatUint16.simps\<close>)
qed

lemma unat_u64: "unat i < 2 ^ 64" for i :: u64
  using unsigned_less [of i] by simp

lemma NodeIDToString_length: "length (NodeIDToString i) = 16"
  using length_FormatUint16 [of "unat i" 16] unat_u64 [of i] by (simp add: NodeIDToString_def Let_def)

lemma NodeID_round_trip: "NodeIDFromString (NodeIDToString i) = Inr i"
proof -
  have "parse_digits (NodeIDToString i) 0 = Inr (unat i)"
    using parse_FormatUint16 [OF unat_u64] by (simp add: NodeIDToString_def Let_def parse_leading_zeros)
  moreover have "NodeIDToString i \<noteq> []" using NodeIDToString_length [of i] by auto
  ultimately show ?thesis by (simp add: NodeIDFromString_def)
qed

subsection \<open>Rounding up to a power of two\<close>

definition smear :: "nat \<Rightarrow> u32 \<Rightarrow> u32" where
  "smear k n = n OR drop_bit k n"

definition NextPowerOfTwo32 :: "u32 \<Rightarrow> u32" where
  "NextPowerOfTwo32 n = smear 16 (smear 8 (smear 4 (smear 2 (smear 1 (n - 1))))) + 1"

text \<open>After the shifts by 1, 2, 4, 8 and 16 a bit is set iff one of the 32 bits from it upwards was.\<close>

lemma bit_smear:
  assumes "\<And>i. bit m i \<longleftrightarrow> (\<exists>j < k. bit n (i + j))"
  shows "bit (smear k m) i \<longleftrightarrow> (\<exists>j < 2 * k. bit n (i + j))"
proof -
  have "(\<exists>j < 2 * k. bit n (i + j)) \<longleftrightarrow> (\<exists>j < k. bit n (i + j)) \<or> (\<exists>j < k. bit n (i + k + j))"
    (is "?A \<longleftrightarrow> ?B \<or> ?C")
  proof
    assume ?A
    then obtain j where j: "j < 2 * k" "bit n (i + j)" by blast
    show "?B \<or> ?C"
    proof (cases "j < k")
      case False
      then have "j - k < k" "bit n (i + k + (j - k))" using j by auto
      then show ?thesis by blast
    qed (use j in blast)
  next
    assume "?B \<or> ?C"
    then show ?A
    proof
      assume ?B
      then obtain j where "j < k" "bit n (i + j)" by blast
      then show ?A by (intro exI [of _ j]) auto
    next
      assume ?C
      then obtain j where "j < k" "bit n (i + k + j)" by blast
      then show ?A by (intro exI [of _ "k + j"]) (auto simp: add.assoc)
    qed
  qed
  then show ?thesis by (simp add: smear_def bit_or_iff bit_drop_bit_eq assms add.commute)
qed

lemma bit_smear_all:
  "bit (smear 16 (smear 8 (smear 4 (smear 2 (smear 1 m))))) i \<longleftrightarrow> (\<exists>j \<ge> i. bit m j)" for m :: u32
proof -
  have 1: "bit (smear 1 m) i \<longleftrightarrow> (\<exists>j < 2. bit m (i + j))" for i
    using bit_smear [of m 1 m i] by simp
  have 2: "bit (smear 2 (smear 1 m)) i \<longleftrightarrow> (\<exists>j < 4. bit m (i + j))" for i
    using bit_smear [OF 1, of i] by simp
  have 4: "bit (smear 4 (smear 2 (smear 1 m))) i \<longleftrightarrow> (\<exists>j < 8. bit m (i + j))" for i
    using bit_smear [OF 2, of i] by simp
  have 8: "bit (smear 8 (smear 4 (smear 2 (smear 1 m)))) i \<longleftrightarrow> (\<exists>j < 16. bit m (i + j))" for i
    using bit_smear [OF 4, of i] by simp
  have "bit (smear 16 (smear 8 (smear 4 (smear 2 (smear 1 m))))) i \<longleftrightarrow> (\<exists>j < 2 * 16. bit m (i + j))"
    using 8 by (rule bit_smear)
  also have "\<dots> \<longleftrightarrow> (\<exists>j \<ge> i. bit m j)"
  proof
    assume "\<exists>j \<ge> i. bit m j"
    then obtain j where j: "i \<le> j" "bit m j" by blast
    then have "j < 32" using bit_imp_le_length by fastforce
    then show "\<exists>j < 2 * 16. bit m (i + j)" using j by (intro exI [of _ "j - i"]) auto
  qed (auto intro: exI [of _ "i + _"])
  finally show ?thesis .
qed

text \<open>The smeared word is the mask of the bit length.\<close>

fun bit_length :: "nat \<Rightarrow> nat" where
  "bit_length n = (if n = 0 then 0 else Suc (bit_length (n div 2)))"

declare bit_length.simps [simp del]

lemma bit_length_bounds: "n < 2 ^ bit_length n" "0 < n \<Longrightarrow> 2 ^ bit_length n \<le> 2 * n"
proof -
  have "n < 2 ^ bit_length n \<and> (0 < n \<longrightarrow> 2 ^ bit_length n \<le> 2 * n)"
  proof (induction n rule: bit_length.induct)
    case (1 n)
    show ?case
    proof (cases "n = 0")
      case False
      then show ?thesis using 1 [OF False] by (cases "n div 2 = 0") (auto simp: bit_length.simps [of n] bit_length.simps [of 0])
    qed (simp add: bit_length.simps)
  qed
  then show "n < 2 ^ bit_length n" "0 < n \<Longrightarrow> 2 ^ bit_length n \<le> 2 * n" by auto
qed

lemma ex_bit_iff_length: "(\<exists>j \<ge> i. bit n j) \<longleftrightarrow> i < bit_length n" for n :: nat
proof (induction n arbitrary: i rule: bit_length.induct)
  case (1 n)
  show ?case
  proof (cases "n = 0")
    case False
    have "(\<exists>j \<ge> i. bit n j) \<longleftrightarrow> (i = 0 \<and> odd n) \<or> (\<exists>j \<ge> i - 1. bit (n div 2) j)"
    proof
      assume "\<exists>j \<ge> i. bit n j"
      then obtain j where j: "i \<le> j" "bit n j" by blast
      show "(i = 0 \<and> odd n) \<or> (\<exists>j \<ge> i - 1. bit (n div 2) j)"
        using j by (cases j) (auto simp: bit_0 bit_Suc intro!: exI [of _ "j - 1"])
    next
      assume "(i = 0 \<and> odd n) \<or> (\<exists>j \<ge> i - 1. bit (n div 2) j)"
      then show "\<exists>j \<ge> i. bit n j"
        by (auto simp: bit_0 intro: exI [of _ 0]) (metis Suc_le_mono Suc_pred bit_Suc le_Suc_eq not_gr_zero zero_le)
    qed
    also have "\<dots> \<longleftrightarrow> (i = 0 \<and> odd n) \<or> i - 1 < bit_length (n div 2)" using 1 [OF False] by simp
    also have "\<dots> \<longleftrightarrow> i < bit_length n"
      using False by (cases i; cases "n div 2 = 0") (auto simp: bit_length.simps [of n] bit_length.simps [of "n div 2"] elim: oddE)
    finally show ?thesis .
  qed (simp add: bit_length.simps)
qed

lemma NextPowerOfTwo32_eq: "NextPowerOfTwo32 n = 2 ^ bit_length (unat (n - 1))"
proof -
  let ?m = "n - 1"
  have "bit (smear 16 (smear 8 (smear 4 (smear 2 (smear 1 ?m))))) i \<longleftrightarrow> bit (mask (bit_length (unat ?m)) :: u32) i"
    if "i < 32" for i
    unfolding bit_smear_all using that ex_bit_iff_length [of i "unat ?m"]
    by (simp add: bit_mask_iff bit_unsigned_iff)
  then have "smear 16 (smear 8 (smear 4 (smear 2 (smear 1 ?m)))) = mask (bit_length (unat ?m))"
    by (intro bit_word_eqI) simp
  then show ?thesis by (simp add: NextPowerOfTwo32_def mask_eq_exp_minus_1)
qed

lemma unat_pow2: "k \<le> 31 \<Longrightarrow> unat ((2::u32) ^ k) = 2 ^ k"
  using unsigned_of_nat [of "2 ^ k", where 'a = nat and 'b = 32] by (simp add: take_bit_nat_eq_self)

text \<open>For every ID the textual form has 16 characters and parses back to the ID, so distinct
  nodes have distinct names of equal length.\<close>

theorem NodeID_string_round_trip:
  "length (NodeIDToString i) = 16 \<and> NodeIDFromString (NodeIDToString i) = Inr i \<and> MustIDFromString (NodeIDToString i) = Ret i"
  by (simp add: NodeIDToString_length NodeID_round_trip MustIDFromString_def)

lemma NextPowerOfTwo32_spec:
  "if 1 \<le> unat n \<and> unat n \<le> 2 ^ 31
   then \<exists>k. unat (NextPowerOfTwo32 n) = 2 ^ k \<and> unat n \<le> 2 ^ k \<and> (\<forall>j. unat n \<le> 2 ^ j \<longrightarrow> k \<le> j)
   else NextPowerOfTwo32 n = 0"
proof -
  let ?m = "unat (n - 1)" let ?k = "bit_length ?m"
  show ?thesis
  proof (cases "1 \<le> unat n \<and> unat n \<le> 2 ^ 31")
    case True
    then have m: "?m = unat n - 1" by (simp add: unat_sub word_le_nat_alt)
    have lo: "unat n \<le> 2 ^ ?k" using bit_length_bounds(1) [of ?m] m by linarith
    have least: "?k \<le> j" if "unat n \<le> 2 ^ j" for j
    proof (cases "?m = 0")
      case False
      then have "2 ^ ?k \<le> 2 * ?m" using bit_length_bounds(2) by blast
      also have "\<dots> < 2 * unat n" using m True by simp
      also have "\<dots> \<le> 2 ^ Suc j" using that by simp
      finally have "(2::nat) ^ ?k < 2 ^ Suc j" .
      then have "?k < Suc j" by (rule power_less_imp_less_exp [rotated]) simp
      then show ?thesis by simp
    qed (simp add: bit_length.simps)
    then have "?k \<le> 31" using True by blast
    then have "unat (NextPowerOfTwo32 n) = 2 ^ ?k"
      unfolding NextPowerOfTwo32_eq by (simp add: unat_pow2)
    then show ?thesis using True lo least by auto
  next
    case False
    have "2 ^ 31 \<le> ?m"
    proof (cases "n = 0")
      case False
      then have "1 \<le> unat n" by (simp add: word_neq_0_conv word_less_nat_alt)
      then show ?thesis using \<open>\<not> (1 \<le> unat n \<and> unat n \<le> 2 ^ 31)\<close> by (simp add: unat_sub word_le_nat_alt)
    qed (simp add: unsigned_minus_1_eq_mask mask_nat_def)
    then have "(2::nat) ^ 31 < 2 ^ ?k" using bit_length_bounds(1) [of ?m] by linarith
    then have "31 < ?k" by (rule power_less_imp_less_exp [rotated]) simp
    then have "32 \<le> ?k" by simp
    then show ?thesis using False by (auto simp: NextPowerOfTwo32_eq)
  qed
qed

text \<open>(C11) \<open>NextPowerOfTwo32\<close> returns the least power of two that is at least its argument, for every
  argument from 1 to 2 to the 31; for larger arguments, and for 0, the addition wraps to 0.\<close>

theorem NextPowerOfTwo32_least:
  "if 1 \<le> unat n \<and> unat n \<le> 2 ^ 31
   then \<exists>k. unat (NextPowerOfTwo32 n) = 2 ^ k \<and> unat n \<le> 2 ^ k \<and> (\<forall>j. unat n \<le> 2 ^ j \<longrightarrow> k \<le> j)
   else NextPowerOfTwo32 n = 0"
  by (rule NextPowerOfTwo32_spec)

theorem NextPowerOfTwo32_least_witness:
  "\<exists>k. unat (NextPowerOfTwo32 5) = 2 ^ k \<and> unat (5::u32) \<le> 2 ^ k \<and> (\<forall>j. unat (5::u32) \<le> 2 ^ j \<longrightarrow> k \<le> j)"
  using NextPowerOfTwo32_least [of 5] by simp

end
