(* ===== verification/Reconciler.thy ===== *)
theory Reconciler
  imports Cluster_Store Node_Id
begin

text \<open>
  The leader's reconciler (\<^verbatim>\<open>mq/reconciler*.go\<close>). The delegate it calls (Raft, the gossip member
  list, the other nodes, the clock) is outside the code: it is the record \<open>delegate\<close> of arbitrary
  functions, and each answer may depend on every call made before it, kept in a trace. A function
  returns the updated segment counts and the extended trace, or a panic.
\<close>

subsection \<open>The delegate\<close>

datatype event =
    Applied ClusterCommand
  | VoterAdded string string
  | SizeAsked u64 u64 string
  | IDTaken
  | TimeAsked

type_synonym trace = "event list"

record delegate =
  delegate_Apply :: "trace \<Rightarrow> ClusterCommand \<Rightarrow> string + u64"
  delegate_Members :: "(string \<times> string) list"
  delegate_GetSegmentSizeFromNode :: "trace \<Rightarrow> u64 \<Rightarrow> u64 \<Rightarrow> string \<Rightarrow> string + int"
  delegate_NextSegmentID :: "trace \<Rightarrow> u64"
  delegate_Now :: "trace \<Rightarrow> gotime"

definition Apply :: "delegate \<Rightarrow> ClusterCommand \<Rightarrow> trace \<Rightarrow> (string + u64) \<times> trace" where
  "Apply r cmd w = (delegate_Apply r w cmd, w @ [Applied cmd])"

fun applied :: "trace \<Rightarrow> ClusterCommand list" where
  "applied [] = []"
| "applied (Applied c # w) = c # applied w"
| "applied (_ # w) = applied w"

lemma applied_append [simp]: "applied (v @ w) = applied v @ applied w"
  by (induction v rule: applied.induct) auto

lemma Apply_simps [simp]: "snd (Apply r cmd w) = w @ [Applied cmd]"
  by (simp add: Apply_def)

subsection \<open>Namespaces\<close>

definition DefaultNamespace :: string where
  "DefaultNamespace = ''default''"

definition ReconcileNamespaces :: "delegate \<Rightarrow> ClusterState \<Rightarrow> trace \<Rightarrow> trace" where
  "ReconcileNamespaces r state w =
     (case FindNamespace state DefaultNamespace of
        Some _ \<Rightarrow> w
      | None \<Rightarrow> snd (Apply r (CreateNamespace DefaultNamespace) w))"

subsection \<open>Nodes\<close>

definition reconcile_member :: "delegate \<Rightarrow> ClusterState \<Rightarrow> string \<times> string \<Rightarrow> u64 list \<times> trace \<Rightarrow> (u64 list \<times> trace) outcome" where
  "reconcile_member r state member aw =
     (case (member, aw) of ((name, address), (alive, w)) \<Rightarrow>
        and_then (MustIDFromString name) (\<lambda>i.
          let alive = i # alive; node = find (\<lambda>n. node_ID n = i) (Nodes state)
          in if (case node of None \<Rightarrow> True | Some n \<Rightarrow> Address n \<noteq> address \<or> node_State n \<noteq> ALIVE)
             then (case Apply r (UpdateNode \<lparr>nu_ID = i, nu_Address = address, nu_State = ALIVE,
                                    nu_LastSeenAlive = None\<rparr>) w of
                     (Inl _, w') \<Rightarrow> Ret (alive, w')
                   | (Inr _, w') \<Rightarrow> Ret (alive, w' @ [VoterAdded name address]))
             else Ret (alive, w)))"

fun reconcile_dead_nodes :: "delegate \<Rightarrow> u64 list \<Rightarrow> ClusterNode list \<Rightarrow> trace \<Rightarrow> trace" where
  "reconcile_dead_nodes r alive [] w = w"
| "reconcile_dead_nodes r alive (node # nodes) w =
     (if node_ID node \<in> set alive \<or> node_State node = DEAD then reconcile_dead_nodes r alive nodes w
      else let now = delegate_Now r w; w = w @ [TimeAsked]
           in case Apply r (UpdateNode \<lparr>nu_ID = node_ID node, nu_Address = Address node, nu_State = DEAD,
                               nu_LastSeenAlive = Some now\<rparr>) w of
                (Inl _, w') \<Rightarrow> w'
              | (Inr _, w') \<Rightarrow> reconcile_dead_nodes r alive nodes w')"

definition ReconcileNodes :: "delegate \<Rightarrow> ClusterState \<Rightarrow> trace \<Rightarrow> trace outcome" where
  "ReconcileNodes r state w =
     and_then (fold_outcome (reconcile_member r state) (delegate_Members r) ([], w))
       (\<lambda>(alive, w). Ret (reconcile_dead_nodes r alive (Nodes state) w))"

subsection \<open>Segments: shared loops\<close>

definition defaultReplicationFactor :: u32 where
  "defaultReplicationFactor = 3"

type_synonym node_map = "u64 \<rightharpoonup> ClusterNode"

definition nodeMap :: "ClusterState \<Rightarrow> node_map" where
  "nodeMap state = fold (\<lambda>node m. m(node_ID node \<mapsto> node)) (Nodes state) Map.empty"

definition aliveNodeIDs :: "ClusterState \<Rightarrow> u64 list" where
  "aliveNodeIDs state = map node_ID (filter (\<lambda>node. node_State node = ALIVE) (Nodes state))"

definition nil_dereference :: string where
  "nil_dereference = ''invalid memory address or nil pointer dereference''"

text \<open>\<open>nodeMap[nodeID].State == ALIVE\<close> dereferences nil for an unknown node.\<close>

definition is_alive :: "node_map \<Rightarrow> u64 \<Rightarrow> bool outcome" where
  "is_alive nm i = (case nm i of None \<Rightarrow> Panic nil_dereference | Some node \<Rightarrow> Ret (node_State node = ALIVE))"

fun filter_outcome :: "('a \<Rightarrow> bool outcome) \<Rightarrow> 'a list \<Rightarrow> 'a list outcome" where
  "filter_outcome P [] = Ret []"
| "filter_outcome P (x # xs) =
     and_then (P x) (\<lambda>b. and_then (filter_outcome P xs) (\<lambda>ys. Ret (if b then x # ys else ys)))"

text \<open>
  Keep replicas while \<open>uint32(base+len(kept)) < replicationFactor\<close>; the others lose a segment.
\<close>

definition drop_count :: "u64 \<Rightarrow> counts \<Rightarrow> counts" where
  "drop_count i m = m(i := m i - 1)"

fun trim_replicas :: "node_map \<Rightarrow> u32 \<Rightarrow> nat \<Rightarrow> u64 list \<Rightarrow> u64 list \<Rightarrow> counts \<Rightarrow> (u64 list \<times> counts) outcome" where
  "trim_replicas nm rf base [] kept cnt = Ret (kept, cnt)"
| "trim_replicas nm rf base (i # is) kept cnt =
     and_then (is_alive nm i) (\<lambda>alive.
       if alive \<and> of_nat (base + length kept) < rf
       then trim_replicas nm rf base is (kept @ [i]) cnt
       else trim_replicas nm rf base is kept (drop_count i cnt))"

text \<open>The index of the first candidate with the least segment count.\<close>

fun least_candidate :: "counts \<Rightarrow> u64 list \<Rightarrow> nat \<Rightarrow> nat option \<Rightarrow> u64 list \<Rightarrow> nat option" where
  "least_candidate cnt all i best [] = best"
| "least_candidate cnt all i best (c # cs) =
     least_candidate cnt all (Suc i)
       (case best of None \<Rightarrow> Some i | Some b \<Rightarrow> if cnt c < cnt (all ! b) then Some i else Some b) cs"

text \<open>
  The loop that adds candidates while there are any and
  \<open>uint32(base+len(replicating)) < limit\<close>; \<open>added\<close> is true iff it ran.
\<close>

lemma least_candidate_bound:
  "least_candidate cnt all i best cs = Some k \<Longrightarrow> k < i + length cs \<or> best = Some k"
  by (induction cnt all i best cs rule: least_candidate.induct) (fastforce split: option.splits if_splits)+

function add_replicas :: "nat \<Rightarrow> u32 \<Rightarrow> u64 list \<Rightarrow> u64 list \<Rightarrow> counts \<Rightarrow> u64 list \<times> counts" where
  "add_replicas base limit candidates replicating cnt =
     (if candidates \<noteq> [] \<and> of_nat (base + length replicating) < limit
      then (case least_candidate cnt candidates 0 None candidates of
              None \<Rightarrow> (replicating, cnt)
            | Some k \<Rightarrow> add_replicas base limit (remove_at k candidates)
                (replicating @ [candidates ! k]) (bump (candidates ! k) cnt))
      else (replicating, cnt))"
  by auto
termination
  by (relation "measure (\<lambda>(base, limit, candidates, replicating, cnt). length candidates)")
    (auto dest!: least_candidate_bound)

declare add_replicas.simps [simp del]

definition other_candidates :: "u64 list \<Rightarrow> u64 list \<Rightarrow> u64 list" where
  "other_candidates used allCandidateNodeIDs = filter (\<lambda>i. i \<notin> set used) allCandidateNodeIDs"

subsection \<open>Open segments\<close>

text \<open>
  The decision for an open segment whose primary is alive: the new nodes, if a command is to be
  applied, and the updated counts.
\<close>

definition alive_primary_update :: "ClusterSegment \<Rightarrow> u32 \<Rightarrow> node_map \<Rightarrow> u64 list \<Rightarrow> counts \<Rightarrow> (SegmentNodes option \<times> counts) outcome" where
  "alive_primary_update segment replicationFactor nm allCandidateNodeIDs cnt =
     (if replicationFactor < 1 then Panic ''replication factor is zero''
      else
        let primary = PrimaryNodeID (seg_Nodes segment);
            replicating = ReplicatingNodeIDs (seg_Nodes segment);
            nodes = \<lparr>PrimaryNodeID = primary, DoneNodeIDs = [], ReplicatingNodeIDs = []\<rparr>
        in and_then (filter_outcome (is_alive nm) replicating) (\<lambda>alive.
          let aliveReplicas = 1 + of_nat (length alive)
          in if aliveReplicas > replicationFactor
             then (if replicationFactor - 1 > 0
                   then and_then (trim_replicas nm replicationFactor 1 replicating [] cnt)
                          (\<lambda>(kept, cnt). Ret (Some (nodes\<lparr>ReplicatingNodeIDs := kept\<rparr>), cnt))
                   else Ret (Some nodes, cnt))
             else if aliveReplicas < replicationFactor
             then (case add_replicas 0 (replicationFactor - 1)
                          (other_candidates (primary # alive) allCandidateNodeIDs) alive cnt of
                     (added, cnt) \<Rightarrow>
                       if length added > length alive then Ret (Some (nodes\<lparr>ReplicatingNodeIDs := added\<rparr>), cnt)
                       else Ret (None, cnt))
             else Ret (None, cnt)))"

definition reconcileOpenSegmentWithAlivePrimary :: "delegate \<Rightarrow> ClusterSegment \<Rightarrow> u32 \<Rightarrow> node_map \<Rightarrow> u64 list \<Rightarrow> counts \<times> trace \<Rightarrow> (counts \<times> trace) outcome" where
  "reconcileOpenSegmentWithAlivePrimary r segment replicationFactor nm allCandidateNodeIDs cw =
     (case cw of (cnt, w) \<Rightarrow>
        and_then (alive_primary_update segment replicationFactor nm allCandidateNodeIDs cnt)
          (\<lambda>(update, cnt). case update of
             None \<Rightarrow> Ret (cnt, w)
           | Some nodes \<Rightarrow> Ret (cnt, snd (Apply r (UpdateSegmentNodes (seg_ID segment) OPEN nodes) w))))"

text \<open>
  The loop over the replicas of a segment with a dead primary: \<open>None\<close> when a size could not be
  read, otherwise the best node so far (0 for none) and its size.
\<close>

fun largest_replica :: "delegate \<Rightarrow> u64 \<Rightarrow> node_map \<Rightarrow> u64 list \<Rightarrow> u64 \<times> int \<Rightarrow> trace \<Rightarrow> ((u64 \<times> int) option \<times> trace) outcome" where
  "largest_replica r segmentID nm [] best w = Ret (Some best, w)"
| "largest_replica r segmentID nm (i # is) best w =
     (case nm i of
        None \<Rightarrow> Panic nil_dereference
      | Some replica \<Rightarrow>
          if node_State replica \<noteq> ALIVE then largest_replica r segmentID nm is best w
          else (case delegate_GetSegmentSizeFromNode r w segmentID i (Address replica) of
                  Inl _ \<Rightarrow> Ret (None, w @ [SizeAsked segmentID i (Address replica)])
                | Inr replicaSegmentSize \<Rightarrow> largest_replica r segmentID nm is
                    (if replicaSegmentSize > snd best then (i, replicaSegmentSize) else best)
                    (w @ [SizeAsked segmentID i (Address replica)])))"

definition reconcileOpenSegmentWithDeadPrimary :: "delegate \<Rightarrow> ClusterSegment \<Rightarrow> node_map \<Rightarrow> trace \<Rightarrow> trace outcome" where
  "reconcileOpenSegmentWithDeadPrimary r segment nm w =
     (let replicating = ReplicatingNodeIDs (seg_Nodes segment)
      in if replicating = [] then Ret w
         else and_then (largest_replica r (seg_ID segment) nm replicating (0, - 1) w) (\<lambda>(best, w).
           case best of
             None \<Rightarrow> Ret w
           | Some (newPrimaryNodeID, _) \<Rightarrow>
               if newPrimaryNodeID = 0 then Ret w
               else and_then (filter_outcome (\<lambda>i. if i \<noteq> newPrimaryNodeID then is_alive nm i else Ret False) replicating)
                 (\<lambda>rest. Ret (snd (Apply r (UpdateSegmentNodes (seg_ID segment) OPEN
                     \<lparr>PrimaryNodeID = newPrimaryNodeID, DoneNodeIDs = [], ReplicatingNodeIDs = rest\<rparr>) w)))))"

definition reconcileOpenSegment :: "delegate \<Rightarrow> ClusterState \<Rightarrow> node_map \<Rightarrow> u64 list \<Rightarrow> ClusterSegment \<Rightarrow> counts \<times> trace \<Rightarrow> (counts \<times> trace) outcome" where
  "reconcileOpenSegment r state nm allCandidateNodeIDs segment cw =
     (let delete = Ret (fst cw, snd (Apply r (DeleteSegment (seg_ID segment) OPEN) (snd cw)));
          reconcile = (\<lambda>replicationFactor.
            case nm (PrimaryNodeID (seg_Nodes segment)) of
              None \<Rightarrow> Panic nil_dereference
            | Some primaryNode \<Rightarrow>
                (case node_State primaryNode of
                   ALIVE \<Rightarrow> reconcileOpenSegmentWithAlivePrimary r segment replicationFactor nm allCandidateNodeIDs cw
                 | DEAD \<Rightarrow> and_then (reconcileOpenSegmentWithDeadPrimary r segment nm (snd cw)) (\<lambda>w. Ret (fst cw, w))))
      in case seg_Type segment of
           TOPIC \<Rightarrow> (case GetTopic state (OwnerNamespace segment) (OwnerName segment) of
                       None \<Rightarrow> delete
                     | Some topic \<Rightarrow> reconcile (ReplicationFactor topic))
         | CONSUMER_GROUP_OFFSET_COMMITS \<Rightarrow>
             (case GetConsumerGroup state (OwnerNamespace segment) (OwnerName segment) of
                None \<Rightarrow> delete
              | Some _ \<Rightarrow> reconcile defaultReplicationFactor)
         | INVALID \<Rightarrow> reconcile defaultReplicationFactor)"

subsection \<open>Closed segments\<close>

text \<open>The done nodes kept of an over-replicated closed segment: alive ones, at most the replication factor.\<close>

fun keep_done :: "node_map \<Rightarrow> u32 \<Rightarrow> u64 list \<Rightarrow> u64 list \<Rightarrow> u64 list outcome" where
  "keep_done nm rf [] kept = Ret kept"
| "keep_done nm rf (i # is) kept =
     and_then (is_alive nm i) (\<lambda>alive.
       if alive then (if of_nat (length (kept @ [i])) \<ge> rf then Ret (kept @ [i]) else keep_done nm rf is (kept @ [i]))
       else keep_done nm rf is kept)"

definition closed_update :: "ClusterSegment \<Rightarrow> u32 \<Rightarrow> node_map \<Rightarrow> u64 list \<Rightarrow> counts \<Rightarrow> (SegmentNodes option \<times> counts) outcome" where
  "closed_update segment replicationFactor nm allCandidateNodeIDs cnt =
     (let done = DoneNodeIDs (seg_Nodes segment); replicating = ReplicatingNodeIDs (seg_Nodes segment)
      in and_then (filter_outcome (is_alive nm) done) (\<lambda>aliveDone.
         and_then (filter_outcome (is_alive nm) replicating) (\<lambda>aliveReplicating.
           if replicationFactor < 1 then Panic ''replication factor is zero''
           else
             let aliveReplicas = of_nat (length aliveDone) + of_nat (length aliveReplicating) :: u32
             in if aliveReplicas > replicationFactor
                then (if (of_nat (length aliveDone) :: u32) = 0 then Ret (None, cnt)
                      else and_then (keep_done nm replicationFactor done []) (\<lambda>keptDone.
                        if of_nat (length keptDone) < replicationFactor
                        then and_then (trim_replicas nm replicationFactor (length keptDone) replicating [] cnt)
                               (\<lambda>(kept, cnt). Ret (Some \<lparr>PrimaryNodeID = 0, DoneNodeIDs = keptDone,
                                  ReplicatingNodeIDs = kept\<rparr>, cnt))
                        else Ret (Some \<lparr>PrimaryNodeID = 0, DoneNodeIDs = keptDone, ReplicatingNodeIDs = []\<rparr>, cnt)))
                else if aliveReplicas < replicationFactor
                then (if (of_nat (length aliveDone) :: u32) = 0 then Ret (None, cnt)
                      else (case add_replicas (length aliveDone) replicationFactor
                                   (other_candidates (aliveDone @ aliveReplicating) allCandidateNodeIDs)
                                   aliveReplicating cnt of
                              (added, cnt) \<Rightarrow>
                                if length added > length aliveReplicating
                                then Ret (Some \<lparr>PrimaryNodeID = 0, DoneNodeIDs = aliveDone,
                                       ReplicatingNodeIDs = added\<rparr>, cnt)
                                else Ret (None, cnt)))
                else Ret (None, cnt))))"

definition needed_by_group :: "ClusterState \<Rightarrow> ClusterSegment \<Rightarrow> bool" where
  "needed_by_group state segment =
     list_ex (\<lambda>namespace. list_ex (\<lambda>cg. list_ex (\<lambda>commit.
       oc_SegmentID commit = seg_ID segment \<and> oc_Offset commit < seg_Size segment)
       (OffsetCommits cg)) (ConsumerGroups namespace)) (Namespaces state)"

definition reconcileClosedSegment :: "delegate \<Rightarrow> ClusterState \<Rightarrow> node_map \<Rightarrow> u64 list \<Rightarrow> ClusterSegment \<Rightarrow> counts \<times> trace \<Rightarrow> (counts \<times> trace) outcome" where
  "reconcileClosedSegment r state nm allCandidateNodeIDs segment cw =
     (let delete = (\<lambda>w. Ret (fst cw, snd (Apply r (DeleteSegment (seg_ID segment) CLOSED) w)));
          reconcile = (\<lambda>replicationFactor w.
            and_then (closed_update segment replicationFactor nm allCandidateNodeIDs (fst cw)) (\<lambda>(update, cnt).
              case update of
                None \<Rightarrow> Ret (cnt, w)
              | Some nodes \<Rightarrow> Ret (cnt, snd (Apply r (UpdateSegmentNodes (seg_ID segment) CLOSED nodes) w))))
      in case seg_Type segment of
           TOPIC \<Rightarrow>
             (case GetTopic state (OwnerNamespace segment) (OwnerName segment) of
                None \<Rightarrow> delete (snd cw)
              | Some topic \<Rightarrow>
                  if Retention topic > 0
                  then let retainTill = delegate_Now r (snd cw) - Retention topic; w = snd cw @ [TimeAsked]
                       in if ClosedAt segment < retainTill \<and> \<not> needed_by_group state segment
                          then delete w else reconcile (ReplicationFactor topic) w
                  else reconcile (ReplicationFactor topic) (snd cw))
         | CONSUMER_GROUP_OFFSET_COMMITS \<Rightarrow> delete (snd cw)
         | INVALID \<Rightarrow> reconcile defaultReplicationFactor (snd cw))"

definition ReconcileSegments :: "delegate \<Rightarrow> ClusterState \<Rightarrow> trace \<Rightarrow> (counts \<times> trace) outcome" where
  "ReconcileSegments r state w =
     and_then (fold_outcome (reconcileOpenSegment r state (nodeMap state) (aliveNodeIDs state))
                 (OpenSegments state) (CountSegmentsPerNode state, w))
       (fold_outcome (reconcileClosedSegment r state (nodeMap state) (aliveNodeIDs state)) (ClosedSegments state))"

subsection \<open>Consumer groups\<close>

text \<open>The alive node with the least segment count below \<open>math.MaxInt32\<close>, or 0.\<close>

fun select_primary :: "counts \<Rightarrow> ClusterNode list \<Rightarrow> u64 \<times> int \<Rightarrow> u64" where
  "select_primary cnt [] best = fst best"
| "select_primary cnt (node # nodes) best =
     select_primary cnt nodes
       (if node_State node = ALIVE \<and> cnt (node_ID node) < snd best then (node_ID node, cnt (node_ID node)) else best)"

definition reconcileConsumerGroupOffsetCommitsSegment :: "delegate \<Rightarrow> ClusterState \<Rightarrow> ClusterNamespace \<Rightarrow> ClusterConsumerGroup \<Rightarrow> counts \<times> trace \<Rightarrow> (counts \<times> trace) outcome" where
  "reconcileConsumerGroupOffsetCommitsSegment r state namespace consumerGroup cw =
     (case cw of (cnt, w) \<Rightarrow>
        let openSegments = FindOpenSegmentsFor state CONSUMER_GROUP_OFFSET_COMMITS (ns_Name namespace) (group_Name consumerGroup)
        in if length openSegments = 1 then Ret (cnt, w)
           else if length openSegments > 1 then Panic ''there must be at most one open segment per consumer group''
           else let primaryNodeID = select_primary cnt (Nodes state) (0, 2147483647)
                in if primaryNodeID = 0 then Ret (cnt, w)
                   else let i = delegate_NextSegmentID r w; w = w @ [IDTaken];
                            now = delegate_Now r w; w = w @ [TimeAsked]
                        in (case Apply r (CreateSegment \<lparr>sc_ID = i, sc_Type = CONSUMER_GROUP_OFFSET_COMMITS,
                                 sc_OwnerNamespace = ns_Name namespace, sc_OwnerName = group_Name consumerGroup,
                                 sc_Generation = 0, sc_Shard = 0, sc_OpenedAt = now,
                                 sc_PrimaryNodeID = primaryNodeID, sc_ReplicatingNodeIDs = []\<rparr>) w of
                              (Inl _, w') \<Rightarrow> Ret (cnt, w')
                            | (Inr _, w') \<Rightarrow> Ret (bump primaryNodeID cnt, w')))"

definition wanted_segment :: "ClusterNamespace \<Rightarrow> ClusterConsumerGroup \<Rightarrow> ClusterSegment \<Rightarrow> bool" where
  "wanted_segment namespace consumerGroup segment \<longleftrightarrow>
     seg_Type segment = TOPIC \<and> OwnerNamespace segment = ns_Name namespace \<and>
     OwnerName segment \<in> bind_TopicName ` set (Bindings consumerGroup)"

definition wanted_segments :: "ClusterState \<Rightarrow> ClusterNamespace \<Rightarrow> ClusterConsumerGroup \<Rightarrow> ClusterSegment list" where
  "wanted_segments state namespace consumerGroup =
     filter (wanted_segment namespace consumerGroup) (OpenSegments state @ ClosedSegments state)"

definition offset_commits_update :: "ClusterState \<Rightarrow> ClusterNamespace \<Rightarrow> ClusterConsumerGroup \<Rightarrow> OffsetCommit list option" where
  "offset_commits_update state namespace consumerGroup =
     (let m = remdups (map oc_SegmentID (OffsetCommits consumerGroup));
          wanted = wanted_segments state namespace consumerGroup;
          n = remdups (map seg_ID wanted);
          newOffsetCommits = map (\<lambda>g. \<lparr>oc_SegmentID = seg_ID g, oc_Offset = 0\<rparr>) (filter (\<lambda>g. seg_ID g \<notin> set m) wanted)
      in if newOffsetCommits = [] \<and> length m = length n then None
         else Some (filter (\<lambda>c. oc_SegmentID c \<in> set n) (OffsetCommits consumerGroup) @ newOffsetCommits))"

definition reconcileConsumerGroupOffsetCommits :: "delegate \<Rightarrow> ClusterState \<Rightarrow> ClusterNamespace \<Rightarrow> ClusterConsumerGroup \<Rightarrow> trace \<Rightarrow> u64 \<times> trace" where
  "reconcileConsumerGroupOffsetCommits r state namespace consumerGroup w =
     (case offset_commits_update state namespace consumerGroup of
        None \<Rightarrow> (0, w)
      | Some commits \<Rightarrow>
          (case Apply r (UpdateConsumerGroupOffsetCommits (ns_Name namespace) (group_Name consumerGroup) commits) w of
             (Inl _, w') \<Rightarrow> (0, w')
           | (Inr index, w') \<Rightarrow> (index, w')))"

definition ReconcileConsumerGroup :: "delegate \<Rightarrow> ClusterState \<Rightarrow> ClusterNamespace \<Rightarrow> ClusterConsumerGroup \<Rightarrow> trace \<Rightarrow> (u64 \<times> trace) outcome" where
  "ReconcileConsumerGroup r state namespace consumerGroup w =
     and_then (reconcileConsumerGroupOffsetCommitsSegment r state namespace consumerGroup (CountSegmentsPerNode state, w))
       (\<lambda>(cnt, w). Ret (reconcileConsumerGroupOffsetCommits r state namespace consumerGroup w))"

definition ReconcileConsumerGroups :: "delegate \<Rightarrow> ClusterState \<Rightarrow> trace \<Rightarrow> (counts \<times> trace) outcome" where
  "ReconcileConsumerGroups r state w =
     fold_outcome (\<lambda>namespace. fold_outcome (\<lambda>consumerGroup cw.
         and_then (reconcileConsumerGroupOffsetCommitsSegment r state namespace consumerGroup cw)
           (\<lambda>(cnt, w). Ret (cnt, snd (reconcileConsumerGroupOffsetCommits r state namespace consumerGroup w))))
         (ConsumerGroups namespace))
       (Namespaces state) (CountSegmentsPerNode state, w)"

end
