(* ===== verification/Reconciler_Correct.thy ===== *)
theory Reconciler_Correct
  imports Reconciler
begin

text \<open>
  What the reconciler achieves: closed forms of its loops, and from them the replication level
  after a step, the promotion of the largest replica, the conditions under which data is
  deleted, and the set of offset commits of a consumer group.
\<close>

subsection \<open>Alive nodes\<close>

definition alive :: "node_map \<Rightarrow> u64 \<Rightarrow> bool" where
  "alive nm i = (case nm i of None \<Rightarrow> False | Some node \<Rightarrow> node_State node = ALIVE)"

definition known :: "node_map \<Rightarrow> u64 list \<Rightarrow> bool" where
  "known nm ids = list_all (\<lambda>i. nm i \<noteq> None) ids"

lemma known_simps [simp]: "known nm []" "known nm (i # ids) \<longleftrightarrow> nm i \<noteq> None \<and> known nm ids"
  by (simp_all add: known_def)

lemma is_alive_known [simp]: "nm i \<noteq> None \<Longrightarrow> is_alive nm i = Ret (alive nm i)"
  by (auto simp: is_alive_def alive_def)

lemma filter_alive: "known nm ids \<Longrightarrow> filter_outcome (is_alive nm) ids = Ret (filter (alive nm) ids)"
  by (induction ids) auto

lemma fold_node_map:
  "distinct (map node_ID ns) \<Longrightarrow> fold (\<lambda>node m. m(node_ID node \<mapsto> node)) ns m i =
     (case klookup node_ID ns i of None \<Rightarrow> m i | Some n \<Rightarrow> Some n)"
  by (induction ns arbitrary: m) (auto simp flip: klookup_None_iff split: option.splits)

lemma nodeMap_eq: "distinct (map node_ID (Nodes s)) \<Longrightarrow> nodeMap s = klookup node_ID (Nodes s)"
  by (rule ext) (simp add: nodeMap_def fold_node_map split: option.split)

lemma aliveNodeIDs_iff:
  assumes "wf_state s" shows "i \<in> set (aliveNodeIDs s) \<longleftrightarrow> alive (nodeMap s) i"
proof -
  have d: "distinct (map node_ID (Nodes s))" using wf_idsD(2) [OF wf_stateD(7) [OF assms]] .
  have "alive (nodeMap s) i \<longleftrightarrow> (\<exists>n. klookup node_ID (Nodes s) i = Some n \<and> node_State n = ALIVE)"
    unfolding nodeMap_eq [OF d] alive_def by (auto split: option.split)
  then show ?thesis unfolding klookup_Some_iff [OF d] by (auto simp: aliveNodeIDs_def)
qed

lemma distinct_aliveNodeIDs: "wf_state s \<Longrightarrow> distinct (aliveNodeIDs s)"
  using wf_idsD(2) [OF wf_stateD(7)] by (simp add: aliveNodeIDs_def distinct_map_filter)

subsection \<open>Closed forms of the loops\<close>

lemma unat_of_nat_u32: "n < 2 ^ 32 \<Longrightarrow> unat (of_nat n :: u32) = n"
  by (simp add: unsigned_of_nat take_bit_nat_eq_self)

lemma of_nat_less_u32: "n < 2 ^ 32 \<Longrightarrow> (of_nat n :: u32) < m \<longleftrightarrow> n < unat m"
  by (simp add: word_less_nat_alt unat_of_nat_u32)

lemma take_diff_Cons: "a < b \<Longrightarrow> take (b - a) (x # xs) = x # take (b - Suc a) xs"
  by (metis Suc_diff_Suc take_Suc_Cons)

lemma trim_replicas_eq:
  assumes "known nm ids" and "base + length kept + length ids < 2 ^ 32"
  shows "\<exists>cnt'. trim_replicas nm rf base ids kept cnt =
    Ret (kept @ take (unat rf - (base + length kept)) (filter (alive nm) ids), cnt')"
  using assms
proof (induction ids arbitrary: kept cnt)
  case (Cons i ids)
  have "(of_nat (base + length kept) :: u32) < rf \<longleftrightarrow> base + length kept < unat rf"
    using Cons.prems by (intro of_nat_less_u32) simp
  moreover have "take (unat rf - (base + length kept)) (i # xs) = i # take (unat rf - (base + length (kept @ [i]))) xs"
    if "base + length kept < unat rf" for xs
    using take_diff_Cons [OF that] by simp
  ultimately show ?case
    using Cons.IH [of "kept @ [i]" cnt] Cons.IH [of kept "drop_count i cnt"] Cons.prems
    by (auto simp del: of_nat_add)
qed simp

lemma keep_done_eq:
  assumes "known nm ids" and "length kept + length ids < 2 ^ 32" and "length kept < unat rf"
  shows "keep_done nm rf ids kept = Ret (kept @ take (unat rf - length kept) (filter (alive nm) ids))"
  using assms
proof (induction ids arbitrary: kept)
  case (Cons i ids)
  have "rf \<le> (of_nat (length (kept @ [i])) :: u32) \<longleftrightarrow> \<not> length (kept @ [i]) < unat rf"
    using of_nat_less_u32 [of "length (kept @ [i])" rf] Cons.prems by (simp add: not_less [symmetric])
  moreover have "take (unat rf - length kept) (i # xs) = i # take (unat rf - length (kept @ [i])) xs" for xs
    using take_diff_Cons [OF Cons.prems(3)] by simp
  ultimately show ?case
    using Cons.IH [of "kept @ [i]"] Cons.IH [of kept] Cons.prems by (auto simp: not_less)
qed simp

lemma least_candidate_correct:
  assumes "all = pre @ cs" and "i = length pre"
    and "best = None \<longleftrightarrow> pre = []"
    and "\<And>b. best = Some b \<Longrightarrow> b < length pre \<and> (\<forall>j < length pre. cnt (all ! b) \<le> cnt (all ! j))"
    and "all \<noteq> []"
  shows "\<exists>k. least_candidate cnt all i best cs = Some k \<and> k < length all \<and> (\<forall>j < length all. cnt (all ! k) \<le> cnt (all ! j))"
  using assms
proof (induction cs arbitrary: pre i best)
  case Nil
  then show ?case by (cases best) auto
next
  case (Cons c cs)
  let ?best = "case best of None \<Rightarrow> Some i | Some b \<Rightarrow> if cnt c < cnt (all ! b) then Some i else Some b"
  have c: "all ! i = c" and i: "i = length pre" using Cons.prems by simp_all
  show ?case unfolding least_candidate.simps
  proof (rule Cons.IH [of "pre @ [c]"])
    show "b < length (pre @ [c]) \<and> (\<forall>j < length (pre @ [c]). cnt (all ! b) \<le> cnt (all ! j))"
      if "?best = Some b" for b
    proof (cases best)
      case None
      then show ?thesis using that Cons.prems(3) i c by simp
    next
      case (Some a)
      then have a: "a < length pre" "\<forall>j < length pre. cnt (all ! a) \<le> cnt (all ! j)" using Cons.prems(4) by auto
      show ?thesis
      proof (cases "cnt c < cnt (all ! a)")
        case True
        then have "b = i" using that Some by simp
        then show ?thesis using a True c i by (auto simp: less_Suc_eq intro: order.trans less_imp_le)
      next
        case False
        then have "b = a" using that Some by simp
        then show ?thesis using a False c i by (auto simp: less_Suc_eq)
      qed
    qed
  qed (use Cons.prems in \<open>auto split: option.split\<close>)
qed

lemma least_candidate_min:
  assumes "cs \<noteq> []"
  obtains k where "least_candidate cnt cs 0 None cs = Some k" "k < length cs" "\<forall>c \<in> set cs. cnt (cs ! k) \<le> cnt c"
  using least_candidate_correct [of cs "[]" cs 0 None cnt] assms that by (auto simp: all_set_conv_all_nth)

lemma set_remove_at: "distinct xs \<Longrightarrow> k < length xs \<Longrightarrow> set (remove_at k xs) = set xs - {xs ! k}"
  using remove_at_conv_filter [of id xs k] by auto

text \<open>
  The candidates that are added: as many as there are and as are missing, each one at most once,
  and none with a higher segment count than a candidate that is passed over.
\<close>

definition good_choice :: "nat \<Rightarrow> counts \<Rightarrow> u64 list \<Rightarrow> u64 list \<Rightarrow> bool" where
  "good_choice n cnt cands added \<longleftrightarrow> distinct added \<and> set added \<subseteq> set cands \<and>
     length added = min (length cands) n \<and> (\<forall>a \<in> set added. \<forall>c \<in> set cands - set added. cnt a \<le> cnt c)"

lemma good_choice_step:
  assumes d: "distinct cands" and k: "k < length cands" "\<forall>c \<in> set cands. cnt (cands ! k) \<le> cnt c"
    and n: "0 < n" and g: "good_choice (n - 1) (bump (cands ! k) cnt) (remove_at k cands) added"
  shows "good_choice n cnt cands (cands ! k # added)"
proof -
  note s = set_remove_at [OF d k(1)]
  have "cnt a \<le> cnt c" if "a \<in> set added" "c \<in> set cands - set added - {cands ! k}" for a c
  proof -
    have "bump (cands ! k) cnt a \<le> bump (cands ! k) cnt c" "a \<noteq> cands ! k" using that g s by (auto simp: good_choice_def)
    then show ?thesis using that by (simp add: bump_def)
  qed
  moreover have "length (cands ! k # added) = min (length cands) n" using g k(1) n by (auto simp: good_choice_def)
  ultimately show ?thesis using g k s by (auto simp: good_choice_def)
qed

lemma add_replicas_good:
  assumes "distinct cands" and "base + length repl + length cands < 2 ^ 32"
  shows "\<exists>added cnt'. add_replicas base limit cands repl cnt = (repl @ added, cnt')
    \<and> good_choice (unat limit - (base + length repl)) cnt cands added"
  using assms
proof (induction base limit cands repl cnt rule: add_replicas.induct)
  case (1 base limit cands repl cnt)
  have lt: "(of_nat (base + length repl) :: u32) < limit \<longleftrightarrow> base + length repl < unat limit"
    using 1(3) by (intro of_nat_less_u32) simp
  show ?case
  proof (cases "cands \<noteq> [] \<and> base + length repl < unat limit")
    case True
    then obtain k where k: "least_candidate cnt cands 0 None cands = Some k" "k < length cands"
        "\<forall>c \<in> set cands. cnt (cands ! k) \<le> cnt c" using least_candidate_min by blast
    have run: "add_replicas base limit cands repl cnt =
        add_replicas base limit (remove_at k cands) (repl @ [cands ! k]) (bump (cands ! k) cnt)"
      using True lt k(1) by (subst add_replicas.simps) simp
    obtain added cnt' where
        "add_replicas base limit (remove_at k cands) (repl @ [cands ! k]) (bump (cands ! k) cnt)
          = ((repl @ [cands ! k]) @ added, cnt')"
        "good_choice (unat limit - (base + length repl) - 1) (bump (cands ! k) cnt) (remove_at k cands) added"
      using 1(1) [OF _ k(1)] True lt 1(2,3) k(2) distinct_remove_at [of id cands k] by auto
    then show ?thesis using good_choice_step [OF 1(2) k(2,3)] True run by (intro exI [of _ "cands ! k # added"]) auto
  next
    case False
    then show ?thesis using lt by (subst add_replicas.simps) (auto simp: good_choice_def)
  qed
qed

subsection \<open>Replication of open segments\<close>

text \<open>A segment whose nodes are known and are each named once.\<close>

definition tidy :: "node_map \<Rightarrow> u64 list \<Rightarrow> bool" where
  "tidy nm ids \<longleftrightarrow> known nm ids \<and> distinct ids \<and> length ids < 2 ^ 31"

lemma length_filter_le_alive:
  assumes "distinct ids" and "distinct cands" and "\<And>i. i \<in> set cands \<longleftrightarrow> alive nm i"
  shows "length (filter (alive nm) ids) \<le> length cands"
    and "length (filter (\<lambda>i. i \<notin> set (filter (alive nm) ids)) cands) = length cands - length (filter (alive nm) ids)"
proof -
  have c: "length xs = card (set xs)" if "distinct xs" for xs :: "u64 list"
    using distinct_card [OF that] by simp
  have sub: "set (filter (alive nm) ids) \<subseteq> set cands" using assms(3) by auto
  then show "length (filter (alive nm) ids) \<le> length cands"
    using assms(1,2) by (simp add: c card_mono del: set_filter)
  have "set (filter (\<lambda>i. i \<notin> set (filter (alive nm) ids)) cands) = set cands - set (filter (alive nm) ids)" by auto
  then show "length (filter (\<lambda>i. i \<notin> set (filter (alive nm) ids)) cands) = length cands - length (filter (alive nm) ids)"
    using assms(1,2) sub by (simp add: c card_Diff_subset del: set_filter)
qed

definition new_nodes :: "SegmentNodes option \<Rightarrow> ClusterSegment \<Rightarrow> SegmentNodes" where
  "new_nodes upd g = (case upd of None \<Rightarrow> seg_Nodes g | Some n \<Rightarrow> n)"

text \<open>Adding candidates to the alive holders reaches the replication factor or uses every alive node.\<close>

lemma added_holders:
  assumes "distinct hs" "\<forall>i \<in> set hs. alive nm i" and c: "distinct cands" "\<And>i. i \<in> set cands \<longleftrightarrow> alive nm i"
    and g: "good_choice (n - length hs) cnt (other_candidates hs cands) added"
  shows "distinct (hs @ added) \<and> (\<forall>i \<in> set (hs @ added). alive nm i)
    \<and> length (hs @ added) = (if length hs \<le> n then min n (length cands) else length hs)"
proof -
  have f: "filter (alive nm) hs = hs" using assms(2) by (simp add: filter_id_conv)
  have "length (other_candidates hs cands) = length cands - length hs" "length hs \<le> length cands"
    using length_filter_le_alive [OF assms(1) c] by (simp_all add: f other_candidates_def)
  moreover have "set added \<subseteq> set cands - set hs" using g by (auto simp: good_choice_def other_candidates_def)
  ultimately show ?thesis using assms(1,2) c(2) g by (auto simp: good_choice_def)
qed

lemma unat_u32_minus_1: "rf \<noteq> 0 \<Longrightarrow> unat (rf - 1) = unat rf - 1" for rf :: u32
  using unat_sub [of 1 rf] by (simp add: word_le_nat_alt Suc_le_eq unat_gt_0)

lemma u32_count: "n < 2 ^ 31 \<Longrightarrow> unat (1 + of_nat n :: u32) = Suc n"
  using unat_of_nat_u32 [of "Suc n"] by simp

text \<open>The two branches of \<open>alive_primary_update\<close> that change the nodes.\<close>

lemma over_replicated_open:
  assumes t: "tidy nm (PrimaryNodeID (seg_Nodes g) # ReplicatingNodeIDs (seg_Nodes g))" and rf: "rf \<noteq> 0"
    and over: "unat rf < Suc (length (filter (alive nm) (ReplicatingNodeIDs (seg_Nodes g))))"
  shows "\<exists>cnt'. alive_primary_update g rf nm cands cnt =
    Ret (Some \<lparr>PrimaryNodeID = PrimaryNodeID (seg_Nodes g), DoneNodeIDs = [],
      ReplicatingNodeIDs = take (unat rf - 1) (filter (alive nm) (ReplicatingNodeIDs (seg_Nodes g)))\<rparr>, cnt')"
proof -
  let ?r = "ReplicatingNodeIDs (seg_Nodes g)"
  have k: "known nm ?r" "length ?r < 2 ^ 31" using t by (auto simp: tidy_def)
  have len: "length (filter (alive nm) ?r) < 2 ^ 31" using k(2) length_filter_le [of "alive nm" ?r] by linarith
  have gt: "rf < 1 + of_nat (length (filter (alive nm) ?r))" using over u32_count [OF len] by (simp add: word_less_nat_alt)
  obtain cnt' where tr: "trim_replicas nm rf 1 ?r [] cnt = Ret (take (unat rf - 1) (filter (alive nm) ?r), cnt')"
    using trim_replicas_eq [OF k(1), of 1 "[]" rf cnt] k(2) by auto
  show ?thesis
  proof (cases "rf - 1 > 0")
    case True
    then show ?thesis using gt rf tr by (simp add: alive_primary_update_def filter_alive [OF k(1)] Let_def)
  next
    case False
    then have "unat rf - 1 = 0" using unat_u32_minus_1 [OF rf] by (simp add: word_less_nat_alt)
    then show ?thesis using gt rf False by (simp add: alive_primary_update_def filter_alive [OF k(1)] Let_def)
  qed
qed

lemma under_replicated_open:
  assumes t: "tidy nm (PrimaryNodeID (seg_Nodes g) # ReplicatingNodeIDs (seg_Nodes g))" and rf: "rf \<noteq> 0"
    and under: "Suc (length (filter (alive nm) (ReplicatingNodeIDs (seg_Nodes g)))) < unat rf"
    and c: "distinct cands" "length cands < 2 ^ 31"
  defines "hs \<equiv> PrimaryNodeID (seg_Nodes g) # filter (alive nm) (ReplicatingNodeIDs (seg_Nodes g))"
  shows "\<exists>added cnt'. good_choice (unat rf - length hs) cnt (other_candidates hs cands) added \<and>
    alive_primary_update g rf nm cands cnt =
      Ret (if added = [] then None else Some \<lparr>PrimaryNodeID = PrimaryNodeID (seg_Nodes g), DoneNodeIDs = [],
        ReplicatingNodeIDs = filter (alive nm) (ReplicatingNodeIDs (seg_Nodes g)) @ added\<rparr>, cnt')"
proof -
  let ?r = "ReplicatingNodeIDs (seg_Nodes g)"
  have k: "known nm ?r" "length ?r < 2 ^ 31" using t by (auto simp: tidy_def)
  have len: "length (filter (alive nm) ?r) < 2 ^ 31" using k(2) length_filter_le [of "alive nm" ?r] by linarith
  have lt: "1 + of_nat (length (filter (alive nm) ?r)) < rf" "\<not> rf < 1 + of_nat (length (filter (alive nm) ?r))"
    using under u32_count [OF len] by (simp_all add: word_less_nat_alt)
  have o: "distinct (other_candidates hs cands)" "length (other_candidates hs cands) < 2 ^ 31"
    using c le_less_trans [OF length_filter_le c(2)] by (simp_all add: other_candidates_def)
  obtain added cnt' where "add_replicas 0 (rf - 1) (other_candidates hs cands) (filter (alive nm) ?r) cnt =
      (filter (alive nm) ?r @ added, cnt')"
    "good_choice (unat (rf - 1) - (0 + length (filter (alive nm) ?r))) cnt (other_candidates hs cands) added"
    using add_replicas_good [OF o(1), of 0 "filter (alive nm) ?r" "rf - 1" cnt] len o(2) by auto
  then show ?thesis using lt rf unat_u32_minus_1 [OF rf]
    by (auto simp: alive_primary_update_def filter_alive [OF k(1)] Let_def hs_def)
qed

definition open_ok :: "node_map \<Rightarrow> ClusterSegment \<Rightarrow> nat \<Rightarrow> SegmentNodes option \<Rightarrow> bool" where
  "open_ok nm g n upd \<longleftrightarrow>
     (let p = PrimaryNodeID (seg_Nodes g); r = ReplicatingNodeIDs (new_nodes upd g)
      in PrimaryNodeID (new_nodes upd g) = p \<and> distinct (p # r) \<and> length (filter (alive nm) (p # r)) = n
         \<and> (upd \<noteq> None \<longrightarrow> list_all (alive nm) r))"

lemma open_ok_None:
  "distinct (PrimaryNodeID (seg_Nodes g) # ReplicatingNodeIDs (seg_Nodes g)) \<Longrightarrow>
   length (filter (alive nm) (PrimaryNodeID (seg_Nodes g) # ReplicatingNodeIDs (seg_Nodes g))) = n \<Longrightarrow>
   open_ok nm g n None"
  by (simp add: open_ok_def new_nodes_def Let_def)

lemma open_ok_Some:
  assumes "distinct (PrimaryNodeID (seg_Nodes g) # r)" and "\<forall>i \<in> set (PrimaryNodeID (seg_Nodes g) # r). alive nm i"
    and "length (PrimaryNodeID (seg_Nodes g) # r) = n"
  shows "open_ok nm g n (Some \<lparr>PrimaryNodeID = PrimaryNodeID (seg_Nodes g), DoneNodeIDs = [], ReplicatingNodeIDs = r\<rparr>)"
proof -
  have "filter (alive nm) (PrimaryNodeID (seg_Nodes g) # r) = PrimaryNodeID (seg_Nodes g) # r"
    using assms(2) by (rule filter_True)
  then show ?thesis using assms unfolding open_ok_def new_nodes_def Let_def by (simp only: option.case SegmentNodes.simps) (simp add: list_all_iff)
qed

lemma alive_primary_update_correct:
  assumes t: "tidy nm (PrimaryNodeID (seg_Nodes g) # ReplicatingNodeIDs (seg_Nodes g))" and rf: "rf \<noteq> 0"
    and p: "alive nm (PrimaryNodeID (seg_Nodes g))"
    and c: "distinct cands" "length cands < 2 ^ 31" "\<And>i. i \<in> set cands \<longleftrightarrow> alive nm i"
  shows "\<exists>upd cnt'. alive_primary_update g rf nm cands cnt = Ret (upd, cnt') \<and> open_ok nm g (min (unat rf) (length cands)) upd"
proof -
  let ?p = "PrimaryNodeID (seg_Nodes g)" and ?r = "ReplicatingNodeIDs (seg_Nodes g)"
  let ?a = "filter (alive nm) ?r"
  have d: "distinct (?p # ?r)" "known nm ?r" "length ?r < 2 ^ 31" using t by (auto simp: tidy_def)
  have da: "distinct (?p # ?a)" "\<forall>i \<in> set (?p # ?a). alive nm i" using d p by auto
  have le: "Suc (length ?a) \<le> length cands" using length_filter_le_alive(1) [OF d(1) c(1,3)] p by simp
  consider "unat rf < Suc (length ?a)" | "Suc (length ?a) < unat rf" | "unat rf = Suc (length ?a)" by linarith
  then show ?thesis
  proof cases
    case 1
    let ?t = "take (unat rf - 1) ?a"
    have sub: "set ?t \<subseteq> set ?a" by (rule set_take_subset)
    have "unat rf - 1 \<le> length ?a" using 1 by linarith
    then have "length ?t = unat rf - 1" by (simp only: length_take min_absorb2)
    moreover have "1 \<le> unat rf" using rf by (simp add: Suc_le_eq unat_gt_0)
    ultimately have "length (?p # ?t) = min (unat rf) (length cands)" using 1 le by (simp only: list.size)
    moreover have "distinct (?p # ?t)" using da(1) sub by (auto dest: in_set_takeD)
    moreover have "\<forall>i \<in> set (?p # ?t). alive nm i" using sub p by auto
    ultimately show ?thesis using over_replicated_open [OF t rf 1, of cands cnt] open_ok_Some by blast
  next
    case 2
    from under_replicated_open [OF t rf 2 c(1,2), of cnt] obtain added cnt' where
      g: "good_choice (unat rf - length (?p # ?a)) cnt (other_candidates (?p # ?a) cands) added" and
      u: "alive_primary_update g rf nm cands cnt = Ret (if added = [] then None else Some \<lparr>PrimaryNodeID = ?p,
        DoneNodeIDs = [], ReplicatingNodeIDs = ?a @ added\<rparr>, cnt')" by auto
    have "length (?p # ?a) \<le> unat rf" using 2 by simp
    note h0 = added_holders [OF da c(1,3) g, unfolded if_P [OF this] append_Cons]
    note h = h0 [THEN conjunct1] h0 [THEN conjunct2, THEN conjunct1] h0 [THEN conjunct2, THEN conjunct2]
    have "open_ok nm g (min (unat rf) (length cands)) None" if "added = []"
      using open_ok_None [OF d(1), of nm] h(3) p that by simp
    then show ?thesis using u open_ok_Some [OF h] by (cases "added = []") auto
  next
    case 3
    have len: "length ?a < 2 ^ 31" using d(3) length_filter_le [of "alive nm" ?r] by linarith
    then have "rf = 1 + of_nat (length ?a)" using 3 u32_count [OF len] by (simp add: word_unat_eq_iff)
    then have "alive_primary_update g rf nm cands cnt = Ret (None, cnt)"
      using rf by (simp add: alive_primary_update_def filter_alive [OF d(2)] Let_def)
    moreover have "open_ok nm g (min (unat rf) (length cands)) None"
      using open_ok_None [OF d(1), of nm] p 3 le by simp
    ultimately show ?thesis by blast
  qed
qed

lemma closed_update_eq:
  fixes g nm
  defines "d \<equiv> DoneNodeIDs (seg_Nodes g)" and "r \<equiv> ReplicatingNodeIDs (seg_Nodes g)"
  defines "da \<equiv> filter (alive nm) d" and "ra \<equiv> filter (alive nm) r"
  assumes t: "tidy nm (d @ r)" and rf: "rf \<noteq> 0"
  shows "closed_update g rf nm cands cnt =
    (if da = [] then Ret (None, cnt)
     else if unat rf < length (da @ ra)
     then Ret (Some \<lparr>PrimaryNodeID = 0, DoneNodeIDs = take (unat rf) da,
            ReplicatingNodeIDs = take (unat rf - length (take (unat rf) da)) ra\<rparr>,
          if length da < unat rf then (case trim_replicas nm rf (length da) r [] cnt of Ret x \<Rightarrow> snd x | _ \<Rightarrow> cnt) else cnt)
     else if length (da @ ra) < unat rf
     then (case add_replicas (length da) rf (other_candidates (da @ ra) cands) ra cnt of (added, cnt) \<Rightarrow>
            Ret (if length ra < length added then Some \<lparr>PrimaryNodeID = 0, DoneNodeIDs = da,
                   ReplicatingNodeIDs = added\<rparr> else None, cnt))
     else Ret (None, cnt))"
proof -
  have k: "known nm d" "known nm r" "length d + length r < 2 ^ 31"
    using t by (auto simp: tidy_def known_def)
  have len: "length da + length ra < 2 ^ 31" "length da < 2 ^ 31"
    using k(3) length_filter_le [of "alive nm" d] length_filter_le [of "alive nm" r] unfolding da_def ra_def by linarith+
  have rf1: "0 < unat rf" using rf by (simp add: unat_gt_0)
  have kd: "keep_done nm rf d [] = Ret (take (unat rf) da)"
    using keep_done_eq [OF k(1), of "[]" rf] k(3) rf1 by (simp add: da_def)
  obtain cnt' where tr: "trim_replicas nm rf (length da) r [] cnt = Ret (take (unat rf - length da) ra, cnt')"
    using trim_replicas_eq [OF k(2), of "length da" "[]" rf cnt] len k(3) by (auto simp: ra_def)
  have z: "(of_nat (length da) :: u32) = 0 \<longleftrightarrow> da = []"
    using unat_of_nat_u32 [of "length da"] len by (auto simp: unat_eq_zero)
  have lt: "(of_nat (length (da @ ra)) :: u32) < rf \<longleftrightarrow> length (da @ ra) < unat rf"
    "rf < of_nat (length (da @ ra)) \<longleftrightarrow> unat rf < length (da @ ra)"
    "(of_nat (length (take (unat rf) da)) :: u32) < rf \<longleftrightarrow> length da < unat rf"
    using len unat_of_nat_u32 [of "length (da @ ra)"] unat_of_nat_u32 [of "length (take (unat rf) da)"]
    by (simp_all add: word_less_nat_alt min_def)
  have sum: "(of_nat (length da) + of_nat (length ra) :: u32) = of_nat (length (da @ ra))" by simp
  have rf0: "(rf < 1) = False" using rf by simp
  have all: "take (unat rf) da = da" if "length da < unat rf" using that by simp
  note unf = closed_update_def d_def [symmetric] r_def [symmetric] Let_def filter_alive [OF k(1)]
    filter_alive [OF k(2)] da_def [symmetric] ra_def [symmetric] and_then.simps rf0 if_False sum lt z
  consider "da = []" | "da \<noteq> []" "unat rf < length (da @ ra)" "length da < unat rf"
    | "da \<noteq> []" "unat rf < length (da @ ra)" "\<not> length da < unat rf" | "da \<noteq> []" "\<not> unat rf < length (da @ ra)"
    by blast
  then show ?thesis
  proof cases
    case 1
    then show ?thesis unfolding unf by simp
  next
    case 2
    then show ?thesis unfolding unf kd by (simp add: all tr)
  next
    case 3
    then show ?thesis unfolding unf kd by simp
  next
    case 4
    then show ?thesis unfolding unf by (simp split: prod.split)
  qed
qed

definition closed_ok :: "node_map \<Rightarrow> ClusterSegment \<Rightarrow> nat \<Rightarrow> SegmentNodes option \<Rightarrow> bool" where
  "closed_ok nm g n upd \<longleftrightarrow>
     (let d = DoneNodeIDs (new_nodes upd g); r = ReplicatingNodeIDs (new_nodes upd g)
      in set d \<subseteq> set (DoneNodeIDs (seg_Nodes g)) \<and> filter (alive nm) d \<noteq> [] \<and> distinct (d @ r)
         \<and> length (filter (alive nm) (d @ r)) = n)"

lemma closed_ok_Some:
  assumes "d \<noteq> []" and "set d \<subseteq> set (DoneNodeIDs (seg_Nodes g))" and "distinct (d @ r)"
    and "\<forall>i \<in> set (d @ r). alive nm i" and "length (d @ r) = n"
  shows "closed_ok nm g n (Some \<lparr>PrimaryNodeID = p, DoneNodeIDs = d, ReplicatingNodeIDs = r\<rparr>)"
proof -
  have "filter (alive nm) (d @ r) = d @ r" "filter (alive nm) d = d"
    using assms(4) by (auto intro: filter_True)
  then show ?thesis using assms unfolding closed_ok_def new_nodes_def Let_def by (simp only: option.case SegmentNodes.simps) simp
qed

lemma length_take_take: "length (take n xs @ take (n - length (take n xs)) ys) = min n (length (xs @ ys))"
  by (auto simp: min_def)

lemma closed_update_correct:
  assumes t: "tidy nm (DoneNodeIDs (seg_Nodes g) @ ReplicatingNodeIDs (seg_Nodes g))" and rf: "rf \<noteq> 0"
    and c: "distinct cands" "length cands < 2 ^ 31" "\<And>i. i \<in> set cands \<longleftrightarrow> alive nm i"
    and some: "filter (alive nm) (DoneNodeIDs (seg_Nodes g)) \<noteq> []"
  shows "\<exists>upd cnt'. closed_update g rf nm cands cnt = Ret (upd, cnt') \<and> closed_ok nm g (min (unat rf) (length cands)) upd"
proof -
  let ?d = "DoneNodeIDs (seg_Nodes g)" and ?r = "ReplicatingNodeIDs (seg_Nodes g)"
  let ?da = "filter (alive nm) ?d" and ?ra = "filter (alive nm) ?r"
  note eq = closed_update_eq [OF t rf, of cands cnt, unfolded if_not_P [OF some]]
  have k: "distinct (?d @ ?r)" "length (?d @ ?r) < 2 ^ 31" using t by (simp_all add: tidy_def)
  have ha: "distinct (?da @ ?ra)" "\<forall>i \<in> set (?da @ ?ra). alive nm i" "set ?da \<subseteq> set ?d" using k(1) by auto
  have le: "length (?da @ ?ra) \<le> length cands" "length (?da @ ?ra) < 2 ^ 31"
    using length_filter_le_alive(1) [OF k(1) c(1,3)] le_less_trans [OF length_filter_le k(2), of "alive nm"] by simp_all
  have rf1: "0 < unat rf" using rf by (simp add: unat_gt_0)
  have none: "closed_ok nm g (length (?da @ ?ra)) None"
    using k(1) some unfolding closed_ok_def new_nodes_def Let_def by simp
  consider "unat rf < length (?da @ ?ra)" | "length (?da @ ?ra) < unat rf" | "unat rf = length (?da @ ?ra)" by linarith
  then show ?thesis
  proof cases
    case 1
    let ?kd = "take (unat rf) ?da" let ?kr = "take (unat rf - length ?kd) ?ra"
    have "length (?kd @ ?kr) = min (unat rf) (length cands)" using 1 le(1) by (simp only: length_take_take)
    moreover have "distinct (?kd @ ?kr)" using ha(1) by (auto dest!: in_set_takeD)
    moreover have "\<forall>i \<in> set (?kd @ ?kr). alive nm i" "set ?kd \<subseteq> set ?d" by (auto dest!: in_set_takeD)
    moreover have "?kd \<noteq> []" using some rf1 by simp
    ultimately have "closed_ok nm g (min (unat rf) (length cands)) (Some \<lparr>PrimaryNodeID = 0, DoneNodeIDs = ?kd, ReplicatingNodeIDs = ?kr\<rparr>)"
      by (intro closed_ok_Some)
    then show ?thesis unfolding eq if_P [OF 1] by blast
  next
    case 2
    have o: "distinct (other_candidates (?da @ ?ra) cands)" "length (other_candidates (?da @ ?ra) cands) < 2 ^ 31"
      using c(1) le_less_trans [OF length_filter_le c(2)] by (simp_all add: other_candidates_def)
    obtain added cnt' where a: "add_replicas (length ?da) rf (other_candidates (?da @ ?ra) cands) ?ra cnt = (?ra @ added, cnt')"
      and g: "good_choice (unat rf - length (?da @ ?ra)) cnt (other_candidates (?da @ ?ra) cands) added"
      using add_replicas_good [OF o(1), of "length ?da" ?ra rf cnt] o(2) le(2) by auto
    have "length (?da @ ?ra) \<le> unat rf" using 2 by simp
    note h = added_holders [OF ha(1,2) c(1,3) g, unfolded if_P [OF this] append_assoc]
    have "closed_ok nm g (min (unat rf) (length cands)) (Some \<lparr>PrimaryNodeID = 0, DoneNodeIDs = ?da, ReplicatingNodeIDs = ?ra @ added\<rparr>)"
      by (rule closed_ok_Some [OF some ha(3) h [THEN conjunct1] h [THEN conjunct2, THEN conjunct1]
          h [THEN conjunct2, THEN conjunct2]])
    moreover have "closed_ok nm g (min (unat rf) (length cands)) None" if "added = []"
      using none h [THEN conjunct2, THEN conjunct2] that by simp
    moreover have "closed_update g rf nm cands cnt = Ret (if added = [] then None
        else Some \<lparr>PrimaryNodeID = 0, DoneNodeIDs = ?da, ReplicatingNodeIDs = ?ra @ added\<rparr>, cnt')"
      unfolding eq a using 2 by simp
    ultimately show ?thesis by (cases "added = []") auto
  next
    case 3
    then show ?thesis using none eq le(1) by simp
  qed
qed


subsection \<open>Promotion of a replica\<close>

lemma largest_replica_spec:
  assumes "known nm ids" and sz: "\<And>w i a. delegate_GetSegmentSizeFromNode r w sid i a = Inr (sz i)"
  shows "\<exists>b w'. largest_replica r sid nm ids best w = Ret (Some b, w') \<and> applied w' = applied w
    \<and> snd best \<le> snd b \<and> (\<forall>i \<in> set ids. alive nm i \<longrightarrow> sz i \<le> snd b)
    \<and> (b = best \<or> fst b \<in> set ids \<and> alive nm (fst b) \<and> snd b = sz (fst b))"
  using assms(1)
proof (induction ids arbitrary: best w)
  case (Cons i ids)
  then obtain node where n: "nm i = Some node" by auto
  have k: "known nm ids" using Cons.prems by simp
  show ?case
  proof (cases "node_State node = ALIVE")
    case True
    let ?best = "if sz i > snd best then (i, sz i) else best"
    let ?w = "w @ [SizeAsked sid i (Address node)]"
    have a: "alive nm i" using n True by (simp add: alive_def)
    have run: "largest_replica r sid nm (i # ids) best w = largest_replica r sid nm ids ?best ?w"
      using n True by (simp add: sz)
    from Cons.IH [OF k, of ?best ?w] obtain b w' where
      b: "largest_replica r sid nm ids ?best ?w = Ret (Some b, w')" "applied w' = applied ?w"
      "snd ?best \<le> snd b" "\<forall>j \<in> set ids. alive nm j \<longrightarrow> sz j \<le> snd b"
      "b = ?best \<or> fst b \<in> set ids \<and> alive nm (fst b) \<and> snd b = sz (fst b)"
      by blast
    have "snd best \<le> snd b" "sz i \<le> snd b" using b(3) by (auto split: if_splits)
    moreover have "b = best \<or> fst b \<in> set (i # ids) \<and> alive nm (fst b) \<and> snd b = sz (fst b)"
      using b(5) a by (auto split: if_splits)
    ultimately show ?thesis unfolding run using b(1,2,4) by auto
  next
    case False
    then have "\<not> alive nm i" using n by (simp add: alive_def)
    then show ?thesis using Cons.IH [OF k, of best w] n False by auto
  qed
qed auto

lemma filter_alive_other:
  "known nm ids \<Longrightarrow> filter_outcome (\<lambda>i. if i \<noteq> p then is_alive nm i else Ret False) ids
     = Ret (filter (\<lambda>i. alive nm i \<and> i \<noteq> p) ids)"
  by (induction ids) auto

lemma dead_primary_step:
  assumes k: "known nm (ReplicatingNodeIDs (seg_Nodes g))"
    and sz: "\<And>w i a. delegate_GetSegmentSizeFromNode r w (seg_ID g) i a = Inr (sz i)"
    and nonneg: "\<And>i. 0 \<le> sz i" and nz: "0 \<notin> set (ReplicatingNodeIDs (seg_Nodes g))"
    and ex: "i \<in> set (ReplicatingNodeIDs (seg_Nodes g))" "alive nm i"
  shows "\<exists>p w'. reconcileOpenSegmentWithDeadPrimary r g nm w = Ret w'
    \<and> applied w' = applied w @ [UpdateSegmentNodes (seg_ID g) OPEN \<lparr>PrimaryNodeID = p, DoneNodeIDs = [],
        ReplicatingNodeIDs = filter (\<lambda>i. alive nm i \<and> i \<noteq> p) (ReplicatingNodeIDs (seg_Nodes g))\<rparr>]
    \<and> p \<in> set (ReplicatingNodeIDs (seg_Nodes g)) \<and> alive nm p
    \<and> (\<forall>i \<in> set (ReplicatingNodeIDs (seg_Nodes g)). alive nm i \<longrightarrow> sz i \<le> sz p)"
proof -
  let ?r = "ReplicatingNodeIDs (seg_Nodes g)"
  obtain b w' where b: "largest_replica r (seg_ID g) nm ?r (0, - 1) w = Ret (Some b, w')" "applied w' = applied w"
    "\<forall>i \<in> set ?r. alive nm i \<longrightarrow> sz i \<le> snd b"
    "b = (0, - 1) \<or> fst b \<in> set ?r \<and> alive nm (fst b) \<and> snd b = sz (fst b)"
    using largest_replica_spec [OF k sz, of "(0, - 1)" w] by auto
  have "b \<noteq> (0, - 1)" using b(3) ex nonneg [of i] by auto
  then have p: "fst b \<in> set ?r" "alive nm (fst b)" "snd b = sz (fst b)" "fst b \<noteq> 0" using b(4) nz by auto
  have "?r \<noteq> []" using ex(1) by auto
  then show ?thesis using b p
    by (cases b) (auto simp: reconcileOpenSegmentWithDeadPrimary_def Let_def filter_alive_other [OF k])
qed

subsection \<open>Deletion of closed segments\<close>

lemma needed_by_group_iff:
  "needed_by_group s g \<longleftrightarrow> (\<exists>ns \<in> set (Namespaces s). \<exists>cg \<in> set (ConsumerGroups ns). \<exists>c \<in> set (OffsetCommits cg).
     oc_SegmentID c = seg_ID g \<and> oc_Offset c < seg_Size g)"
  by (simp add: needed_by_group_def list_ex_iff)

lemma closed_topic_deletion:
  assumes "seg_Type g = TOPIC" and "GetTopic s (OwnerNamespace g) (OwnerName g) = Some topic"
    and "reconcileClosedSegment r s nm cands g (cnt, w) = Ret (cnt', w')"
  shows "applied w' = applied w @ [DeleteSegment (seg_ID g) CLOSED] \<longleftrightarrow>
    0 < Retention topic \<and> ClosedAt g < delegate_Now r w - Retention topic \<and> \<not> needed_by_group s g"
  using assms by (auto simp: reconcileClosedSegment_def Let_def split: if_splits option.splits)

subsection \<open>Offset commits\<close>

lemma commit_ids_of_update:
  assumes "offset_commits_update s ns cg = Some cs"
  shows "oc_SegmentID ` set cs = seg_ID ` set (wanted_segments s ns cg)"
proof -
  let ?m = "oc_SegmentID ` set (OffsetCommits cg)" and ?w = "set (wanted_segments s ns cg)"
  have "set cs = {c \<in> set (OffsetCommits cg). oc_SegmentID c \<in> seg_ID ` ?w}
      \<union> (\<lambda>g. \<lparr>oc_SegmentID = seg_ID g, oc_Offset = 0\<rparr>) ` {g \<in> ?w. seg_ID g \<notin> ?m}"
    using assms by (auto simp: offset_commits_update_def Let_def split: if_splits)
  moreover have "oc_SegmentID ` {c \<in> set (OffsetCommits cg). oc_SegmentID c \<in> seg_ID ` ?w} = ?m \<inter> seg_ID ` ?w" by auto
  moreover have "seg_ID ` {g \<in> ?w. seg_ID g \<notin> ?m} = seg_ID ` ?w - ?m" by auto
  ultimately show ?thesis by (simp add: image_Un image_image) blast
qed

lemma offset_commits_update_None:
  "offset_commits_update s ns cg = None \<longleftrightarrow>
     oc_SegmentID ` set (OffsetCommits cg) = seg_ID ` set (wanted_segments s ns cg)"
proof -
  let ?m = "oc_SegmentID ` set (OffsetCommits cg)" and ?n = "seg_ID ` set (wanted_segments s ns cg)"
  have "filter (\<lambda>g. seg_ID g \<notin> ?m) (wanted_segments s ns cg) = [] \<longleftrightarrow> ?n \<subseteq> ?m"
    by (auto simp: filter_empty_conv)
  moreover have "length (remdups (map oc_SegmentID (OffsetCommits cg))) = card ?m"
    "length (remdups (map seg_ID (wanted_segments s ns cg))) = card ?n" by (simp_all add: length_remdups_card_conv)
  ultimately have "offset_commits_update s ns cg = None \<longleftrightarrow> ?n \<subseteq> ?m \<and> card ?m = card ?n"
    by (simp add: offset_commits_update_def Let_def)
  also have "\<dots> \<longleftrightarrow> ?m = ?n" by (metis List.finite_set card_subset_eq finite_imageI order_refl)
  finally show ?thesis .
qed

lemma wanted_segment_commits: "wanted_segment ns (cg\<lparr>OffsetCommits := cs\<rparr>) = wanted_segment ns cg"
  by (simp add: wanted_segment_def fun_eq_iff)

lemma wanted_segments_commits [simp]:
  "wanted_segments s ns (cg\<lparr>OffsetCommits := cs\<rparr>) = wanted_segments s ns cg"
  by (simp add: wanted_segments_def wanted_segment_commits)

subsection \<open>The primary of an offsets segment\<close>

lemma select_primary_spec:
  "select_primary cnt nodes best = fst best \<and> (\<forall>n \<in> set nodes. node_State n = ALIVE \<longrightarrow> snd best \<le> cnt (node_ID n))
   \<or> (\<exists>n \<in> set nodes. select_primary cnt nodes best = node_ID n \<and> node_State n = ALIVE \<and> cnt (node_ID n) < snd best
        \<and> (\<forall>m \<in> set nodes. node_State m = ALIVE \<longrightarrow> cnt (node_ID n) \<le> cnt (node_ID m)))"
proof (induction nodes arbitrary: best)
  case (Cons x nodes)
  show ?case using Cons [of "if node_State x = ALIVE \<and> cnt (node_ID x) < snd best then (node_ID x, cnt (node_ID x)) else best"]
    by (fastforce split: if_splits)
qed simp


subsection \<open>Nodes\<close>

definition node_of :: "NodeUpdate \<Rightarrow> ClusterNode" where
  "node_of u = \<lparr>node_ID = nu_ID u, Address = nu_Address u, node_State = nu_State u, LastSeenAlive = nu_LastSeenAlive u\<rparr>"

lemma fold_UpdateNode:
  "v_nodes (fold spec (map UpdateNode us) v) i =
     (case find (\<lambda>u. nu_ID u = i) (rev us) of None \<Rightarrow> v_nodes v i | Some u \<Rightarrow> Some (node_of u))"
proof (induction us rule: rev_induct)
  case (snoc u us)
  then show ?case by (auto simp: node_of_def)
qed simp

lemma find_rev_Some: "find P (rev us) = Some u \<Longrightarrow> u \<in> set us \<and> P u"
  by (metis find_Some_iff nth_mem set_rev)

lemma find_rev_None: "find P (rev us) = None \<longleftrightarrow> (\<forall>u \<in> set us. \<not> P u)"
  by (auto simp: find_None_iff)

text \<open>The members that the delegate reports, as pairs of ID and address.\<close>

definition members :: "delegate \<Rightarrow> (u64 \<times> string) set" where
  "members r = {(i, a). \<exists>name. (name, a) \<in> set (delegate_Members r) \<and> MustIDFromString name = Ret i}"

definition up_to_date :: "ClusterState \<Rightarrow> u64 \<Rightarrow> string \<Rightarrow> bool" where
  "up_to_date s i a = (case find (\<lambda>n. node_ID n = i) (Nodes s) of None \<Rightarrow> False
     | Some n \<Rightarrow> Address n = a \<and> node_State n = ALIVE)"

definition accepts_all :: "delegate \<Rightarrow> bool" where
  "accepts_all r \<longleftrightarrow> (\<forall>w c. \<exists>i. delegate_Apply r w c = Inr i)"

lemma Apply_accepted:
  assumes "accepts_all r" obtains i where "Apply r c w = (Inr i, w @ [Applied c])"
  using assms by (auto simp: accepts_all_def Apply_def)

lemma reconcile_members_updates:
  assumes "accepts_all r" and "fold_outcome (reconcile_member r s) ms (al, w) = Ret (al', w')"
  defines "mem \<equiv> {(i, a). \<exists>name. (name, a) \<in> set ms \<and> MustIDFromString name = Ret i}"
  shows "set al' = set al \<union> fst ` mem \<and>
    (\<exists>us. applied w' = applied w @ map UpdateNode us \<and> (\<forall>u \<in> set us. nu_State u = ALIVE \<and> (nu_ID u, nu_Address u) \<in> mem)
      \<and> (\<forall>(i, a) \<in> mem. (\<exists>u \<in> set us. nu_ID u = i) \<or> up_to_date s i a))"
  using assms(2) unfolding mem_def
proof (induction ms arbitrary: al w)
  case Nil
  then show ?case by auto
next
  case (Cons m ms)
  obtain name address where m: "m = (name, address)" by (cases m)
  from Cons.prems obtain al1 w1 where
    1: "reconcile_member r s m (al, w) = Ret (al1, w1)" and
    2: "fold_outcome (reconcile_member r s) ms (al1, w1) = Ret (al', w')" by auto
  from 1 obtain i where i: "MustIDFromString name = Ret i" by (auto simp: reconcile_member_def m)
  let ?mem = "{(i, a). \<exists>name. (name, a) \<in> set ms \<and> MustIDFromString name = Ret i}"
  have mem: "{(i, a). \<exists>name. (name, a) \<in> set (m # ms) \<and> MustIDFromString name = Ret i} = insert (i, address) ?mem"
    using i by (auto simp: m)
  obtain us where us: "set al' = set al1 \<union> fst ` ?mem" "applied w' = applied w1 @ map UpdateNode us"
    "\<forall>u \<in> set us. nu_State u = ALIVE \<and> (nu_ID u, nu_Address u) \<in> ?mem"
    "\<forall>(i, a) \<in> ?mem. (\<exists>u \<in> set us. nu_ID u = i) \<or> up_to_date s i a"
    using Cons.IH [OF 2] by blast
  let ?u = "\<lparr>nu_ID = i, nu_Address = address, nu_State = ALIVE, nu_LastSeenAlive = None\<rparr>"
  show ?case unfolding mem
  proof (cases "up_to_date s i address")
    case True
    then have "al1 = i # al" "w1 = w" using 1 i
      by (auto simp: reconcile_member_def m up_to_date_def Let_def split: option.splits if_splits)
    then show "set al' = set al \<union> fst ` insert (i, address) ?mem \<and>
      (\<exists>us. applied w' = applied w @ map UpdateNode us
        \<and> (\<forall>u \<in> set us. nu_State u = ALIVE \<and> (nu_ID u, nu_Address u) \<in> insert (i, address) ?mem)
        \<and> (\<forall>(i, a) \<in> insert (i, address) ?mem. (\<exists>u \<in> set us. nu_ID u = i) \<or> up_to_date s i a))"
      using us True by (intro conjI exI [of _ us]) auto
  next
    case False
    obtain k where k: "Apply r (UpdateNode ?u) w = (Inr k, w @ [Applied (UpdateNode ?u)])"
      using Apply_accepted [OF assms(1)] by blast
    have "al1 = i # al" "applied w1 = applied w @ [UpdateNode ?u]" using 1 i False k
      by (auto simp: reconcile_member_def m up_to_date_def Let_def split: option.splits if_splits)
    then show "set al' = set al \<union> fst ` insert (i, address) ?mem \<and>
      (\<exists>us. applied w' = applied w @ map UpdateNode us
        \<and> (\<forall>u \<in> set us. nu_State u = ALIVE \<and> (nu_ID u, nu_Address u) \<in> insert (i, address) ?mem)
        \<and> (\<forall>(i, a) \<in> insert (i, address) ?mem. (\<exists>u \<in> set us. nu_ID u = i) \<or> up_to_date s i a))"
      using us by (intro conjI exI [of _ "?u # us"]) auto
  qed
qed

lemma reconcile_dead_updates:
  assumes "accepts_all r"
  shows "\<exists>us. applied (reconcile_dead_nodes r al nodes w) = applied w @ map UpdateNode us
    \<and> (\<forall>u \<in> set us. nu_State u = DEAD \<and> nu_ID u \<notin> set al)
    \<and> (\<forall>n \<in> set nodes. node_State n = ALIVE \<longrightarrow> node_ID n \<notin> set al \<longrightarrow> (\<exists>u \<in> set us. nu_ID u = node_ID n))"
proof (induction nodes arbitrary: w)
  case (Cons n nodes)
  show ?case
  proof (cases "node_ID n \<in> set al \<or> node_State n = DEAD")
    case True
    then show ?thesis using Cons [of w] by auto
  next
    case False
    let ?w = "w @ [TimeAsked]"
    let ?u = "\<lparr>nu_ID = node_ID n, nu_Address = Address n, nu_State = DEAD, nu_LastSeenAlive = Some (delegate_Now r w)\<rparr>"
    obtain k where k: "Apply r (UpdateNode ?u) ?w = (Inr k, ?w @ [Applied (UpdateNode ?u)])"
      using Apply_accepted [OF assms] by blast
    obtain us where us: "applied (reconcile_dead_nodes r al nodes (?w @ [Applied (UpdateNode ?u)]))
        = applied (?w @ [Applied (UpdateNode ?u)]) @ map UpdateNode us"
      "\<forall>u \<in> set us. nu_State u = DEAD \<and> nu_ID u \<notin> set al"
      "\<forall>n \<in> set nodes. node_State n = ALIVE \<longrightarrow> node_ID n \<notin> set al \<longrightarrow> (\<exists>u \<in> set us. nu_ID u = node_ID n)"
      using Cons by blast
    then show ?thesis using False k by (intro exI [of _ "?u # us"]) (auto simp: Let_def)
  qed
qed auto

lemma fold_outcome_is_ret:
  "(\<And>x s. x \<in> set xs \<Longrightarrow> is_ret (f x s)) \<Longrightarrow> is_ret (fold_outcome f xs s)"
proof (induction xs arbitrary: s)
  case (Cons x xs)
  obtain s1 where "f x s = Ret s1" using Cons.prems [of x s] by (auto simp: is_ret_iff)
  then show ?case using Cons by simp
qed simp

lemma reconcile_member_is_ret: "is_ret (MustIDFromString (fst m)) \<Longrightarrow> is_ret (reconcile_member r s m aw)"
  by (cases m; cases aw; cases "MustIDFromString (fst m)")
    (auto simp: reconcile_member_def Let_def Apply_def split: sum.split)

lemma ReconcileNodes_updates:
  assumes a: "accepts_all r" and m: "list_all (\<lambda>(name, _). is_ret (MustIDFromString name)) (delegate_Members r)"
  shows "\<exists>w' us. ReconcileNodes r s w = Ret w' \<and> applied w' = applied w @ map UpdateNode us
    \<and> (\<forall>u \<in> set us. (nu_State u = ALIVE \<and> (nu_ID u, nu_Address u) \<in> members r) \<or> (nu_State u = DEAD \<and> nu_ID u \<notin> fst ` members r))
    \<and> (\<forall>(i, a) \<in> members r. (\<exists>u \<in> set us. nu_ID u = i) \<or> up_to_date s i a)
    \<and> (\<forall>n \<in> set (Nodes s). node_State n = ALIVE \<longrightarrow> node_ID n \<notin> fst ` members r \<longrightarrow> (\<exists>u \<in> set us. nu_ID u = node_ID n))"
proof -
  have "is_ret (fold_outcome (reconcile_member r s) (delegate_Members r) ([], w))"
    using m by (intro fold_outcome_is_ret reconcile_member_is_ret) (auto simp: list_all_iff)
  then obtain al w1 where f: "fold_outcome (reconcile_member r s) (delegate_Members r) ([], w) = Ret (al, w1)"
    by (auto simp: is_ret_iff)
  obtain us where us: "set al = fst ` members r" "applied w1 = applied w @ map UpdateNode us"
    "\<forall>u \<in> set us. nu_State u = ALIVE \<and> (nu_ID u, nu_Address u) \<in> members r"
    "\<forall>(i, a) \<in> members r. (\<exists>u \<in> set us. nu_ID u = i) \<or> up_to_date s i a"
    using reconcile_members_updates [OF a f] by (auto simp: members_def)
  obtain vs where vs: "applied (reconcile_dead_nodes r al (Nodes s) w1) = applied w1 @ map UpdateNode vs"
    "\<forall>u \<in> set vs. nu_State u = DEAD \<and> nu_ID u \<notin> set al"
    "\<forall>n \<in> set (Nodes s). node_State n = ALIVE \<longrightarrow> node_ID n \<notin> set al \<longrightarrow> (\<exists>u \<in> set vs. nu_ID u = node_ID n)"
    using reconcile_dead_updates [OF a] by blast
  have "ReconcileNodes r s w = Ret (reconcile_dead_nodes r al (Nodes s) w1)" by (simp add: ReconcileNodes_def f)
  moreover have "applied (reconcile_dead_nodes r al (Nodes s) w1) = applied w @ map UpdateNode (us @ vs)"
    using us(2) vs(1) by simp
  moreover have "\<forall>u \<in> set (us @ vs). (nu_State u = ALIVE \<and> (nu_ID u, nu_Address u) \<in> members r)
      \<or> (nu_State u = DEAD \<and> nu_ID u \<notin> fst ` members r)"
    using us(3) vs(2) unfolding us(1) by auto
  moreover have "\<forall>(i, a) \<in> members r. (\<exists>u \<in> set (us @ vs). nu_ID u = i) \<or> up_to_date s i a" using us(4) by fastforce
  moreover have "\<forall>n \<in> set (Nodes s). node_State n = ALIVE \<longrightarrow> node_ID n \<notin> fst ` members r \<longrightarrow>
      (\<exists>u \<in> set (us @ vs). nu_ID u = node_ID n)" using vs(3) unfolding us(1) by fastforce
  ultimately show ?thesis by blast
qed

lemma fold_UpdateNode_run:
  assumes "wf_state s"
  shows "\<exists>s'. fold_outcome apply_command (map UpdateNode us) s = Ret s' \<and> wf_state s'
    \<and> abs_view s' = fold spec (map UpdateNode us) (abs_view s)"
  using assms
proof (induction us arbitrary: s)
  case (Cons u us)
  obtain s1 where s1: "apply_command (UpdateNode u) s = Ret s1" by (auto simp: doUpdateNode_def Let_def)
  have "wf_state s1 \<and> abs_view s1 = spec (UpdateNode u) (abs_view s)"
    using apply_command_step_ok [OF Cons.prems _ s1] by (simp add: step_ok_def)
  then show ?case using Cons.IH [of s1] s1 by auto
qed simp

text \<open>Which nodes are alive, and where, after a list of updates that covers all differences.\<close>

lemma updates_cover:
  fixes M :: "(u64 \<times> string) set"
  assumes u: "\<forall>u \<in> set us. (nu_State u = ALIVE \<and> (nu_ID u, nu_Address u) \<in> M) \<or> (nu_State u = DEAD \<and> nu_ID u \<notin> fst ` M)"
    and c: "\<forall>(i, a) \<in> M. (\<exists>u \<in> set us. nu_ID u = i) \<or> (\<exists>n. v_nodes v i = Some n \<and> Address n = a \<and> node_State n = ALIVE)"
    and d: "\<And>i n. v_nodes v i = Some n \<Longrightarrow> node_State n = ALIVE \<Longrightarrow> i \<notin> fst ` M \<Longrightarrow> \<exists>u \<in> set us. nu_ID u = i"
    and f: "\<And>i a b. (i, a) \<in> M \<Longrightarrow> (i, b) \<in> M \<Longrightarrow> a = b"
  shows "(\<exists>n. v_nodes (fold spec (map UpdateNode us) v) i = Some n \<and> node_State n = ALIVE \<and> Address n = a) \<longleftrightarrow> (i, a) \<in> M"
proof (cases "find (\<lambda>u. nu_ID u = i) (rev us)")
  case None
  then have no: "\<forall>u \<in> set us. nu_ID u \<noteq> i" by (simp add: find_rev_None)
  show ?thesis
  proof
    assume "(i, a) \<in> M"
    then have "\<exists>n. v_nodes v i = Some n \<and> Address n = a \<and> node_State n = ALIVE" using bspec [OF c] no by fastforce
    then show "\<exists>n. v_nodes (fold spec (map UpdateNode us) v) i = Some n \<and> node_State n = ALIVE \<and> Address n = a"
      using None by (auto simp: fold_UpdateNode)
  next
    assume "\<exists>n. v_nodes (fold spec (map UpdateNode us) v) i = Some n \<and> node_State n = ALIVE \<and> Address n = a"
    then obtain n where n: "v_nodes v i = Some n" "node_State n = ALIVE" "Address n = a"
      using None by (auto simp: fold_UpdateNode)
    have "i \<in> fst ` M" using d [OF n(1,2)] no by blast
    then obtain b where b: "(i, b) \<in> M" by auto
    then have "a = b" using bspec [OF c b] no n by auto
    then show "(i, a) \<in> M" using b by simp
  qed
next
  case (Some x)
  then have x: "x \<in> set us" "nu_ID x = i" by (auto dest: find_rev_Some)
  have v: "v_nodes (fold spec (map UpdateNode us) v) i = Some (node_of x)" using Some by (simp add: fold_UpdateNode)
  from u x(1) consider "nu_State x = ALIVE" "(i, nu_Address x) \<in> M" | "nu_State x = DEAD" "i \<notin> fst ` M"
    using x(2) by auto
  then show ?thesis
  proof cases
    case 1
    then show ?thesis using f [OF 1(2), of a] by (auto simp: v node_of_def)
  next
    case 2
    then have "(i, a) \<notin> M" by force
    then show ?thesis using 2(1) by (simp add: v node_of_def)
  qed
qed

end
