(* ===== verification/Reconciler_Properties.thy ===== *)
theory Reconciler_Properties
  imports Reconciler_Correct
begin

text \<open>
  The properties of the reconciler. The commands a step emits are applied to the cluster state it
  read, and the properties are about the state that results.
\<close>

lemma nodes_update_open:
  assumes wf: "wf_state s" and g: "g \<in> set (OpenSegments s)"
  shows "\<exists>s'. apply_command (UpdateSegmentNodes (seg_ID g) OPEN n) s = Ret s' \<and> wf_state s'
    \<and> GetOpenSegment s' (seg_ID g) = Some (g\<lparr>seg_Nodes := n\<rparr>)"
proof -
  obtain s' where s': "apply_command (UpdateSegmentNodes (seg_ID g) OPEN n) s = Ret s'"
    by (cases "binary_find seg_ID (seg_ID g) (OpenSegments s)") auto
  have ok: "wf_state s'" "abs_view s' = spec (UpdateSegmentNodes (seg_ID g) OPEN n) (abs_view s)"
    using apply_command_step_ok [OF wf _ s'] by (auto simp: step_ok_def)
  have "klookup seg_ID (OpenSegments s) (seg_ID g) = Some g"
    using klookup_unique [OF wf_idsD(2) [OF wf_stateD(3) [OF wf]] g] .
  then have "GetOpenSegment s' (seg_ID g) = Some (g\<lparr>seg_Nodes := n\<rparr>)"
    using GetOpenSegment_view [OF ok(1)] ok(2) by simp
  then show ?thesis using s' ok(1) by blast
qed

lemma nodes_update_closed:
  assumes wf: "wf_state s" and g: "g \<in> set (ClosedSegments s)"
  shows "\<exists>s'. apply_command (UpdateSegmentNodes (seg_ID g) CLOSED n) s = Ret s' \<and> wf_state s'
    \<and> GetClosedSegment s' (seg_ID g) = Some (g\<lparr>seg_Nodes := n\<rparr>)"
proof -
  obtain s' where s': "apply_command (UpdateSegmentNodes (seg_ID g) CLOSED n) s = Ret s'"
    by (cases "binary_find seg_ID (seg_ID g) (ClosedSegments s)") auto
  have ok: "wf_state s'" "abs_view s' = spec (UpdateSegmentNodes (seg_ID g) CLOSED n) (abs_view s)"
    using apply_command_step_ok [OF wf _ s'] by (auto simp: step_ok_def)
  have "klookup seg_ID (ClosedSegments s) (seg_ID g) = Some g"
    using klookup_unique [OF wf_idsD(2) [OF wf_stateD(4) [OF wf]] g] .
  then have "GetClosedSegment s' (seg_ID g) = Some (g\<lparr>seg_Nodes := n\<rparr>)"
    using GetClosedSegment_view [OF ok(1)] ok(2) by simp
  then show ?thesis using s' ok(1) by blast
qed

lemma found_open: "wf_state s \<Longrightarrow> g \<in> set (OpenSegments s) \<Longrightarrow> GetOpenSegment s (seg_ID g) = Some g"
  using klookup_unique [OF wf_idsD(2) [OF wf_stateD(3)]] by (simp add: GetOpenSegment_view)

lemma found_closed: "wf_state s \<Longrightarrow> g \<in> set (ClosedSegments s) \<Longrightarrow> GetClosedSegment s (seg_ID g) = Some g"
  using klookup_unique [OF wf_idsD(2) [OF wf_stateD(4)]] by (simp add: GetClosedSegment_view)

lemma new_nodes_applied:
  "g\<lparr>seg_Nodes := new_nodes (Some n) g\<rparr> = g\<lparr>seg_Nodes := n\<rparr>" "g\<lparr>seg_Nodes := new_nodes None g\<rparr> = g"
  by (simp_all add: new_nodes_def)

lemma length_aliveNodeIDs: "length (aliveNodeIDs s) \<le> length (Nodes s)"
  by (simp add: aliveNodeIDs_def)

text \<open>(C6) One reconciliation step of an open topic segment with an alive primary, followed by the
  commands it emits, keeps the primary and leaves the segment on exactly as many alive nodes as the
  topic asks for, or on all alive nodes when there are fewer; the nodes are pairwise distinct.\<close>

theorem reconcile_open_replication:
  assumes wf: "wf_state s" and g: "g \<in> set (OpenSegments s)" and ty: "seg_Type g = TOPIC"
    and topic: "GetTopic s (OwnerNamespace g) (OwnerName g) = Some topic" "ReplicationFactor topic \<noteq> 0"
    and nodes: "tidy (nodeMap s) (PrimaryNodeID (seg_Nodes g) # ReplicatingNodeIDs (seg_Nodes g))"
      "alive (nodeMap s) (PrimaryNodeID (seg_Nodes g))" "length (Nodes s) < 2 ^ 31"
  shows "\<exists>cnt' w' cs s' g'. reconcileOpenSegment r s (nodeMap s) (aliveNodeIDs s) g (cnt, w) = Ret (cnt', w')
    \<and> applied w' = applied w @ cs \<and> fold_outcome apply_command cs s = Ret s'
    \<and> GetOpenSegment s' (seg_ID g) = Some g'
    \<and> PrimaryNodeID (seg_Nodes g') = PrimaryNodeID (seg_Nodes g)
    \<and> distinct (PrimaryNodeID (seg_Nodes g') # ReplicatingNodeIDs (seg_Nodes g'))
    \<and> length (filter (alive (nodeMap s)) (PrimaryNodeID (seg_Nodes g') # ReplicatingNodeIDs (seg_Nodes g')))
      = min (unat (ReplicationFactor topic)) (length (aliveNodeIDs s))"
proof -
  obtain upd cnt' where u: "alive_primary_update g (ReplicationFactor topic) (nodeMap s) (aliveNodeIDs s) cnt = Ret (upd, cnt')"
    and ok: "open_ok (nodeMap s) g (min (unat (ReplicationFactor topic)) (length (aliveNodeIDs s))) upd"
    using alive_primary_update_correct [OF nodes(1) topic(2) nodes(2) distinct_aliveNodeIDs [OF wf]
        le_less_trans [OF length_aliveNodeIDs nodes(3)] aliveNodeIDs_iff [OF wf]] by blast
  define cs where "cs = (case upd of None \<Rightarrow> [] | Some n \<Rightarrow> [UpdateSegmentNodes (seg_ID g) OPEN n])"
  obtain node where "nodeMap s (PrimaryNodeID (seg_Nodes g)) = Some node" "node_State node = ALIVE"
    using nodes(2) by (auto simp: alive_def split: option.splits)
  then have "\<exists>w'. reconcileOpenSegment r s (nodeMap s) (aliveNodeIDs s) g (cnt, w) = Ret (cnt', w') \<and> applied w' = applied w @ cs"
    using ty topic(1) u
    by (auto simp: reconcileOpenSegment_def reconcileOpenSegmentWithAlivePrimary_def Let_def cs_def split: option.split)
  moreover have "\<exists>s'. fold_outcome apply_command cs s = Ret s' \<and>
      GetOpenSegment s' (seg_ID g) = Some (g\<lparr>seg_Nodes := new_nodes upd g\<rparr>)"
  proof (cases upd)
    case None
    then show ?thesis using found_open [OF wf g] by (simp add: cs_def new_nodes_applied)
  next
    case (Some n)
    then show ?thesis using nodes_update_open [OF wf g, of n] by (auto simp: cs_def new_nodes_applied)
  qed
  ultimately show ?thesis using ok unfolding open_ok_def Let_def by fastforce
qed

definition sample_delegate :: delegate where
  "sample_delegate = \<lparr>delegate_Apply = (\<lambda>w c. Inr (of_nat (length w) + 1)),
     delegate_Members = [(''0000000000000007'', ''a''), (''0000000000000008'', ''b'')],
     delegate_GetSegmentSizeFromNode = (\<lambda>w g i a. Inr (if i = 9 then 20 else 10)),
     delegate_NextSegmentID = (\<lambda>w. 4), delegate_Now = (\<lambda>w. 1000)\<rparr>"

definition sample_node :: "u64 \<Rightarrow> NodeState \<Rightarrow> ClusterNode" where
  "sample_node i st = \<lparr>node_ID = i, Address = ''a'', node_State = st, LastSeenAlive = None\<rparr>"

definition sample_closed :: ClusterSegment where
  "sample_closed = (sample_segment 3 ''orders'')\<lparr>ClosedAt := 100, seg_Size := 50,
     seg_Nodes := \<lparr>PrimaryNodeID = 0, DoneNodeIDs = [7], ReplicatingNodeIDs = [8]\<rparr>\<rparr>"

definition sample_cluster :: ClusterState where
  "sample_cluster = sample_state\<lparr>Nodes := [sample_node 7 ALIVE, sample_node 8 DEAD, sample_node 9 ALIVE],
     ClosedSegments := [sample_closed],
     Namespaces := [\<lparr>ns_Name = ''default'', Topics = [sample_topic, sample_topic\<lparr>topic_Name := ''audit''\<rparr>],
       ConsumerGroups = [sample_group\<lparr>OffsetCommits := [\<lparr>oc_SegmentID = 1, oc_Offset = 10\<rparr>, \<lparr>oc_SegmentID = 3, oc_Offset = 20\<rparr>]\<rparr>]\<rparr>]\<rparr>"

lemma wf_sample_cluster [simp]: "wf_state sample_cluster"
  by code_simp

theorem reconcile_open_replication_witness:
  "\<exists>cnt' w' cs s' g'. reconcileOpenSegment sample_delegate sample_cluster (nodeMap sample_cluster)
      (aliveNodeIDs sample_cluster) (sample_segment 1 ''orders'') (\<lambda>_. 0, []) = Ret (cnt', w')
    \<and> applied w' = cs \<and> fold_outcome apply_command cs sample_cluster = Ret s'
    \<and> GetOpenSegment s' 1 = Some g'
    \<and> length (filter (alive (nodeMap sample_cluster)) (PrimaryNodeID (seg_Nodes g') # ReplicatingNodeIDs (seg_Nodes g'))) = 2"
proof -
  let ?g = "sample_segment 1 ''orders''"
  have 1: "?g \<in> set (OpenSegments sample_cluster)" "seg_Type ?g = TOPIC" "length (Nodes sample_cluster) < 2 ^ 31"
    by (simp_all add: sample_cluster_def sample_defs)
  have 2: "GetTopic sample_cluster (OwnerNamespace ?g) (OwnerName ?g) = Some sample_topic"
    "ReplicationFactor sample_topic \<noteq> 0"
    "alive (nodeMap sample_cluster) (PrimaryNodeID (seg_Nodes ?g))"
    "known (nodeMap sample_cluster) (PrimaryNodeID (seg_Nodes ?g) # ReplicatingNodeIDs (seg_Nodes ?g))"
    "distinct (PrimaryNodeID (seg_Nodes ?g) # ReplicatingNodeIDs (seg_Nodes ?g))" by code_simp+
  have t: "tidy (nodeMap sample_cluster) (PrimaryNodeID (seg_Nodes ?g) # ReplicatingNodeIDs (seg_Nodes ?g))"
    using 2(4,5) by (simp add: tidy_def) (simp add: sample_segment_def)
  have 3: "min (unat (ReplicationFactor sample_topic)) (length (aliveNodeIDs sample_cluster)) = 2" "seg_ID ?g = 1" by code_simp+
  show ?thesis using reconcile_open_replication [OF wf_sample_cluster 1(1,2) 2(1,2) t 2(3) 1(3), of sample_delegate "\<lambda>_. 0" "[]"]
    unfolding 3 applied.simps(1) append_Nil by blast
qed

text \<open>(C7) One reconciliation step of a closed topic segment that is not due for deletion (its topic keeps
  segments for ever, or its retention has not passed yet, or a consumer group has an offset commit inside it) and that has an
  alive complete copy never gives up its last complete copy: done nodes are only removed, at least one
  alive done node stays, the nodes are pairwise distinct, and the alive copies number exactly what
  the topic asks for, or all alive nodes when there are fewer.\<close>

theorem reconcile_closed_replication:
  assumes wf: "wf_state s" and g: "g \<in> set (ClosedSegments s)" and ty: "seg_Type g = TOPIC"
    and topic: "GetTopic s (OwnerNamespace g) (OwnerName g) = Some topic" "ReplicationFactor topic \<noteq> 0"
    and keep: "Retention topic \<le> 0 \<or> delegate_Now r w - Retention topic \<le> ClosedAt g \<or>
      (\<exists>ns \<in> set (Namespaces s). \<exists>cg \<in> set (ConsumerGroups ns). \<exists>c \<in> set (OffsetCommits cg).
        oc_SegmentID c = seg_ID g \<and> oc_Offset c < seg_Size g)"
    and nodes: "tidy (nodeMap s) (DoneNodeIDs (seg_Nodes g) @ ReplicatingNodeIDs (seg_Nodes g))"
      "filter (alive (nodeMap s)) (DoneNodeIDs (seg_Nodes g)) \<noteq> []" "length (Nodes s) < 2 ^ 31"
  shows "\<exists>cnt' w' cs s' g'. reconcileClosedSegment r s (nodeMap s) (aliveNodeIDs s) g (cnt, w) = Ret (cnt', w')
    \<and> applied w' = applied w @ cs \<and> fold_outcome apply_command cs s = Ret s'
    \<and> GetClosedSegment s' (seg_ID g) = Some g'
    \<and> set (DoneNodeIDs (seg_Nodes g')) \<subseteq> set (DoneNodeIDs (seg_Nodes g))
    \<and> filter (alive (nodeMap s)) (DoneNodeIDs (seg_Nodes g')) \<noteq> []
    \<and> distinct (DoneNodeIDs (seg_Nodes g') @ ReplicatingNodeIDs (seg_Nodes g'))
    \<and> length (filter (alive (nodeMap s)) (DoneNodeIDs (seg_Nodes g') @ ReplicatingNodeIDs (seg_Nodes g')))
      = min (unat (ReplicationFactor topic)) (length (aliveNodeIDs s))"
proof -
  obtain upd cnt' where u: "closed_update g (ReplicationFactor topic) (nodeMap s) (aliveNodeIDs s) cnt = Ret (upd, cnt')"
    and ok: "closed_ok (nodeMap s) g (min (unat (ReplicationFactor topic)) (length (aliveNodeIDs s))) upd"
    using closed_update_correct [OF nodes(1) topic(2) distinct_aliveNodeIDs [OF wf]
        le_less_trans [OF length_aliveNodeIDs nodes(3)] aliveNodeIDs_iff [OF wf] nodes(2)] by blast
  define cs where "cs = (case upd of None \<Rightarrow> [] | Some n \<Rightarrow> [UpdateSegmentNodes (seg_ID g) CLOSED n])"
  have "\<exists>w'. reconcileClosedSegment r s (nodeMap s) (aliveNodeIDs s) g (cnt, w) = Ret (cnt', w') \<and> applied w' = applied w @ cs"
    using ty topic(1) u keep unfolding needed_by_group_iff [symmetric]
    by (auto simp: reconcileClosedSegment_def Let_def cs_def split: option.split)
  moreover have "\<exists>s'. fold_outcome apply_command cs s = Ret s' \<and>
      GetClosedSegment s' (seg_ID g) = Some (g\<lparr>seg_Nodes := new_nodes upd g\<rparr>)"
  proof (cases upd)
    case None
    then show ?thesis using found_closed [OF wf g] by (simp add: cs_def new_nodes_applied)
  next
    case (Some n)
    then show ?thesis using nodes_update_closed [OF wf g, of n] by (auto simp: cs_def new_nodes_applied)
  qed
  ultimately show ?thesis using ok unfolding closed_ok_def Let_def by fastforce
qed

theorem reconcile_closed_replication_witness:
  "\<exists>cnt' w' cs s' g'. reconcileClosedSegment (sample_delegate\<lparr>delegate_Now := \<lambda>_. 105\<rparr>) sample_cluster (nodeMap sample_cluster)
      (aliveNodeIDs sample_cluster) sample_closed (\<lambda>_. 0, []) = Ret (cnt', w')
    \<and> applied w' = cs \<and> fold_outcome apply_command cs sample_cluster = Ret s'
    \<and> GetClosedSegment s' 3 = Some g' \<and> filter (alive (nodeMap sample_cluster)) (DoneNodeIDs (seg_Nodes g')) \<noteq> []"
proof -
  let ?g = sample_closed
  have 1: "?g \<in> set (ClosedSegments sample_cluster)" "seg_Type ?g = TOPIC" "length (Nodes sample_cluster) < 2 ^ 31"
    by (simp_all add: sample_cluster_def sample_closed_def sample_defs)
  have 2: "GetTopic sample_cluster (OwnerNamespace ?g) (OwnerName ?g) = Some sample_topic"
    "ReplicationFactor sample_topic \<noteq> 0" "0 < Retention sample_topic" "105 - Retention sample_topic \<le> ClosedAt ?g"
    "filter (alive (nodeMap sample_cluster)) (DoneNodeIDs (seg_Nodes ?g)) \<noteq> []"
    "known (nodeMap sample_cluster) (DoneNodeIDs (seg_Nodes ?g) @ ReplicatingNodeIDs (seg_Nodes ?g))"
    "distinct (DoneNodeIDs (seg_Nodes ?g) @ ReplicatingNodeIDs (seg_Nodes ?g))" "seg_ID ?g = 3" by code_simp+
  have t: "tidy (nodeMap sample_cluster) (DoneNodeIDs (seg_Nodes ?g) @ ReplicatingNodeIDs (seg_Nodes ?g))"
    using 2(6,7) by (simp add: tidy_def) (simp add: sample_closed_def)
  have "delegate_Now (sample_delegate\<lparr>delegate_Now := \<lambda>_. 105\<rparr>) [] - Retention sample_topic \<le> ClosedAt ?g" using 2(4) by simp
  from reconcile_closed_replication [OF wf_sample_cluster 1(1,2) 2(1,2) disjI2 [OF disjI1 [OF this]] t 2(5) 1(3), of "\<lambda>_. 0"]
  show ?thesis unfolding 2(8) applied.simps(1) append_Nil by blast
qed

text \<open>When the primary of an open segment is dead and some replica is alive, the step makes the
  alive replica that holds the most data the new primary and keeps the other alive replicas. The
  sizes that the nodes report are assumed to be readable and not negative, and no node has ID 0.\<close>

theorem dead_primary_promotes_largest:
  assumes "known nm (ReplicatingNodeIDs (seg_Nodes g))" and "0 \<notin> set (ReplicatingNodeIDs (seg_Nodes g))"
    and "\<And>w i a. delegate_GetSegmentSizeFromNode r w (seg_ID g) i a = Inr (sz i)" and "\<And>i. 0 \<le> sz i"
    and "i \<in> set (ReplicatingNodeIDs (seg_Nodes g))" and "alive nm i"
  shows "\<exists>p w'. reconcileOpenSegmentWithDeadPrimary r g nm w = Ret w'
    \<and> applied w' = applied w @ [UpdateSegmentNodes (seg_ID g) OPEN \<lparr>PrimaryNodeID = p, DoneNodeIDs = [],
        ReplicatingNodeIDs = filter (\<lambda>i. alive nm i \<and> i \<noteq> p) (ReplicatingNodeIDs (seg_Nodes g))\<rparr>]
    \<and> p \<in> set (ReplicatingNodeIDs (seg_Nodes g)) \<and> alive nm p
    \<and> (\<forall>i \<in> set (ReplicatingNodeIDs (seg_Nodes g)). alive nm i \<longrightarrow> sz i \<le> sz p)"
  using assms by (intro dead_primary_step [where i = i]) auto

definition sample_orphan :: ClusterSegment where
  "sample_orphan = (sample_segment 1 ''orders'')\<lparr>seg_Nodes := \<lparr>PrimaryNodeID = 8, DoneNodeIDs = [], ReplicatingNodeIDs = [7, 9]\<rparr>\<rparr>"

theorem dead_primary_promotes_largest_witness:
  "\<exists>w'. reconcileOpenSegmentWithDeadPrimary sample_delegate sample_orphan (nodeMap sample_cluster) [] = Ret w'
    \<and> applied w' = [UpdateSegmentNodes 1 OPEN \<lparr>PrimaryNodeID = 9, DoneNodeIDs = [], ReplicatingNodeIDs = [7]\<rparr>]"
proof -
  define sz :: "u64 \<Rightarrow> int" where "sz i = (if i = 9 then 20 else 10)" for i
  have sz: "delegate_GetSegmentSizeFromNode sample_delegate w (seg_ID sample_orphan) i a = Inr (sz i)" "0 \<le> sz i" for w i a
    by (simp_all add: sample_delegate_def sz_def)
  have 1: "known (nodeMap sample_cluster) (ReplicatingNodeIDs (seg_Nodes sample_orphan))"
    "0 \<notin> set (ReplicatingNodeIDs (seg_Nodes sample_orphan))" "9 \<in> set (ReplicatingNodeIDs (seg_Nodes sample_orphan))"
    "alive (nodeMap sample_cluster) 9" "alive (nodeMap sample_cluster) 7"
    "ReplicatingNodeIDs (seg_Nodes sample_orphan) = [7, 9]" "seg_ID sample_orphan = 1" by code_simp+
  obtain p w' where "reconcileOpenSegmentWithDeadPrimary sample_delegate sample_orphan (nodeMap sample_cluster) [] = Ret w'"
    "applied w' = [UpdateSegmentNodes 1 OPEN \<lparr>PrimaryNodeID = p, DoneNodeIDs = [],
      ReplicatingNodeIDs = filter (\<lambda>i. alive (nodeMap sample_cluster) i \<and> i \<noteq> p) [7, 9]\<rparr>]"
    "p \<in> set [7, 9]" "\<forall>i \<in> set [7, 9]. alive (nodeMap sample_cluster) i \<longrightarrow> sz i \<le> sz p"
    using dead_primary_promotes_largest [OF 1(1,2) sz 1(3,4), of "[]"]
    unfolding 1(6,7) applied.simps(1) append_Nil by blast
  moreover from this(4) 1(4) have "sz 9 \<le> sz p" by simp
  then have "p = 9" by (simp add: sz_def split: if_splits)
  ultimately show ?thesis using 1(5) by simp
qed

text \<open>(C8) A closed segment of an existing topic is deleted if and only if the topic has a retention
  period, the segment was closed before that period, and no consumer group of any namespace has an
  offset commit inside the segment: data that a group still has to read is never deleted.\<close>

theorem closed_segment_deleted_iff:
  assumes "seg_Type g = TOPIC" and "GetTopic s (OwnerNamespace g) (OwnerName g) = Some topic"
    and "reconcileClosedSegment r s nm cands g (cnt, w) = Ret (cnt', w')"
  shows "applied w' = applied w @ [DeleteSegment (seg_ID g) CLOSED] \<longleftrightarrow>
    0 < Retention topic \<and> ClosedAt g < delegate_Now r w - Retention topic \<and>
    \<not> (\<exists>ns \<in> set (Namespaces s). \<exists>cg \<in> set (ConsumerGroups ns). \<exists>c \<in> set (OffsetCommits cg).
        oc_SegmentID c = seg_ID g \<and> oc_Offset c < seg_Size g)"
  using closed_topic_deletion [OF assms] by (simp only: needed_by_group_iff)

theorem closed_segment_deleted_iff_witness:
  "\<exists>cnt' w'. reconcileClosedSegment sample_delegate sample_cluster (nodeMap sample_cluster)
      (aliveNodeIDs sample_cluster) sample_closed (\<lambda>_. 0, []) = Ret (cnt', w')
    \<and> applied w' \<noteq> [DeleteSegment 3 CLOSED]"
proof -
  have 1: "seg_Type sample_closed = TOPIC" "seg_ID sample_closed = 3"
    "GetTopic sample_cluster (OwnerNamespace sample_closed) (OwnerName sample_closed) = Some sample_topic"
    "needed_by_group sample_cluster sample_closed"
    "is_ret (reconcileClosedSegment sample_delegate sample_cluster (nodeMap sample_cluster)
      (aliveNodeIDs sample_cluster) sample_closed (\<lambda>_. 0, []))" by code_simp+
  then obtain cnt' w' where r: "reconcileClosedSegment sample_delegate sample_cluster (nodeMap sample_cluster)
      (aliveNodeIDs sample_cluster) sample_closed (\<lambda>_. 0, []) = Ret (cnt', w')" by (auto simp: is_ret_iff)
  show ?thesis using closed_segment_deleted_iff [OF 1(1,3) r] 1(4) r unfolding needed_by_group_iff 1(2) by auto
qed


text \<open>(C10) Once the commands of \<open>ReconcileNodes\<close> are applied, a node is recorded as alive at an address if
  and only if the member list has it at that address: joined, moved and returned nodes become
  alive, and all others dead. The Raft layer is assumed to accept every command, the member names
  to be node IDs, and an ID to have one address.\<close>

theorem reconcile_nodes_converges:
  assumes wf: "wf_state s" and a: "accepts_all r"
    and m: "list_all (\<lambda>(name, _). is_ret (MustIDFromString name)) (delegate_Members r)"
    and f: "single_valued (members r)"
  shows "\<exists>w' cs s'. ReconcileNodes r s w = Ret w' \<and> applied w' = applied w @ cs
    \<and> fold_outcome apply_command cs s = Ret s' \<and> wf_state s'
    \<and> (\<forall>i a. (\<exists>n. GetNode s' i = Some n \<and> node_State n = ALIVE \<and> Address n = a) \<longleftrightarrow> (i, a) \<in> members r)"
proof -
  obtain w' us where u: "ReconcileNodes r s w = Ret w'" "applied w' = applied w @ map UpdateNode us"
    "\<forall>u \<in> set us. (nu_State u = ALIVE \<and> (nu_ID u, nu_Address u) \<in> members r) \<or> (nu_State u = DEAD \<and> nu_ID u \<notin> fst ` members r)"
    "\<forall>(i, a) \<in> members r. (\<exists>u \<in> set us. nu_ID u = i) \<or> up_to_date s i a"
    "\<forall>n \<in> set (Nodes s). node_State n = ALIVE \<longrightarrow> node_ID n \<notin> fst ` members r \<longrightarrow> (\<exists>u \<in> set us. nu_ID u = node_ID n)"
    using ReconcileNodes_updates [OF a m, of s w] by blast
  obtain s' where s': "fold_outcome apply_command (map UpdateNode us) s = Ret s'" "wf_state s'"
    "abs_view s' = fold spec (map UpdateNode us) (abs_view s)" using fold_UpdateNode_run [OF wf] by blast
  have up: "up_to_date s i a \<longleftrightarrow> (\<exists>n. v_nodes (abs_view s) i = Some n \<and> Address n = a \<and> node_State n = ALIVE)" for i a
    unfolding up_to_date_def abs_view_simps klookup_def by (simp split: option.split)
  have "(\<exists>n. v_nodes (abs_view s') i = Some n \<and> node_State n = ALIVE \<and> Address n = a) \<longleftrightarrow> (i, a) \<in> members r" for i a
    unfolding s'(3)
  proof (rule updates_cover [OF u(3) u(4) [unfolded up] _ single_valuedD [OF f]])
    fix i n assume "v_nodes (abs_view s) i = Some n" "node_State n = ALIVE" "i \<notin> fst ` members r"
    moreover from this(1) have "n \<in> set (Nodes s)" "node_ID n = i" using klookup_SomeD by fastforce+
    ultimately show "\<exists>u \<in> set us. nu_ID u = i" using u(5) by blast
  qed
  then have "(\<exists>n. GetNode s' i = Some n \<and> node_State n = ALIVE \<and> Address n = a) \<longleftrightarrow> (i, a) \<in> members r" for i a
    unfolding GetNode_view by blast
  then show ?thesis using u(1,2) s'(1,2) by blast
qed

lemma sample_member_ids:
  "MustIDFromString ''0000000000000007'' = Ret 7" "MustIDFromString ''0000000000000008'' = Ret 8"
proof -
  have f: "FormatUint16 7 = ''7''" "FormatUint16 8 = ''8''" by (subst FormatUint16.simps, simp add: hex_char_def)+
  have z: "replicate 15 CHR ''0'' = ''000000000000000''" by code_simp
  have n: "NodeIDToString 7 = ''0000000000000007''" "NodeIDToString 8 = ''0000000000000008''"
    by (simp_all add: NodeIDToString_def f z)
  show "MustIDFromString ''0000000000000007'' = Ret 7" "MustIDFromString ''0000000000000008'' = Ret 8"
    using NodeID_round_trip [of 7] NodeID_round_trip [of 8] unfolding MustIDFromString_def n by simp_all
qed

lemma members_sample: "members sample_delegate = {(7, ''a''), (8, ''b'')}"
proof -
  have "members sample_delegate = {(i, a). (a = ''a'' \<and> MustIDFromString ''0000000000000007'' = Ret i) \<or> (a = ''b'' \<and> MustIDFromString ''0000000000000008'' = Ret i)}"
    unfolding members_def sample_delegate_def by (simp only: delegate.simps list.set) blast
  also have "\<dots> = {(7, ''a''), (8, ''b'')}" unfolding sample_member_ids by auto
  finally show ?thesis .
qed

theorem reconcile_nodes_converges_witness:
  "\<exists>w' cs s'. ReconcileNodes sample_delegate sample_cluster [] = Ret w' \<and> applied w' = cs
    \<and> fold_outcome apply_command cs sample_cluster = Ret s'
    \<and> (\<forall>i a. (\<exists>n. GetNode s' i = Some n \<and> node_State n = ALIVE \<and> Address n = a) \<longleftrightarrow> (i, a) \<in> {(7, ''a''), (8, ''b'')})"
proof -
  have 1: "accepts_all sample_delegate" by (simp add: accepts_all_def sample_delegate_def)
  have 2: "list_all (\<lambda>(name, _). is_ret (MustIDFromString name)) (delegate_Members sample_delegate)"
    unfolding sample_delegate_def by (simp only: delegate.simps list.pred_inject split sample_member_ids is_ret.simps)
  have 3: "single_valued (members sample_delegate)" 
    unfolding members_sample single_valued_def by simp
  obtain w' cs s' where "ReconcileNodes sample_delegate sample_cluster [] = Ret w'" "applied w' = cs"
    "fold_outcome apply_command cs sample_cluster = Ret s'"
    "\<forall>i a. (\<exists>n. GetNode s' i = Some n \<and> node_State n = ALIVE \<and> Address n = a) \<longleftrightarrow> (i, a) \<in> members sample_delegate"
    using reconcile_nodes_converges [OF wf_sample_cluster 1 2 3, where w = "[]"]
    unfolding applied.simps(1) append_Nil by blast
  then show ?thesis unfolding members_sample by (intro exI conjI)
qed

end
