(* ===== verification/Consumers.thy ===== *)
theory Consumers
  imports Keyed_Lists
begin

text \<open>
  Consumer groups in memory (\<^verbatim>\<open>mq/consumers\<close>): a ring buffer of messages that producers fill,
  subscriptions lease from, acknowledge and give back. What a call does while it holds the group's
  mutex is one atomic step; the sends of \<open>Ack\<close> and the copy of \<open>Next\<close>, which come after the mutex is
  released, are steps of their own in \<open>Consumers_Calls\<close>. A call that would wait on the condition variable returns
  \<open>Wait\<close> and is tried again after a broadcast. The slots are kept at their positions, and
  \<open>contents\<close> reads the ring as a queue.
\<close>

subsection \<open>Data\<close>

record 'm Message =
  TopicNamespace :: string
  TopicName :: string
  SegmentID :: u64
  CommitOffset :: int
  Time :: gotime
  Payload :: "'m option"
  SubscriptionID :: u64
  SeqNo :: u64

record Commit =
  commit_SegmentID :: u64
  commit_Offset :: int

definition ready :: u64 where "ready = - 1"
definition ack :: u64 where "ack = 0"
definition zeroSeqNo :: u64 where "zeroSeqNo = 0"

definition Reset :: "'m Message" where
  "Reset = \<lparr>TopicNamespace = [], TopicName = [], SegmentID = 0, CommitOffset = 0, Time = 0, Payload = None,
     SubscriptionID = 0, SeqNo = 0\<rparr>"

record 'm Group =
  group_n :: int
  messages :: "'m Message list"
  g_read :: nat
  g_write :: nat
  closed :: bool
  Commits :: bool

record Subscription =
  sub_ID :: u64
  sub_size :: u32
  inflight :: u32
  maxMessages :: u64
  blocking :: bool
  sub_closed :: bool
  seq :: u64

datatype consumer_error = ErrNotPositive | ErrGroupClosed | ErrSubscriptionClosed | ErrNotLeased | ErrEmpty | ErrSeqNo

datatype 'a call = Return 'a | Fail consumer_error | Wait

subsection \<open>The ring\<close>

text \<open>
  \<^verbatim>\<open>for j := from; j != write; j = (j + 1) % len\<close> visits these slots; the fuel is the number of slots.
\<close>

fun ring_from :: "nat \<Rightarrow> nat \<Rightarrow> nat \<Rightarrow> nat \<Rightarrow> nat list" where
  "ring_from 0 len w j = []"
| "ring_from (Suc fuel) len w j = (if j = w then [] else j # ring_from fuel len w ((j + 1) mod len))"

definition ring_slots :: "'m Group \<Rightarrow> nat list" where
  "ring_slots g = ring_from (length (messages g)) (length (messages g)) (g_write g) (g_read g)"

definition find_slot :: "('m Message \<Rightarrow> bool) \<Rightarrow> 'm Group \<Rightarrow> nat option" where
  "find_slot P g = find (\<lambda>j. P (messages g ! j)) (ring_slots g)"

subsection \<open>Group operations\<close>

definition NewGroup :: "int \<Rightarrow> consumer_error + 'm Group" where
  "NewGroup n =
     (if n < 1 then Inl ErrNotPositive
      else Inr \<lparr>group_n = n, messages = replicate (nat n + 1) Reset, g_read = 0, g_write = 0, closed = False, Commits = False\<rparr>)"

text \<open>One pass of the loop in \<open>Offer\<close> under the lock; the entry check reads the flag before the lock.\<close>

definition Offer_pass :: "'m Message \<Rightarrow> 'm Group \<Rightarrow> unit call \<times> 'm Group" where
  "Offer_pass m g =
     (if (g_write g + 1) mod length (messages g) = g_read g
      then (if closed g then (Fail ErrGroupClosed, g) else (Wait, g))
      else (Return (), g\<lparr>messages := (messages g)[g_write g := m\<lparr>SubscriptionID := ready, SeqNo := zeroSeqNo\<rparr>],
              g_write := (g_write g + 1) mod length (messages g)\<rparr>))"

definition Offer :: "'m Message \<Rightarrow> 'm Group \<Rightarrow> unit call \<times> 'm Group" where
  "Offer m g = (if closed g then (Fail ErrGroupClosed, g) else Offer_pass m g)"

text \<open>
  \<open>currentSubscriptionID\<close> is an atomic counter of the package, shared by all groups.
\<close>

definition Subscribe :: "u64 \<Rightarrow> u64 \<times> Subscription" where
  "Subscribe currentSubscriptionID =
     (currentSubscriptionID + 1,
      \<lparr>sub_ID = currentSubscriptionID + 1, sub_size = 0, inflight = 0, maxMessages = 0, blocking = True,
       sub_closed = False, seq = 0\<rparr>)"

definition Group_Close :: "'m Group \<Rightarrow> 'm Group" where
  "Group_Close g = g\<lparr>closed := True, Commits := False\<rparr>"

subsection \<open>Subscription operations\<close>

definition SetSize :: "u32 \<Rightarrow> Subscription \<Rightarrow> Subscription" where
  "SetSize n s = s\<lparr>sub_size := n\<rparr>"

definition SetMaxMessages :: "u64 \<Rightarrow> Subscription \<Rightarrow> Subscription" where
  "SetMaxMessages n s = s\<lparr>maxMessages := n\<rparr>"

definition SetBlocking :: "bool \<Rightarrow> Subscription \<Rightarrow> Subscription" where
  "SetBlocking b s = s\<lparr>blocking := b\<rparr>"

text \<open>The lease up to the release of the mutex, with the message as it then stands in its slot.\<close>

definition lease :: "Subscription \<Rightarrow> nat \<Rightarrow> 'm Group \<Rightarrow> 'm Message call \<times> Subscription \<times> 'm Group" where
  "lease s i g =
     (let s' = s\<lparr>seq := seq s + 1, inflight := inflight s + 1\<rparr>;
          m = (messages g ! i)\<lparr>SubscriptionID := sub_ID s, SeqNo := seq s + 1\<rparr>
      in (Return m, s', g\<lparr>messages := (messages g)[i := m]\<rparr>))"

definition may_lease :: "Subscription \<Rightarrow> bool" where
  "may_lease s \<longleftrightarrow> (sub_size s = 0 \<or> inflight s < sub_size s) \<and> (maxMessages s = 0 \<or> seq s < maxMessages s)"

definition Next_pass :: "Subscription \<Rightarrow> 'm Group \<Rightarrow> 'm Message call \<times> Subscription \<times> 'm Group" where
  "Next_pass s g =
     (let i = (if may_lease s then find_slot (\<lambda>m. SubscriptionID m = ready) g else None)
      in case i of
           Some i \<Rightarrow> lease s i g
         | None \<Rightarrow>
             if may_lease s \<and> sub_closed s then (Fail ErrSubscriptionClosed, s, g)
             else if may_lease s \<and> g_read g = g_write g \<and> closed g then (Fail ErrGroupClosed, s, g)
             else if inflight s = 0 \<and> (\<not> blocking s \<or> maxMessages s \<noteq> 0 \<and> seq s \<ge> maxMessages s)
             then (Fail ErrEmpty, s, g)
             else (Wait, s, g))"

definition Next :: "Subscription \<Rightarrow> 'm Group \<Rightarrow> 'm Message call \<times> Subscription \<times> 'm Group" where
  "Next s g = (if sub_closed s then (Fail ErrSubscriptionClosed, s, g) else Next_pass s g)"

text \<open>The loop of \<open>Ack\<close> that frees acknowledged slots from \<open>read\<close> on: the freed slots and the new \<open>read\<close>.\<close>

fun free_acked :: "nat \<Rightarrow> 'm Message list \<Rightarrow> nat \<Rightarrow> nat \<Rightarrow> nat list \<times> nat" where
  "free_acked 0 ms w j = ([], j)"
| "free_acked (Suc fuel) ms w j =
     (if j \<noteq> w \<and> SubscriptionID (ms ! j) = ack
      then (case free_acked fuel ms w ((j + 1) mod length ms) of (js, r) \<Rightarrow> (j # js, r))
      else ([], j))"

definition commit_of :: "'m Message \<Rightarrow> Commit" where
  "commit_of m = \<lparr>commit_SegmentID = SegmentID m, commit_Offset = CommitOffset m\<rparr>"

definition leased_to :: "u64 \<Rightarrow> u64 \<Rightarrow> 'm Message \<Rightarrow> bool" where
  "leased_to i n m \<longleftrightarrow> SubscriptionID m = i \<and> SeqNo m = n"

text \<open>
  \<open>Ack\<close> up to the release of the mutex: it returns the slice of commits it has taken out of the ring.
\<close>

definition Ack :: "u64 \<Rightarrow> Subscription \<Rightarrow> 'm Group \<Rightarrow> Commit list call \<times> Subscription \<times> 'm Group" where
  "Ack seqNo s g =
     (if seqNo = 0 then (Fail ErrSeqNo, s, g)
      else case find_slot (leased_to (sub_ID s) seqNo) g of
        None \<Rightarrow> (Fail ErrNotLeased, s, g)
      | Some i \<Rightarrow>
          let ms = (messages g)[i := (messages g ! i)\<lparr>SubscriptionID := ack, SeqNo := zeroSeqNo\<rparr>];
              freed = free_acked (length ms) ms (g_write g) (g_read g);
              commits = (if Commits g then map (\<lambda>j. commit_of (ms ! j)) (fst freed) else [])
          in (Return commits, s\<lparr>inflight := inflight s - 1\<rparr>,
              g\<lparr>messages := fold (\<lambda>j ms. ms[j := Reset]) (fst freed) ms, g_read := snd freed\<rparr>))"

definition Nack :: "u64 \<Rightarrow> Subscription \<Rightarrow> 'm Group \<Rightarrow> unit call \<times> Subscription \<times> 'm Group" where
  "Nack seqNo s g =
     (if seqNo = 0 then (Fail ErrSeqNo, s, g)
      else case find_slot (leased_to (sub_ID s) seqNo) g of
        None \<Rightarrow> (Fail ErrNotLeased, s, g)
      | Some i \<Rightarrow>
          (Return (), s\<lparr>inflight := inflight s - 1\<rparr>,
           g\<lparr>messages := (messages g)[i := (messages g ! i)\<lparr>SubscriptionID := ready, SeqNo := zeroSeqNo\<rparr>]\<rparr>))"

definition release :: "u64 \<Rightarrow> 'm Message \<Rightarrow> 'm Message" where
  "release i m = (if SubscriptionID m = i then m\<lparr>SubscriptionID := ready, SeqNo := zeroSeqNo\<rparr> else m)"

definition Subscription_Close :: "Subscription \<Rightarrow> 'm Group \<Rightarrow> Subscription \<times> 'm Group" where
  "Subscription_Close s g =
     (s\<lparr>sub_closed := True\<rparr>,
      g\<lparr>messages := fold (\<lambda>j ms. ms[j := release (sub_ID s) (ms ! j)]) (ring_slots g) (messages g)\<rparr>)"

end
