(* ===== verification/Consumers_Queue.thy ===== *)
theory Consumers_Queue
  imports Consumers
begin

text \<open>
  The ring buffer of a consumer group as a queue: the invariant of the indices, the contents from
  \<open>read\<close> to \<open>write\<close>, and what each operation does to the contents.
\<close>

subsection \<open>Slots\<close>

definition ring_ok :: "'m Group \<Rightarrow> bool" where
  "ring_ok g \<longleftrightarrow> 2 \<le> length (messages g) \<and> g_read g < length (messages g) \<and> g_write g < length (messages g)"

lemma ring_mod_less [simp]: "ring_ok g \<Longrightarrow> x mod length (messages g) < length (messages g)"
  by (auto simp: ring_ok_def intro!: mod_less_divisor)

definition contents :: "'m Group \<Rightarrow> 'm Message list" where
  "contents g = map (nth (messages g)) (ring_slots g)"

definition gap :: "nat \<Rightarrow> nat \<Rightarrow> nat \<Rightarrow> nat" where
  "gap len j w = (if j \<le> w then w - j else w + len - j)"

lemma gap_next:
  assumes "j < len" "w < len" "j \<noteq> w"
  shows "gap len j w = Suc (gap len ((j + 1) mod len) w)" and "(j + 1) mod len < len"
  using assms by (auto simp: gap_def mod_Suc)

lemma gap_shift:
  "j < len \<Longrightarrow> w < len \<Longrightarrow> t \<le> gap len j w \<Longrightarrow> gap len ((j + t) mod len) w = gap len j w - t"
proof (induction t)
  case (Suc t)
  let ?j = "(j + t) mod len"
  have IH: "gap len ?j w = gap len j w - t" using Suc by simp
  have "?j \<noteq> w" using IH Suc.prems by (auto simp: gap_def split: if_splits)
  moreover have "?j < len" using Suc.prems(1) by (auto intro!: mod_less_divisor)
  ultimately have "gap len ?j w = Suc (gap len ((?j + 1) mod len) w)" using Suc.prems(2) gap_next(1) by blast
  then show ?case using IH by (simp add: mod_simps)
qed simp

lemma gap_zero: "j < len \<Longrightarrow> w < len \<Longrightarrow> gap len j w = 0 \<longleftrightarrow> j = w"
  by (auto simp: gap_def)

lemma gap_bound: "j < len \<Longrightarrow> w < len \<Longrightarrow> gap len j w < len"
  by (auto simp: gap_def)

lemma slots_shift: "(\<lambda>k. ((j + 1) mod len + k) mod len) = (\<lambda>k. (j + Suc k) mod len)" for len :: nat
  by (simp add: mod_simps)

lemma ring_from_eq:
  "j < len \<Longrightarrow> w < len \<Longrightarrow> gap len j w \<le> fuel \<Longrightarrow>
   ring_from fuel len w j = map (\<lambda>k. (j + k) mod len) [0..<gap len j w]"
proof (induction fuel arbitrary: j)
  case (Suc fuel)
  show ?case
  proof (cases "j = w")
    case False
    let ?j = "(j + 1) mod len"
    have g: "gap len j w = Suc (gap len ?j w)" "?j < len" using gap_next Suc.prems False by auto
    have "ring_from (Suc fuel) len w j = j # map (\<lambda>k. (?j + k) mod len) [0..<gap len ?j w]"
      using False g Suc by simp
    also have "\<dots> = map (\<lambda>k. (j + k) mod len) (0 # map Suc [0..<gap len ?j w])"
      using Suc.prems(1) by (simp add: slots_shift o_def del: One_nat_def)
    also have "0 # map Suc [0..<gap len ?j w] = [0..<gap len j w]"
      by (simp only: g(1) map_Suc_upt upt_conv_Cons [OF zero_less_Suc])
    finally show ?thesis .
  qed (use Suc.prems in \<open>simp add: gap_def\<close>)
qed (simp add: gap_zero)

definition used :: "'m Group \<Rightarrow> nat" where
  "used g = gap (length (messages g)) (g_read g) (g_write g)"

lemma ring_slots_eq:
  "ring_ok g \<Longrightarrow> ring_slots g = map (\<lambda>k. (g_read g + k) mod length (messages g)) [0..<used g]"
  unfolding ring_slots_def used_def
  by (rule ring_from_eq) (auto simp: ring_ok_def less_imp_le gap_bound)

lemma used_less: "ring_ok g \<Longrightarrow> used g < length (messages g)"
  by (simp add: used_def ring_ok_def gap_bound)

lemma length_ring_slots [simp]: "ring_ok g \<Longrightarrow> length (ring_slots g) = used g"
  by (simp add: ring_slots_eq)

lemma length_contents [simp]: "ring_ok g \<Longrightarrow> length (contents g) = used g"
  by (simp add: contents_def)

lemma ring_slots_nth [simp]:
  "ring_ok g \<Longrightarrow> k < used g \<Longrightarrow> ring_slots g ! k = (g_read g + k) mod length (messages g)"
  by (simp add: ring_slots_eq)

lemma mod_add_le:
  fixes r :: nat
  assumes "a \<le> b" "b < len" "(r + b) mod len = (r + a) mod len"
  shows "a = b"
proof -
  have "len dvd b - a" using assms mod_eq_dvd_iff_nat [of "r + a" "r + b" len] by simp
  moreover have "b - a < len" using assms(2) by simp
  ultimately show ?thesis using assms(1) by (metis diff_is_0_eq dvd_imp_le gr0I le_antisym not_le)
qed

lemma mod_add_inject: "a < len \<Longrightarrow> b < len \<Longrightarrow> (r + a) mod len = (r + b) mod len \<Longrightarrow> a = b" for r :: nat
  using mod_add_le [of a b len r] mod_add_le [of b a len r] by (cases "a \<le> b") auto

lemma distinct_ring_slots: "ring_ok g \<Longrightarrow> distinct (ring_slots g)"
proof -
  assume ok: "ring_ok g"
  have "inj_on (\<lambda>k. (g_read g + k) mod length (messages g)) {0..<used g}"
  proof (rule inj_onI)
    fix a b assume "a \<in> {0..<used g}" "b \<in> {0..<used g}"
      "(g_read g + a) mod length (messages g) = (g_read g + b) mod length (messages g)"
    then show "a = b" using used_less [OF ok] by (intro mod_add_inject [of a "length (messages g)" b "g_read g"]) auto
  qed
  then show "distinct (ring_slots g)" by (simp add: ring_slots_eq [OF ok] distinct_map)
qed

lemma ring_slots_bound: "ring_ok g \<Longrightarrow> j \<in> set (ring_slots g) \<Longrightarrow> j < length (messages g)"
  by (auto simp: ring_slots_eq ring_ok_def intro!: mod_less_divisor)

text \<open>The slots depend on the indices and the number of slots only.\<close>

lemma same_slots:
  "length (messages g') = length (messages g) \<Longrightarrow> g_read g' = g_read g \<Longrightarrow> g_write g' = g_write g \<Longrightarrow>
   ring_slots g' = ring_slots g \<and> ring_ok g' = ring_ok g"
  by (simp add: ring_slots_def ring_ok_def)

lemma contents_update:
  assumes "ring_ok g" and "k < used g"
  shows "contents (g\<lparr>messages := (messages g)[ring_slots g ! k := x]\<rparr>) = (contents g)[k := x]"
    and "ring_ok (g\<lparr>messages := (messages g)[i := x]\<rparr>) = ring_ok g"
proof -
  let ?g = "g\<lparr>messages := (messages g)[ring_slots g ! k := x]\<rparr>"
  have s: "ring_slots ?g = ring_slots g" using same_slots [of ?g g] by simp
  show "contents ?g = (contents g)[k := x]"
  proof (rule nth_equalityI)
    fix i assume "i < length (contents ?g)"
    then have i: "i < used g" using assms(1) by (simp add: contents_def s)
    have "ring_slots g ! i < length (messages g)" "ring_slots g ! k < length (messages g)"
      using i assms by simp_all
    moreover have "ring_slots g ! i = ring_slots g ! k \<longleftrightarrow> i = k"
      using distinct_ring_slots [OF assms(1)] i assms by (simp add: nth_eq_iff_index_eq del: ring_slots_nth)
    ultimately show "contents ?g ! i = (contents g)[k := x] ! i"
      using i assms by (auto simp: contents_def s nth_list_update simp del: ring_slots_nth)
  qed (simp add: contents_def s)
  show "ring_ok (g\<lparr>messages := (messages g)[i := x]\<rparr>) = ring_ok g" by (simp add: ring_ok_def)
qed

text \<open>Searching the slots is searching the contents.\<close>

lemma find_slot_Some:
  assumes "ring_ok g" and "find_slot P g = Some i"
  obtains k where "k < used g" "i = ring_slots g ! k" "P (contents g ! k)" "\<forall>j < k. \<not> P (contents g ! j)"
proof -
  from assms(2) obtain k where k: "k < length (ring_slots g)" "P (messages g ! (ring_slots g ! k))" "i = ring_slots g ! k"
    "\<forall>j < k. \<not> P (messages g ! (ring_slots g ! j))"
    unfolding find_slot_def find_Some_iff by blast
  then show ?thesis using that [of k] assms(1) by (simp add: contents_def del: ring_slots_nth)
qed

lemma find_slot_None: "ring_ok g \<Longrightarrow> find_slot P g = None \<longleftrightarrow> (\<forall>m \<in> set (contents g). \<not> P m)"
  by (auto simp: find_slot_def find_None_iff contents_def)

subsection \<open>Offering\<close>

lemma full_iff: "ring_ok g \<Longrightarrow> (g_write g + 1) mod length (messages g) = g_read g \<longleftrightarrow> used g = length (messages g) - 1"
  by (auto simp: ring_ok_def used_def gap_def mod_Suc split: if_splits)

lemma Offer_pass_contents:
  assumes ok: "ring_ok g" and room: "used g \<noteq> length (messages g) - 1" and g'_def: "g' = snd (Offer_pass m g)"
  shows "ring_ok g'" and "contents g' = contents g @ [m\<lparr>SubscriptionID := ready, SeqNo := zeroSeqNo\<rparr>]"
    and "ring_slots g' = ring_slots g @ [g_write g]"
proof -
  let ?L = "length (messages g)"
  let ?m = "m\<lparr>SubscriptionID := ready, SeqNo := zeroSeqNo\<rparr>"
  have nf: "(g_write g + 1) mod ?L \<noteq> g_read g" using full_iff [OF ok] room by simp
  then have g': "g' = g\<lparr>messages := (messages g)[g_write g := ?m], g_write := (g_write g + 1) mod ?L\<rparr>"
    by (simp add: g'_def Offer_pass_def)
  show ok': "ring_ok g'" using ok ring_mod_less [OF ok, of "g_write g + 1"] by (simp add: ring_ok_def g')
  have u: "used g' = Suc (used g)" using ok nf by (auto simp: used_def gap_def g' ring_ok_def mod_Suc split: if_splits)
  have w: "(g_read g + used g) mod ?L = g_write g"
    using ok by (auto simp: used_def gap_def ring_ok_def mod_if)
  show s: "ring_slots g' = ring_slots g @ [g_write g]"
    using w by (simp add: ring_slots_eq [OF ok'] ring_slots_eq [OF ok] u) (simp add: g')
  have "g_write g \<notin> set (ring_slots g)"
    using distinct_ring_slots [OF ok'] by (simp add: s)
  then show "contents g' = contents g @ [?m]"
    using ok unfolding contents_def s by (auto simp: g' ring_ok_def intro!: nth_list_update_neq)
qed

subsection \<open>Freeing acknowledged slots\<close>

abbreviation acked :: "'m Message \<Rightarrow> bool" where
  "acked m \<equiv> SubscriptionID m = ack"

lemma free_acked_eq:
  "j < length ms \<Longrightarrow> w < length ms \<Longrightarrow> gap (length ms) j w \<le> fuel \<Longrightarrow>
   free_acked fuel ms w j = (let js = takeWhile (\<lambda>i. acked (ms ! i)) (ring_from fuel (length ms) w j)
     in (js, (j + length js) mod length ms))"
proof (induction fuel arbitrary: j)
  case (Suc fuel)
  show ?case
  proof (cases "j \<noteq> w \<and> acked (ms ! j)")
    case True
    let ?j = "(j + 1) mod length ms"
    have g: "gap (length ms) j w = Suc (gap (length ms) ?j w)" "?j < length ms"
      using gap_next [of j "length ms" w] Suc.prems True by blast+
    have "free_acked fuel ms w ?j = (let js = takeWhile (\<lambda>i. acked (ms ! i)) (ring_from fuel (length ms) w ?j)
        in (js, (?j + length js) mod length ms))" using Suc.prems g by (intro Suc.IH) auto
    then show ?thesis using True by (simp add: Let_def mod_simps)
  qed (use Suc.prems in auto)
qed (simp add: gap_zero)

lemma fold_reset:
  "length (fold (\<lambda>j ms. ms[j := x]) js ms) = length ms"
  "i \<notin> set js \<Longrightarrow> fold (\<lambda>j ms. ms[j := x]) js ms ! i = ms ! i"
  by (induction js arbitrary: ms) auto

text \<open>A group whose slots from \<open>read\<close> on are freed while they are acknowledged.\<close>

definition reclaim :: "'m Group \<Rightarrow> 'm Group" where
  "reclaim g = (let freed = free_acked (length (messages g)) (messages g) (g_write g) (g_read g)
     in g\<lparr>messages := fold (\<lambda>j ms. ms[j := Reset]) (fst freed) (messages g), g_read := snd freed\<rparr>)"

lemma reclaim_contents:
  assumes ok: "ring_ok g"
  shows "ring_ok (reclaim g)" and "contents (reclaim g) = dropWhile acked (contents g)"
    and "map (nth (messages g)) (fst (free_acked (length (messages g)) (messages g) (g_write g) (g_read g))) = takeWhile acked (contents g)"
    and "ring_slots (reclaim g) = drop (length (takeWhile acked (contents g))) (ring_slots g)"
proof -
  let ?L = "length (messages g)" and ?s = "ring_slots g"
  define js where "js = takeWhile (\<lambda>i. acked (messages g ! i)) ?s"
  define t where "t = length (takeWhile acked (contents g))"
  have len: "length js = t" by (simp add: js_def t_def contents_def takeWhile_map o_def)
  have js: "js = take t ?s" "length js = t" "t \<le> used g"
    using takeWhile_eq_take [of "\<lambda>i. acked (messages g ! i)" ?s] len length_takeWhile_le [of acked "contents g"] ok
    by (simp_all add: js_def [symmetric] t_def [symmetric])
  have fr: "free_acked ?L (messages g) (g_write g) (g_read g) = (js, (g_read g + t) mod ?L)"
    using free_acked_eq [of "g_read g" "messages g" "g_write g" ?L] ok js(2) used_less [OF ok]
    by (simp add: ring_ok_def used_def js_def ring_slots_def Let_def)
  then show "map (nth (messages g)) (fst (free_acked ?L (messages g) (g_write g) (g_read g))) = takeWhile acked (contents g)"
    by (simp add: js_def contents_def takeWhile_map o_def)
  let ?g = "reclaim g"
  have g: "?g = g\<lparr>messages := fold (\<lambda>j ms. ms[j := Reset]) js (messages g), g_read := (g_read g + t) mod ?L\<rparr>"
    by (simp add: reclaim_def fr)
  show ok': "ring_ok ?g" using ok ring_mod_less [OF ok, of "g_read g + t"] by (simp add: ring_ok_def g fold_reset)
  have u: "used ?g = used g - t"
    using js(3) ok gap_shift [of "g_read g" ?L "g_write g" t] by (simp add: used_def g fold_reset ring_ok_def)
  have s: "ring_slots ?g = drop t ?s"
  proof (rule nth_equalityI)
    fix k assume "k < length (ring_slots ?g)"
    then have k: "k < used g - t" using ok' u by simp
    then have "ring_slots ?g ! k = ((g_read g + t) mod ?L + k) mod ?L" using ok' u by (simp add: g fold_reset)
    also have "\<dots> = (g_read g + (t + k)) mod ?L" by (simp add: mod_add_left_eq add.assoc)
    also have "\<dots> = drop t ?s ! k" using k ok js(3) by simp
    finally show "ring_slots ?g ! k = drop t ?s ! k" .
  qed (use ok ok' u in simp)
  then show "ring_slots ?g = drop (length (takeWhile acked (contents g))) ?s" by (simp add: t_def)
  have "i \<notin> set js" if "i \<in> set (drop t ?s)" for i
    using that distinct_ring_slots [OF ok] set_take_disj_set_drop_if_distinct [of ?s t t] by (auto simp: js(1))
  then have "contents ?g = drop t (contents g)"
    unfolding contents_def s by (auto simp: drop_map g fold_reset)
  also have "\<dots> = dropWhile acked (contents g)" by (simp add: t_def dropWhile_eq_drop)
  finally show "contents ?g = dropWhile acked (contents g)" .
qed

subsection \<open>Operations of a subscription\<close>

abbreviation leased_by :: "Subscription \<Rightarrow> 'm Message \<Rightarrow> 'm Message" where
  "leased_by s m \<equiv> m\<lparr>SubscriptionID := sub_ID s, SeqNo := seq s + 1\<rparr>"

abbreviation made_ready :: "'m Message \<Rightarrow> 'm Message" where
  "made_ready m \<equiv> m\<lparr>SubscriptionID := ready, SeqNo := zeroSeqNo\<rparr>"

abbreviation made_acked :: "'m Message \<Rightarrow> 'm Message" where
  "made_acked m \<equiv> m\<lparr>SubscriptionID := ack, SeqNo := zeroSeqNo\<rparr>"

lemma lease_contents:
  assumes ok: "ring_ok g" and k: "k < used g" and l: "lease s (ring_slots g ! k) g = (c, s', g')"
  shows "ring_ok g'" and "contents g' = (contents g)[k := leased_by s (contents g ! k)]"
    and "c = Return (leased_by s (contents g ! k))" and "s' = s\<lparr>seq := seq s + 1, inflight := inflight s + 1\<rparr>"
    and "Commits g' = Commits g" and "length (messages g') = length (messages g)" and "ring_slots g' = ring_slots g"
proof -
  have m: "messages g ! (ring_slots g ! k) = contents g ! k" using ok k by (simp add: contents_def del: ring_slots_nth)
  have g': "g' = g\<lparr>messages := (messages g)[ring_slots g ! k := leased_by s (contents g ! k)]\<rparr>"
    using l unfolding lease_def Let_def m by simp
  show "ring_ok g'" "contents g' = (contents g)[k := leased_by s (contents g ! k)]"
    using contents_update [OF ok k] ok unfolding g' by simp_all
  show "c = Return (leased_by s (contents g ! k))" "s' = s\<lparr>seq := seq s + 1, inflight := inflight s + 1\<rparr>"
    using l unfolding lease_def Let_def m by simp_all
  show "Commits g' = Commits g" "length (messages g') = length (messages g)" "ring_slots g' = ring_slots g"
    by (simp_all add: g' ring_slots_def)
qed

text \<open>\<open>Next\<close> leases the oldest ready message, or changes nothing.\<close>

lemma Next_pass_cases:
  assumes ok: "ring_ok g" and n: "Next_pass s g = (c, s', g')"
  obtains (leased) k where "may_lease s" "k < used g" "SubscriptionID (contents g ! k) = ready"
      "\<forall>j < k. SubscriptionID (contents g ! j) \<noteq> ready"
      "contents g' = (contents g)[k := leased_by s (contents g ! k)]" "c = Return (leased_by s (contents g ! k))"
      "s' = s\<lparr>seq := seq s + 1, inflight := inflight s + 1\<rparr>" "ring_ok g'" "Commits g' = Commits g"
      "length (messages g') = length (messages g)" "ring_slots g' = ring_slots g"
  | (unchanged) "s' = s" "g' = g" "\<And>m. c \<noteq> Return m" "\<not> may_lease s \<or> (\<forall>m \<in> set (contents g). SubscriptionID m \<noteq> ready)"
proof (cases "may_lease s \<and> find_slot (\<lambda>m. SubscriptionID m = ready) g \<noteq> None")
  case True
  then obtain i where i: "find_slot (\<lambda>m. SubscriptionID m = ready) g = Some i" by auto
  obtain k where k: "k < used g" "i = ring_slots g ! k" "SubscriptionID (contents g ! k) = ready"
    "\<forall>j < k. SubscriptionID (contents g ! j) \<noteq> ready" using find_slot_Some [OF ok i] .
  have "lease s (ring_slots g ! k) g = (c, s', g')"
    using n True i by (simp add: Next_pass_def k(2) Let_def del: ring_slots_nth)
  from lease_contents [OF ok k(1) this] show ?thesis using True k leased by blast
next
  case False
  then have "\<not> may_lease s \<or> (\<forall>m \<in> set (contents g). SubscriptionID m \<noteq> ready)" by (auto simp: find_slot_None [OF ok])
  moreover have "s' = s \<and> g' = g \<and> (\<forall>m. c \<noteq> Return m)"
    using n False by (auto simp: Next_pass_def Let_def split: if_splits option.splits)
  ultimately show ?thesis using unchanged by blast
qed

text \<open>\<open>Ack\<close> marks the message, frees the acknowledged prefix and commits it in order.\<close>

lemma Ack_cases:
  assumes ok: "ring_ok g" and a: "Ack n s g = (c, s', g')"
  obtains (acked) k q where "n \<noteq> 0" "k < used g" "leased_to (sub_ID s) n (contents g ! k)"
      "q = (contents g)[k := made_acked (contents g ! k)]" "contents g' = dropWhile acked q"
      "c = Return (if Commits g then map commit_of (takeWhile acked q) else [])"
      "s' = s\<lparr>inflight := inflight s - 1\<rparr>" "ring_ok g'" "Commits g' = Commits g"
      "length (messages g') = length (messages g)" "\<forall>j < k. \<not> leased_to (sub_ID s) n (contents g ! j)"
  | (rejected) "s' = s" "g' = g" "c = Fail ErrSeqNo \<or> c = Fail ErrNotLeased"
proof (cases "n \<noteq> 0 \<and> find_slot (leased_to (sub_ID s) n) g \<noteq> None")
  case True
  then obtain i where i: "find_slot (leased_to (sub_ID s) n) g = Some i" by auto
  obtain k where k: "k < used g" "i = ring_slots g ! k" "leased_to (sub_ID s) n (contents g ! k)"
    "\<forall>j < k. \<not> leased_to (sub_ID s) n (contents g ! j)"
    using find_slot_Some [OF ok i] .
  define h where "h = g\<lparr>messages := (messages g)[ring_slots g ! k := made_acked (contents g ! k)]\<rparr>"
  have m: "messages g ! (ring_slots g ! k) = contents g ! k" using ok k by (simp add: contents_def del: ring_slots_nth)
  have h: "ring_ok h" "contents h = (contents g)[k := made_acked (contents g ! k)]"
    using contents_update [OF ok k(1)] ok unfolding h_def by simp_all
  have fr: "map (\<lambda>j. commit_of (messages h ! j)) (fst (free_acked (length (messages h)) (messages h) (g_write h) (g_read h)))
      = map commit_of (takeWhile acked (contents h))"
    using arg_cong [OF reclaim_contents(3) [OF h(1)], of "map commit_of"] by (simp add: o_def)
  have "g' = reclaim h" "s' = s\<lparr>inflight := inflight s - 1\<rparr>"
    "c = Return (if Commits g then map commit_of (takeWhile acked (contents h)) else [])"
    using a True i m fr [unfolded h_def]
    by (auto simp: Ack_def Let_def k(2) reclaim_def h_def simp del: ring_slots_nth)
  moreover have "Commits (reclaim h) = Commits g" "length (messages (reclaim h)) = length (messages g)"
    by (simp_all add: reclaim_def Let_def fold_reset h_def)
  ultimately show ?thesis using acked True k reclaim_contents(1,2) [OF h(1)] h(2) by metis
next
  case False
  then show ?thesis using a rejected by (auto simp: Ack_def split: if_splits)
qed

lemma Nack_cases:
  assumes ok: "ring_ok g" and a: "Nack n s g = (c, s', g')"
  obtains (returned) k where "n \<noteq> 0" "k < used g" "leased_to (sub_ID s) n (contents g ! k)"
      "contents g' = (contents g)[k := made_ready (contents g ! k)]" "c = Return ()"
      "s' = s\<lparr>inflight := inflight s - 1\<rparr>" "ring_ok g'" "Commits g' = Commits g"
      "length (messages g') = length (messages g)"
  | (rejected) "s' = s" "g' = g" "c = Fail ErrSeqNo \<or> c = Fail ErrNotLeased"
proof (cases "n \<noteq> 0 \<and> find_slot (leased_to (sub_ID s) n) g \<noteq> None")
  case True
  then obtain i where i: "find_slot (leased_to (sub_ID s) n) g = Some i" by auto
  obtain k where k: "k < used g" "i = ring_slots g ! k" "leased_to (sub_ID s) n (contents g ! k)"
    using find_slot_Some [OF ok i] .
  have m: "messages g ! (ring_slots g ! k) = contents g ! k" using ok k by (simp add: contents_def del: ring_slots_nth)
  have "g' = g\<lparr>messages := (messages g)[ring_slots g ! k := made_ready (contents g ! k)]\<rparr>"
    "c = Return ()" "s' = s\<lparr>inflight := inflight s - 1\<rparr>"
    using a True i m by (auto simp: Nack_def k(2) simp del: ring_slots_nth)
  then show ?thesis using returned [of k] True k contents_update [OF ok k(1)] ok by simp
next
  case False
  then show ?thesis using a rejected by (auto simp: Nack_def split: if_splits)
qed

lemma fold_slots:
  fixes f :: "'a \<Rightarrow> 'a"
  assumes "distinct js" and "\<forall>j \<in> set js. j < length ms"
    and ms'_def: "ms' = fold (\<lambda>j ms. ms[j := f (ms ! j)]) js ms"
  shows "length ms' = length ms" and "map (nth ms') js = map (\<lambda>j. f (ms ! j)) js"
    and "\<And>i. i \<notin> set js \<Longrightarrow> ms' ! i = ms ! i"
proof -
  have "length ms' = length ms \<and> map (nth ms') js = map (\<lambda>j. f (ms ! j)) js \<and> (\<forall>i. i \<notin> set js \<longrightarrow> ms' ! i = ms ! i)"
    using assms(1,2) unfolding ms'_def
  proof (induction js arbitrary: ms)
    case (Cons j js)
    let ?ms = "ms[j := f (ms ! j)]"
    have IH: "length (fold (\<lambda>j ms. ms[j := f (ms ! j)]) js ?ms) = length ms"
      "map (nth (fold (\<lambda>j ms. ms[j := f (ms ! j)]) js ?ms)) js = map (\<lambda>j. f (?ms ! j)) js"
      "\<forall>i. i \<notin> set js \<longrightarrow> fold (\<lambda>j ms. ms[j := f (ms ! j)]) js ?ms ! i = ?ms ! i"
      using Cons.IH [of ?ms] Cons.prems by simp_all
    moreover have "map (\<lambda>j. f (?ms ! j)) js = map (\<lambda>j. f (ms ! j)) js"
      using Cons.prems(1) by (intro map_cong) (auto intro!: arg_cong [of _ _ f] nth_list_update_neq)
    ultimately show ?case using Cons.prems by simp
  qed simp
  then show "length ms' = length ms" "map (nth ms') js = map (\<lambda>j. f (ms ! j)) js"
    "\<And>i. i \<notin> set js \<Longrightarrow> ms' ! i = ms ! i" by blast+
qed

lemma Subscription_Close_contents:
  assumes ok: "ring_ok g" and c: "Subscription_Close s g = (s', g')"
  shows "ring_ok g'" and "contents g' = map (release (sub_ID s)) (contents g)" and "s' = s\<lparr>sub_closed := True\<rparr>"
    and "Commits g' = Commits g" and "length (messages g') = length (messages g)"
proof -
  define ms where "ms = fold (\<lambda>j ms. ms[j := release (sub_ID s) (ms ! j)]) (ring_slots g) (messages g)"
  have g': "g' = g\<lparr>messages := ms\<rparr>" "s' = s\<lparr>sub_closed := True\<rparr>"
    using c by (simp_all add: Subscription_Close_def ms_def)
  have f: "length ms = length (messages g)"
    "map (nth ms) (ring_slots g) = map (\<lambda>j. release (sub_ID s) (messages g ! j)) (ring_slots g)"
    using fold_slots(1,2) [OF distinct_ring_slots [OF ok] _ ms_def] ring_slots_bound [OF ok] by simp_all
  have s: "ring_slots g' = ring_slots g" "ring_ok g' = ring_ok g" using same_slots [of g' g] f(1) by (simp_all add: g')
  then show "ring_ok g'" using ok by simp
  show "contents g' = map (release (sub_ID s)) (contents g)"
    using f(2) unfolding contents_def s by (simp add: g' o_def)
  show "s' = s\<lparr>sub_closed := True\<rparr>" "Commits g' = Commits g" "length (messages g') = length (messages g)"
    using f(1) by (simp_all add: g')
qed

end
