(* ===== verification/Consumers_System.thy ===== *)
theory Consumers_System
  imports Consumers_Queue
begin

text \<open>
  A consumer group together with its subscriptions, as the calls of any number of goroutines drive
  it: every operation is one pass under the group's mutex. \<open>WakeOffer\<close> and \<open>WakeNext\<close> are the
  passes that a waiting call makes when the condition variable is signalled; they skip the checks
  that the calls make before they take the lock. The counter of subscription identifiers is shared by all groups, so
  \<open>Do_SubscribeElsewhere\<close> is a call of \<open>Subscribe\<close> on another group. The interface \<open>in_order_log\<close> says what the users of
  a queue rely on: what comes out, in order, is what went in.
\<close>

subsection \<open>The interface of an ordered log\<close>

fun run_steps :: "('op \<Rightarrow> 's \<Rightarrow> 'e \<times> 's) \<Rightarrow> 'op list \<Rightarrow> 's \<Rightarrow> 'e list \<times> 's" where
  "run_steps step [] s = ([], s)"
| "run_steps step (op # ops) s = (let (e, s') = step op s; (es, s'') = run_steps step ops s' in (e # es, s''))"

locale in_order_log =
  fixes step :: "'op \<Rightarrow> 's \<Rightarrow> 'e \<times> 's"
    and ins outs :: "'e \<Rightarrow> 'a list"
    and pending :: "'s \<Rightarrow> 'a list"
    and inv live :: "'s \<Rightarrow> bool"
  assumes inv_step: "inv s \<Longrightarrow> inv (snd (step op s))"
    and live_step: "inv s \<Longrightarrow> live (snd (step op s)) \<Longrightarrow> live s"
    and order_step: "inv s \<Longrightarrow> live s \<Longrightarrow> step op s = (e, s') \<Longrightarrow> pending s @ ins e = outs e @ pending s'"
begin

lemma run_inv: "inv s \<Longrightarrow> inv (snd (run_steps step ops s))"
proof (induction ops arbitrary: s)
  case (Cons op ops)
  have "inv (snd (step op s))" using Cons.prems by (rule inv_step)
  from Cons.IH [OF this] show ?case by (simp add: split_beta)
qed simp

lemma run_live: "inv s \<Longrightarrow> live (snd (run_steps step ops s)) \<Longrightarrow> live s"
proof (induction ops arbitrary: s)
  case (Cons op ops)
  have "live (snd (run_steps step ops (snd (step op s))))" using Cons.prems(2) by (simp add: split_beta)
  from live_step [OF Cons.prems(1) Cons.IH [OF inv_step [OF Cons.prems(1)] this]] show ?case .
qed simp

lemma run_order:
  "inv s \<Longrightarrow> run_steps step ops s = (es, s') \<Longrightarrow> live s' \<Longrightarrow> pending s @ concat (map ins es) = concat (map outs es) @ pending s'"
proof (induction ops arbitrary: s es)
  case (Cons op ops)
  obtain e t es' where step: "step op s = (e, t)" and run: "run_steps step ops t = (es', s')" and es: "es = e # es'"
    using Cons.prems(2) by (auto simp: Let_def split: prod.splits)
  have t: "inv t" using inv_step [OF Cons.prems(1), of op] step by simp
  then have "live t" using run_live [of t ops] run Cons.prems(3) by simp
  then have l: "live s" using live_step [OF Cons.prems(1), of op] step by simp
  from Cons.IH [OF t run Cons.prems(3)] have IH: "pending t @ concat (map ins es') = concat (map outs es') @ pending s'" .
  have "pending s @ concat (map ins es) = (pending s @ ins e) @ concat (map ins es')" by (simp add: es)
  also have "\<dots> = outs e @ pending t @ concat (map ins es')" using order_step [OF Cons.prems(1) l step] by simp
  finally show ?case using IH by (simp add: es)
qed simp

end

subsection \<open>A group and its subscriptions\<close>

record 'm consumers =
  group :: "'m Group"
  subs :: "u64 \<Rightarrow> Subscription option"
  currentSubscriptionID :: u64

datatype 'm consumer_op =
    Do_Offer "'m Message" | WakeOffer "'m Message" | Do_Subscribe | Do_SubscribeElsewhere | Do_Next u64 | WakeNext u64
  | Do_Ack u64 u64 | Do_Nack u64 u64 | Do_Close u64 | Do_SetSize u64 u32 | Do_SetMaxMessages u64 u64
  | Do_SetBlocking u64 bool | Do_GroupClose

datatype 'm consumer_event = Accepted "'m Message" | Leased "'m Message" | Acknowledged "Commit list" | Quiet

definition put_sub :: "u64 \<Rightarrow> 'm consumers \<Rightarrow> Subscription \<times> 'm Group \<Rightarrow> 'm consumers" where
  "put_sub i S p = S\<lparr>group := snd p, subs := (subs S)(i \<mapsto> fst p)\<rparr>"

definition event_of :: "('a \<Rightarrow> 'm consumer_event) \<Rightarrow> 'a call \<Rightarrow> 'm consumer_event" where
  "event_of f c = (case c of Return x \<Rightarrow> f x | Fail e \<Rightarrow> Quiet | Wait \<Rightarrow> Quiet)"

lemma event_of_simps [simp]:
  "event_of f (Return x) = f x" "event_of f (Fail e) = Quiet" "event_of f Wait = Quiet"
  by (simp_all add: event_of_def)

definition on_sub :: "u64 \<Rightarrow> 'm consumers \<Rightarrow> ('a \<Rightarrow> 'm consumer_event) \<Rightarrow>
    (Subscription \<Rightarrow> 'm Group \<Rightarrow> 'a call \<times> Subscription \<times> 'm Group) \<Rightarrow> 'm consumer_event \<times> 'm consumers" where
  "on_sub i S f act = (case subs S i of None \<Rightarrow> (Quiet, S)
     | Some s \<Rightarrow> let (c, p) = act s (group S) in (event_of f c, put_sub i S p))"

fun consumer_step :: "'m consumer_op \<Rightarrow> 'm consumers \<Rightarrow> 'm consumer_event \<times> 'm consumers" where
  "consumer_step (Do_Offer m) S = (let (c, g) = Offer m (group S) in (event_of (\<lambda>_. Accepted m) c, S\<lparr>group := g\<rparr>))"
| "consumer_step (WakeOffer m) S = (let (c, g) = Offer_pass m (group S) in (event_of (\<lambda>_. Accepted m) c, S\<lparr>group := g\<rparr>))"
| "consumer_step Do_Subscribe S = (let (i, s) = Subscribe (currentSubscriptionID S)
     in (Quiet, S\<lparr>subs := (subs S)(i \<mapsto> s), currentSubscriptionID := i\<rparr>))"
| "consumer_step Do_SubscribeElsewhere S = (Quiet, S\<lparr>currentSubscriptionID := fst (Subscribe (currentSubscriptionID S))\<rparr>)"
| "consumer_step (Do_Next i) S = on_sub i S Leased Next"
| "consumer_step (WakeNext i) S = on_sub i S Leased Next_pass"
| "consumer_step (Do_Ack i n) S = on_sub i S Acknowledged (Ack n)"
| "consumer_step (Do_Nack i n) S = on_sub i S (\<lambda>_. Quiet) (Nack n)"
| "consumer_step (Do_Close i) S = on_sub i S (\<lambda>_. Quiet) (\<lambda>s g. (Return (), Subscription_Close s g))"
| "consumer_step (Do_SetSize i n) S = on_sub i S (\<lambda>_. Quiet) (\<lambda>s g. (Return (), SetSize n s, g))"
| "consumer_step (Do_SetMaxMessages i n) S = on_sub i S (\<lambda>_. Quiet) (\<lambda>s g. (Return (), SetMaxMessages n s, g))"
| "consumer_step (Do_SetBlocking i b) S = on_sub i S (\<lambda>_. Quiet) (\<lambda>s g. (Return (), SetBlocking b s, g))"
| "consumer_step Do_GroupClose S = (Quiet, S\<lparr>group := Group_Close (group S)\<rparr>)"

abbreviation consumer_run :: "'m consumer_op list \<Rightarrow> 'm consumers \<Rightarrow> 'm consumer_event list \<times> 'm consumers" where
  "consumer_run \<equiv> run_steps consumer_step"

definition new_consumers :: "nat \<Rightarrow> 'm consumers" where
  "new_consumers n = \<lparr>group = (projr (NewGroup (int n)))\<lparr>Commits := True\<rparr>, subs = Map.empty, currentSubscriptionID = 0\<rparr>"

fun accepted :: "'m consumer_event \<Rightarrow> Commit list" where
  "accepted (Accepted m) = [commit_of m]"
| "accepted (Leased m) = []"
| "accepted (Acknowledged cs) = []"
| "accepted Quiet = []"

fun committed :: "'m consumer_event \<Rightarrow> Commit list" where
  "committed (Acknowledged cs) = cs"
| "committed (Accepted m) = []"
| "committed (Leased m) = []"
| "committed Quiet = []"

definition pending_commits :: "'m consumers \<Rightarrow> Commit list" where
  "pending_commits S = map commit_of (contents (group S))"

subsection \<open>Order of the commits\<close>

lemma Offer_pass_cases:
  assumes ok: "ring_ok g" and o: "Offer_pass m g = (c, g')"
  obtains (accepted) "used g < length (messages g) - 1" "c = Return ()" "ring_ok g'" "contents g' = contents g @ [made_ready m]"
      "Commits g' = Commits g" "length (messages g') = length (messages g)"
  | (rejected) "used g = length (messages g) - 1" "g' = g" "c = (if closed g then Fail ErrGroupClosed else Wait)"
proof (cases "used g = length (messages g) - 1")
  case True
  then show ?thesis using o rejected full_iff [OF ok] by (simp add: Offer_pass_def split: if_splits)
next
  case False
  have "used g < length (messages g) - 1" using False used_less [OF ok] by simp
  moreover have "c = Return ()" "Commits g' = Commits g" "length (messages g') = length (messages g)"
    using o False full_iff [OF ok] by (auto simp: Offer_pass_def split: if_splits)
  ultimately show ?thesis using Offer_pass_contents [OF ok False, of g' m] o accepted by simp
qed

lemma commit_of_marks [simp]: "commit_of (m\<lparr>SubscriptionID := i, SeqNo := n\<rparr>) = commit_of m"
  by (simp add: commit_of_def)

lemma commit_of_update [simp]: "commit_of x = commit_of (q ! k) \<Longrightarrow> map commit_of (q[k := x]) = map commit_of q"
  by (metis list_update_id map_update nth_map list_update_beyond not_le length_map)

lemma commit_of_release [simp]: "commit_of (release i m) = commit_of m"
  by (simp add: release_def)

text \<open>What a pass under the lock keeps of the group: the commits it emits precede those still held.\<close>

definition keeps :: "'m Group \<Rightarrow> Commit list \<Rightarrow> 'm Group \<Rightarrow> bool" where
  "keeps g cs g' \<longleftrightarrow> ring_ok g' \<and> Commits g' = Commits g \<and>
     (Commits g \<longrightarrow> map commit_of (contents g) = cs @ map commit_of (contents g'))"

lemma keeps_refl: "ring_ok g \<Longrightarrow> keeps g [] g"
  by (simp add: keeps_def)

lemma Next_pass_keeps: "ring_ok g \<Longrightarrow> Next_pass s g = (c, s', g') \<Longrightarrow> keeps g [] g'"
  using Next_pass_cases [of g s c s' g' "keeps g [] g'"] by (simp add: keeps_def)

lemma Next_keeps: "ring_ok g \<Longrightarrow> Next s g = (c, s', g') \<Longrightarrow> keeps g [] g'"
  by (auto simp: Next_def keeps_refl Next_pass_keeps split: if_splits)

lemma Nack_keeps: "ring_ok g \<Longrightarrow> Nack n s g = (c, s', g') \<Longrightarrow> keeps g [] g'"
  using Nack_cases [of g n s c s' g' "keeps g [] g'"] by (simp add: keeps_def)

lemma Close_keeps: "ring_ok g \<Longrightarrow> Subscription_Close s g = (s', g') \<Longrightarrow> keeps g [] g'"
  by (simp add: keeps_def Subscription_Close_contents o_def)

lemma Ack_keeps:
  assumes ok: "ring_ok g" and a: "Ack n s g = (c, s', g')"
  shows "keeps g (committed (event_of Acknowledged c)) g'"
  using ok a
proof (cases rule: Ack_cases)
  case (acked k q)
  have "map commit_of (contents g) = map commit_of q" using acked(4) by simp
  also have "\<dots> = map commit_of (takeWhile acked q) @ map commit_of (dropWhile acked q)"
    by (simp flip: map_append)
  finally show ?thesis using acked by (simp add: keeps_def)
qed (auto simp: keeps_refl ok)

text \<open>The same of a step of the whole system, with the messages it accepts.\<close>

definition step_keeps :: "'m consumers \<Rightarrow> 'm consumer_event \<Rightarrow> 'm consumers \<Rightarrow> bool" where
  "step_keeps S e S' \<longleftrightarrow> ring_ok (group S') \<and> (Commits (group S') \<longrightarrow> Commits (group S)) \<and>
     (Commits (group S) \<longrightarrow> pending_commits S @ accepted e = committed e @ pending_commits S')"

lemma event_lists [simp]: "accepted (event_of Leased c) = []" "committed (event_of Leased c) = []"
  "accepted (event_of Acknowledged c') = []" "accepted (event_of (\<lambda>_. Quiet) c'') = []" "committed (event_of (\<lambda>_. Quiet) c'') = []"
  by (simp_all add: event_of_def split: call.splits)

lemma on_sub_keeps:
  assumes ok: "ring_ok (group S)" and e: "on_sub i S f act = (e, S')"
    and act: "\<And>s c s' g'. act s (group S) = (c, s', g') \<Longrightarrow> keeps (group S) (committed (event_of f c)) g'"
    and f: "\<And>c. accepted (event_of f c) = []"
  shows "step_keeps S e S'"
proof (cases "subs S i")
  case (Some s)
  obtain c s' g' where a: "act s (group S) = (c, s', g')" by (metis prod.exhaust)
  have "e = event_of f c" "group S' = g'" using e Some a by (auto simp: on_sub_def put_sub_def)
  then show ?thesis using act [OF a] f by (simp add: step_keeps_def keeps_def pending_commits_def)
qed (use ok e in \<open>auto simp: on_sub_def step_keeps_def\<close>)

lemma offer_keeps:
  assumes ok: "ring_ok (group S)" and e: "(let (c, g) = Offer_pass m (group S) in (event_of (\<lambda>_. Accepted m) c, S\<lparr>group := g\<rparr>)) = (e, S')"
  shows "step_keeps S e S'"
proof -
  obtain c g where o: "Offer_pass m (group S) = (c, g)" by fastforce
  have S': "e = event_of (\<lambda>_. Accepted m) c" "S' = S\<lparr>group := g\<rparr>" using e o by simp_all
  from ok o show ?thesis
    by (cases rule: Offer_pass_cases) (simp_all add: S' step_keeps_def pending_commits_def ok)
qed

lemma consumer_step_keeps:
  assumes ok: "ring_ok (group S)" and e: "consumer_step op S = (e, S')"
  shows "step_keeps S e S'"
proof (cases op)
  case (Do_Offer m)
  show ?thesis
  proof (cases "closed (group S)")
    case False
    then show ?thesis using offer_keeps [OF ok, of m e S'] e Do_Offer by (simp add: Offer_def)
  qed (use e Do_Offer ok in \<open>auto simp: Offer_def pending_commits_def step_keeps_def\<close>)
next
  case (WakeOffer m)
  then show ?thesis using offer_keeps [OF ok, of m e S'] e by simp
next
  case Do_GroupClose
  then show ?thesis using e ok by (auto simp: step_keeps_def Group_Close_def pending_commits_def ring_ok_def contents_def ring_slots_def)
next
  case (Do_Ack i n)
  show ?thesis using e unfolding Do_Ack consumer_step.simps by (rule on_sub_keeps [OF ok]) (auto dest: Ack_keeps [OF ok])
next
  case (Do_Next i)
  show ?thesis using e unfolding Do_Next consumer_step.simps by (rule on_sub_keeps [OF ok]) (auto dest: Next_keeps [OF ok])
next
  case (WakeNext i)
  show ?thesis using e unfolding WakeNext consumer_step.simps by (rule on_sub_keeps [OF ok]) (auto dest: Next_pass_keeps [OF ok])
next
  case (Do_Nack i n)
  show ?thesis using e unfolding Do_Nack consumer_step.simps by (rule on_sub_keeps [OF ok]) (auto dest: Nack_keeps [OF ok])
next
  case (Do_Close i)
  show ?thesis using e unfolding Do_Close consumer_step.simps by (rule on_sub_keeps [OF ok]) (auto dest: Close_keeps [OF ok])
next
  case Do_Subscribe
  then show ?thesis using e ok by (auto simp: step_keeps_def Subscribe_def pending_commits_def)
next
  case Do_SubscribeElsewhere
  then show ?thesis using e ok by (auto simp: step_keeps_def pending_commits_def)
next
  case (Do_SetSize i n)
  show ?thesis using e unfolding Do_SetSize consumer_step.simps by (rule on_sub_keeps [OF ok]) (auto simp: keeps_refl ok)
next
  case (Do_SetMaxMessages i n)
  show ?thesis using e unfolding Do_SetMaxMessages consumer_step.simps by (rule on_sub_keeps [OF ok]) (auto simp: keeps_refl ok)
next
  case (Do_SetBlocking i b)
  show ?thesis using e unfolding Do_SetBlocking consumer_step.simps by (rule on_sub_keeps [OF ok]) (auto simp: keeps_refl ok)
qed

interpretation log: in_order_log consumer_step accepted committed pending_commits
  "\<lambda>S. ring_ok (group S)" "\<lambda>S. Commits (group S)"
proof unfold_locales
  fix S :: "'a consumers" and op e S'
  show "ring_ok (group S) \<Longrightarrow> ring_ok (group (snd (consumer_step op S)))"
    using consumer_step_keeps [of S op "fst (consumer_step op S)" "snd (consumer_step op S)"] by (simp add: step_keeps_def)
  show "ring_ok (group S) \<Longrightarrow> Commits (group S) \<Longrightarrow> consumer_step op S = (e, S') \<Longrightarrow>
      pending_commits S @ accepted e = committed e @ pending_commits S'"
    using consumer_step_keeps [of S op e S'] by (simp add: step_keeps_def)
  show "ring_ok (group S) \<Longrightarrow> Commits (group (snd (consumer_step op S))) \<Longrightarrow> Commits (group S)"
    using consumer_step_keeps [of S op "fst (consumer_step op S)" "snd (consumer_step op S)"] by (simp add: step_keeps_def)
qed

end
