(* ===== verification/Consumers_Calls.thy ===== *)
theory Consumers_Calls
  imports Consumers_System "HOL-Library.Multiset"
begin

text \<open>
  What the calls on a consumer group do after they have released its mutex. \<open>Ack\<close> takes its commits
  out of the ring under the lock, into a slice of its own, and sends them to the channel one at a time
  afterwards; \<open>Next\<close> copies the message out of its slot. Both parts interleave with
  the steps of every other call. \<open>merged\<close> says that a list is an interleaving of others, and the
  lemmas on slots say which steps leave a leased slot alone.
\<close>

subsection \<open>Sending the commits\<close>

text \<open>One slice of commits for every call of \<open>Ack\<close> that has released the lock, in the order of the calls.\<close>

record 'm acking =
  locked :: "'m consumers"
  outboxes :: "Commit list list"

datatype 'm acking_op = Under_Lock "'m consumer_op" | Ack_send nat

fun outbox :: "'m consumer_event \<Rightarrow> Commit list list" where
  "outbox (Acknowledged cs) = [cs]"
| "outbox (Accepted m) = []"
| "outbox (Leased m) = []"
| "outbox Quiet = []"

text \<open>A step returns the event under the lock and the commits that it sends to the channel.\<close>

fun acking_step :: "'m acking_op \<Rightarrow> 'm acking \<Rightarrow> ('m consumer_event \<times> Commit list) \<times> 'm acking" where
  "acking_step (Under_Lock op) T = (let (e, S) = consumer_step op (locked T)
     in ((e, []), T\<lparr>locked := S, outboxes := outboxes T @ outbox e\<rparr>))"
| "acking_step (Ack_send k) T =
     (if k < length (outboxes T) then
        (case outboxes T ! k of [] \<Rightarrow> ((Quiet, []), T)
         | commit # rest \<Rightarrow> ((Quiet, [commit]), T\<lparr>outboxes := (outboxes T)[k := rest]\<rparr>))
      else ((Quiet, []), T))"

abbreviation acking_run :: "'m acking_op list \<Rightarrow> 'm acking \<Rightarrow> ('m consumer_event \<times> Commit list) list \<times> 'm acking" where
  "acking_run \<equiv> run_steps acking_step"

definition new_acking :: "nat \<Rightarrow> 'm acking" where
  "new_acking n = \<lparr>locked = new_consumers n, outboxes = []\<rparr>"

text \<open>What the calls have taken under the lock, and what has reached the channel.\<close>

definition taken :: "('m consumer_event \<times> Commit list) list \<Rightarrow> Commit list list" where
  "taken es = concat (map (\<lambda>e. outbox (fst e)) es)"

definition on_channel :: "('m consumer_event \<times> Commit list) list \<Rightarrow> Commit list" where
  "on_channel es = concat (map snd es)"

definition offered :: "('m consumer_event \<times> Commit list) list \<Rightarrow> Commit list" where
  "offered es = concat (map (\<lambda>e. accepted (fst e)) es)"

lemma trace_simps [simp]:
  "taken [] = []" "taken (e # es) = outbox (fst e) @ taken es"
  "on_channel [] = []" "on_channel (e # es) = snd e @ on_channel es"
  "offered [] = []" "offered (e # es) = accepted (fst e) @ offered es"
  by (simp_all add: taken_def on_channel_def offered_def)

lemma concat_outbox [simp]: "concat (outbox e) = committed e"
  by (cases e) simp_all

lemma concat_taken: "concat (taken es) = concat (map (\<lambda>e. committed (fst e)) es)"
  by (induction es) simp_all

text \<open>Under the lock, the commits are taken in the order of the offers.\<close>

lemma acking_step_locked:
  assumes "acking_step op T = (e, T')"
  obtains (under_lock) op' where "op = Under_Lock op'" "consumer_step op' (locked T) = (fst e, locked T')"
      "snd e = []" "outboxes T' = outboxes T @ outbox (fst e)"
  | (sent) k c cs where "op = Ack_send k" "k < length (outboxes T)" "outboxes T ! k = c # cs" "e = (Quiet, [c])"
      "T' = T\<lparr>outboxes := (outboxes T)[k := cs]\<rparr>"
  | (idle) "e = (Quiet, [])" "T' = T"
proof (cases op)
  case (Under_Lock op')
  obtain e0 S where c: "consumer_step op' (locked T) = (e0, S)" by fastforce
  show ?thesis using assms c by (intro under_lock [OF Under_Lock]) (auto simp: Under_Lock)
next
  case (Ack_send k)
  show ?thesis
  proof (cases "k < length (outboxes T) \<and> outboxes T ! k \<noteq> []")
    case True
    then obtain c cs where "outboxes T ! k = c # cs" by (cases "outboxes T ! k") auto
    then show ?thesis using True assms Ack_send sent [of k c cs] by simp
  next
    case False
    then show ?thesis using assms Ack_send idle by (auto split: if_splits)
  qed
qed

interpretation locked_log: in_order_log acking_step "\<lambda>e. accepted (fst e)" "\<lambda>e. committed (fst e)" "\<lambda>T. pending_commits (locked T)"
  "\<lambda>T. ring_ok (group (locked T))" "\<lambda>T. Commits (group (locked T))"
proof unfold_locales
  fix T :: "'a acking" and op e T'
  assume ok: "ring_ok (group (locked T))"
  have step: "step_keeps (locked T) (fst e) (locked T')" if "acking_step op T = (e, T')" for e T'
    using that
    by (cases rule: acking_step_locked) (auto simp: step_keeps_def [of "locked T" Quiet] ok dest: consumer_step_keeps [OF ok])
  obtain e0 T0 where s: "acking_step op T = (e0, T0)" by fastforce
  show "ring_ok (group (locked (snd (acking_step op T))))"
    and "Commits (group (locked (snd (acking_step op T)))) \<Longrightarrow> Commits (group (locked T))"
    using step [OF s] s by (simp_all add: step_keeps_def)
  show "Commits (group (locked T)) \<Longrightarrow> acking_step op T = (e, T') \<Longrightarrow>
      pending_commits (locked T) @ accepted (fst e) = committed (fst e) @ pending_commits (locked T')"
    using step [of e T'] by (simp add: step_keeps_def)
qed

subsection \<open>Interleavings\<close>

inductive merged :: "'a list list \<Rightarrow> 'a list \<Rightarrow> bool" where
  empty: "merged (replicate n []) []"
| step: "merged ss xs \<Longrightarrow> k < length ss \<Longrightarrow> merged (ss[k := x # ss ! k]) (x # xs)"

lemma mset_concat_update:
  "k < length ss \<Longrightarrow> mset (concat (ss[k := ys])) + mset (ss ! k) = mset (concat ss) + mset ys"
  by (induction ss arbitrary: k) (auto split: nat.splits)

lemma merged_mset: "merged ss xs \<Longrightarrow> mset (concat ss) = mset xs"
proof (induction rule: merged.induct)
  case (step ss xs k x)
  have "mset (concat (ss[k := x # ss ! k])) + mset (ss ! k) = mset (concat ss) + mset (x # ss ! k)"
    by (rule mset_concat_update) (rule step.hyps)
  then show ?case using step.IH by simp
qed simp

lemma mset_concat_append:
  "length as = length bs \<Longrightarrow> mset (concat (map2 (@) as bs)) = mset (concat as) + mset (concat bs)"
  by (induction as bs rule: list_induct2) simp_all

lemma map2_update:
  "k < length as \<Longrightarrow> length as = length bs \<Longrightarrow> map2 f (as[k := a]) bs = (map2 f as bs)[k := f a (bs ! k)]"
  by (rule nth_equalityI) (auto simp: nth_list_update)

text \<open>
  Every call's slice is what it has sent, followed by what it has still to send, and the channel is an
  interleaving of what the calls have sent.
\<close>

lemma acking_run_merged:
  assumes "acking_run ops T = (es, T')"
  shows "\<exists>sent. length sent = length (outboxes T') \<and> map2 (@) sent (outboxes T') = outboxes T @ taken es \<and> merged sent (on_channel es)"
  using assms
proof (induction ops arbitrary: T es)
  case Nil
  have "map2 (@) (replicate (length bs) []) bs = bs" for bs :: "Commit list list" by (induction bs) simp_all
  then show ?case using Nil by (intro exI [of _ "replicate (length (outboxes T)) []"]) (auto intro: merged.empty)
next
  case (Cons op ops)
  obtain e T1 es1 where step: "acking_step op T = (e, T1)" and run: "acking_run ops T1 = (es1, T')" and es: "es = e # es1"
    using Cons.prems by (auto simp: Let_def split: prod.splits)
  obtain sent where IH: "length sent = length (outboxes T')" "map2 (@) sent (outboxes T') = outboxes T1 @ taken es1" "merged sent (on_channel es1)"
    using Cons.IH [OF run] by blast
  from step show ?case
  proof (cases rule: acking_step_locked)
    case (sent k c cs)
    have len: "length sent = length (outboxes T) + length (taken es1)"
      using arg_cong [OF IH(2), of length] IH(1) sent(5) by simp
    have "(sent ! k) @ outboxes T' ! k = cs"
      using arg_cong [OF IH(2), of "\<lambda>xs. xs ! k"] IH(1) sent(2,5) len by (simp add: nth_append)
    then have "map2 (@) (sent[k := c # sent ! k]) (outboxes T') = outboxes T @ taken es1"
      using sent(2,3,5) len IH(1,2) by (simp add: map2_update list_update_append1 flip: sent(3))
    then show ?thesis using IH(1,3) sent len es merged.step [OF IH(3), of k c]
      by (intro exI [of _ "sent[k := c # sent ! k]"]) simp
  qed (use IH es in auto)
qed

subsection \<open>Calls that take turns\<close>

text \<open>
  \<open>turn_step\<close> sends only the commits of the earliest call that still has some; \<open>in_turn\<close> says that a
  run never does otherwise, as when no two calls of \<open>Ack\<close> overlap.
\<close>

definition its_turn :: "'m acking \<Rightarrow> 'm acking_op \<Rightarrow> bool" where
  "its_turn T op = (case op of Ack_send k \<Rightarrow> list_all (\<lambda>cs. cs = []) (take k (outboxes T)) | Under_Lock op' \<Rightarrow> True)"

definition turn_step :: "'m acking_op \<Rightarrow> 'm acking \<Rightarrow> ('m consumer_event \<times> Commit list) \<times> 'm acking" where
  "turn_step op T = (if its_turn T op then acking_step op T else ((Quiet, []), T))"

fun in_turn :: "'m acking_op list \<Rightarrow> 'm acking \<Rightarrow> bool" where
  "in_turn [] T \<longleftrightarrow> True"
| "in_turn (op # ops) T \<longleftrightarrow> its_turn T op \<and> in_turn ops (snd (acking_step op T))"

lemma in_turn_run: "in_turn ops T \<Longrightarrow> run_steps turn_step ops T = acking_run ops T"
  by (induction ops arbitrary: T) (simp_all add: turn_step_def split_beta)

lemma concat_update_first:
  assumes "k < length bs" "bs ! k = c # cs" "list_all (\<lambda>cs. cs = []) (take k bs)"
  shows "concat bs = c # concat (bs[k := cs])"
proof -
  have "concat (take k bs) = []" using assms(3) by (auto simp: list_all_iff)
  then have "concat (take k bs @ xs) = concat xs" for xs by (simp only: concat_append append_Nil)
  then show ?thesis using assms(1,2) by (subst id_take_nth_drop [OF assms(1)]) (simp add: upd_conv_take_nth_drop del: concat_append)
qed

lemma turn_step_order:
  assumes ok: "ring_ok (group (locked T))" and live: "Commits (group (locked T))" and s: "turn_step op T = (e, T')"
  shows "(concat (outboxes T) @ pending_commits (locked T)) @ accepted (fst e) = snd e @ concat (outboxes T') @ pending_commits (locked T')"
proof (cases "its_turn T op")
  case True
  then have "acking_step op T = (e, T')" using s by (simp add: turn_step_def)
  then show ?thesis
  proof (cases rule: acking_step_locked)
    case (under_lock op')
    then show ?thesis using locked_log.order_step [OF ok live, of op e T'] \<open>acking_step op T = (e, T')\<close> by simp
  next
    case (sent k c cs)
    then show ?thesis using True concat_update_first [OF sent(2,3)] by (simp add: its_turn_def)
  qed simp
qed (use s in \<open>auto simp: turn_step_def\<close>)

interpretation turns: in_order_log turn_step "\<lambda>e. accepted (fst e)" snd "\<lambda>T. concat (outboxes T) @ pending_commits (locked T)"
  "\<lambda>T. ring_ok (group (locked T))" "\<lambda>T. Commits (group (locked T))"
proof unfold_locales
  fix T :: "'a acking" and op e T'
  assume ok: "ring_ok (group (locked T))"
  show "ring_ok (group (locked (snd (turn_step op T))))"
    and "Commits (group (locked (snd (turn_step op T)))) \<Longrightarrow> Commits (group (locked T))"
    using locked_log.inv_step [OF ok, of op] locked_log.live_step [OF ok, of op] ok by (auto simp: turn_step_def split: if_splits)
qed (rule turn_step_order)

subsection \<open>Copying the leased message\<close>

text \<open>The message that \<open>Next\<close> returns: the slot it has leased, read after the lock is released.\<close>

definition Next_copy :: "nat \<Rightarrow> 'm Group \<Rightarrow> 'm Message" where
  "Next_copy i g = messages g ! i"

text \<open>A slot of the ring that holds \<open>m\<close>, leased to some subscription.\<close>

definition slot_holds :: "nat \<Rightarrow> 'm Message \<Rightarrow> 'm Group \<Rightarrow> bool" where
  "slot_holds p m g \<longleftrightarrow> p \<in> set (ring_slots g) \<and> Next_copy p g = m \<and> SubscriptionID m \<noteq> ready \<and> \<not> acked m"

lemma slot_update:
  assumes "slot_holds p m g" and "m \<noteq> messages g ! i"
  shows "slot_holds p m (g\<lparr>messages := (messages g)[i := x]\<rparr>)"
  using assms same_slots [of "g\<lparr>messages := (messages g)[i := x]\<rparr>" g]
  by (cases "p = i") (auto simp: slot_holds_def Next_copy_def)

lemma found_slot: "find_slot P g = Some i \<Longrightarrow> P (messages g ! i)"
  by (auto simp: find_slot_def find_Some_iff)

lemma slot_Offer_pass:
  assumes ok: "ring_ok g" and h: "slot_holds p m g" and o: "Offer_pass x g = (c, g')"
  shows "slot_holds p m g'"
proof (cases "used g = length (messages g) - 1")
  case False
  have s: "ring_slots g' = ring_slots g @ [g_write g]" "ring_ok g'" using Offer_pass_contents [OF ok False, of g' x] o by simp_all
  then have "p \<noteq> g_write g" using distinct_ring_slots [of g'] h by (auto simp: slot_holds_def)
  moreover have "messages g' = (messages g)[g_write g := made_ready x]"
    using o False full_iff [OF ok] by (auto simp: Offer_pass_def split: if_splits)
  ultimately show ?thesis using h s by (simp add: slot_holds_def Next_copy_def)
qed (use h o full_iff [OF ok] in \<open>auto simp: Offer_pass_def split: if_splits\<close>)

lemma slot_Next_pass:
  assumes "slot_holds p m g" and "Next_pass s g = (c, s', g')"
  shows "slot_holds p m g'"
proof (cases "if may_lease s then find_slot (\<lambda>m. SubscriptionID m = ready) g else None")
  case None
  then show ?thesis using assms by (auto simp: Next_pass_def split: if_splits)
next
  case (Some i)
  then have "SubscriptionID (messages g ! i) = ready" by (auto dest: found_slot split: if_splits)
  then have "m \<noteq> messages g ! i" using assms(1) by (auto simp: slot_holds_def)
  moreover have "g' = g\<lparr>messages := (messages g)[i := leased_by s (messages g ! i)]\<rparr>"
    using assms(2) Some by (simp add: Next_pass_def lease_def Let_def)
  ultimately show ?thesis using slot_update [OF assms(1)] by simp
qed

lemma slot_Nack:
  assumes "slot_holds p m g" and "Nack n s g = (c, s', g')" and "\<not> leased_to (sub_ID s) n m"
  shows "slot_holds p m g'"
  using assms by (auto simp: Nack_def split: option.splits if_splits intro!: slot_update dest!: found_slot)

lemma free_acked_marks: "i \<in> set (fst (free_acked fuel ms w j)) \<Longrightarrow> acked (ms ! i)"
proof (induction fuel arbitrary: j)
  case (Suc fuel)
  then show ?case using Suc.IH [of "(j + 1) mod length ms"] by (auto simp: split_beta split: if_splits)
qed simp

lemma slot_reclaim:
  assumes ok: "ring_ok g" and h: "slot_holds p m g"
  shows "slot_holds p m (reclaim g)"
proof -
  let ?t = "length (takeWhile acked (contents g))"
  obtain k where k: "k < used g" "p = ring_slots g ! k" using h ok by (auto simp: slot_holds_def in_set_conv_nth simp del: ring_slots_nth)
  have "contents g ! k = m" using k h ok by (simp add: contents_def slot_holds_def Next_copy_def del: ring_slots_nth)
  then have "?t \<le> k" using h nth_length_takeWhile set_takeWhileD [of m acked "contents g"] takeWhile_nth [of k acked "contents g"]
    by (metis nth_mem not_le slot_holds_def)
  then have "p \<in> set (ring_slots (reclaim g))"
    using k ok unfolding reclaim_contents(4) [OF ok]
    by (auto simp: in_set_conv_nth simp del: ring_slots_nth intro!: exI [of _ "k - ?t"])
  moreover have "messages (reclaim g) ! p = messages g ! p"
  proof -
    have "p \<notin> set (fst (free_acked (length (messages g)) (messages g) (g_write g) (g_read g)))"
      using h free_acked_marks [of p] by (auto simp: slot_holds_def Next_copy_def)
    then show ?thesis by (simp add: reclaim_def Let_def fold_reset)
  qed
  ultimately show ?thesis using h by (simp add: slot_holds_def Next_copy_def)
qed

lemma slot_Ack:
  assumes ok: "ring_ok g" and h: "slot_holds p m g" and a: "Ack n s g = (c, s', g')" and m: "\<not> leased_to (sub_ID s) n m"
  shows "slot_holds p m g'"
proof (cases "n = 0 \<or> find_slot (leased_to (sub_ID s) n) g = None")
  case False
  then obtain i where i: "find_slot (leased_to (sub_ID s) n) g = Some i" by auto
  let ?h = "g\<lparr>messages := (messages g)[i := made_acked (messages g ! i)]\<rparr>"
  have "slot_holds p m ?h" using found_slot [OF i] m by (intro slot_update [OF h]) auto
  moreover have "ring_ok ?h" using ok by (simp add: ring_ok_def)
  ultimately have "slot_holds p m (reclaim ?h)" by (intro slot_reclaim)
  moreover have "g' = reclaim ?h" using a False i by (auto simp: Ack_def Let_def reclaim_def)
  ultimately show ?thesis by simp
qed (use a h in \<open>auto simp: Ack_def split: if_splits\<close>)

lemma slot_Close:
  assumes ok: "ring_ok g" and h: "slot_holds p m g" and c: "Subscription_Close s g = (s', g')" and m: "SubscriptionID m \<noteq> sub_ID s"
  shows "slot_holds p m g'"
proof -
  let ?ms = "fold (\<lambda>j ms. ms[j := release (sub_ID s) (ms ! j)]) (ring_slots g) (messages g)"
  have g': "g' = g\<lparr>messages := ?ms\<rparr>" using c by (simp add: Subscription_Close_def)
  have f: "length ?ms = length (messages g)"
    "map (nth ?ms) (ring_slots g) = map (\<lambda>j. release (sub_ID s) (messages g ! j)) (ring_slots g)"
    by (rule fold_slots(1,2) [OF distinct_ring_slots [OF ok] _ refl], simp add: ring_slots_bound [OF ok])+
  have "?ms ! p = release (sub_ID s) m" using f(2) h by (simp add: slot_holds_def Next_copy_def)
  then show ?thesis using h m f(1) same_slots [of g' g] by (simp add: slot_holds_def Next_copy_def release_def g')
qed

end
