(* ===== verification/Consumers_Properties.thy ===== *)
theory Consumers_Properties
  imports Consumers_Calls
begin

text \<open>
  What holds of every run of a consumer group: every commit reaches the channel once, in the order of
  the offers when the calls of \<open>Ack\<close> take turns; an open subscription counts exactly the messages it
  holds; and \<open>Next\<close>, also when it has waited, hands out the oldest ready message within the
  subscription's limits, and returns that message unless the lease is taken away before it has copied it.
\<close>

subsection \<open>Lease accounting\<close>

definition leases :: "u64 \<Rightarrow> 'm Message list \<Rightarrow> u32" where
  "leases i q = of_nat (length (filter (\<lambda>m. SubscriptionID m = i) q))"

lemma leases_simps [simp]:
  "leases i [] = 0"
  "leases i (q @ r) = leases i q + leases i r"
  "leases i (m # q) = (if SubscriptionID m = i then 1 else 0) + leases i q"
  by (simp_all add: leases_def)

lemma leases_update:
  assumes "k < length q"
  shows "leases i (q[k := x]) = leases i q - (if SubscriptionID (q ! k) = i then 1 else 0) + (if SubscriptionID x = i then 1 else 0)"
proof -
  have "leases i q = leases i (take k q) + ((if SubscriptionID (q ! k) = i then 1 else 0) + leases i (drop (Suc k) q))"
    using assms by (subst id_take_nth_drop [OF assms]) simp
  moreover have "leases i (q[k := x]) = leases i (take k q) + ((if SubscriptionID x = i then 1 else 0) + leases i (drop (Suc k) q))"
    using assms by (simp add: upd_conv_take_nth_drop)
  ultimately show ?thesis by simp
qed

lemma leases_dropWhile [simp]: "i \<noteq> ack \<Longrightarrow> leases i (dropWhile acked q) = leases i q"
  by (induction q) auto

lemma leases_release [simp]: "i \<noteq> j \<Longrightarrow> i \<noteq> ready \<Longrightarrow> leases i (map (release j) q) = leases i q"
  by (induction q) (auto simp: release_def)

text \<open>
  The invariant of the subscriptions: identifiers are those handed out, an open subscription counts the
  messages leased to it, and the oldest message of the ring is not an acknowledged one.
\<close>

definition sub_inv :: "u64 \<Rightarrow> 'm Message list \<Rightarrow> u64 \<Rightarrow> Subscription \<Rightarrow> bool" where
  "sub_inv lim q i s \<longleftrightarrow> sub_ID s = i \<and> ack < i \<and> i \<le> lim \<and> (\<not> sub_closed s \<longrightarrow> inflight s = leases i q)"

definition queue_inv :: "u64 \<Rightarrow> 'm Message list \<Rightarrow> bool" where
  "queue_inv lim q \<longleftrightarrow> lim < ready \<and> (\<forall>m \<in> set q. SubscriptionID m = ready \<or> SubscriptionID m \<le> lim) \<and>
     (q \<noteq> [] \<longrightarrow> \<not> acked (hd q))"

definition consumers_inv :: "'m consumers \<Rightarrow> bool" where
  "consumers_inv S \<longleftrightarrow> ring_ok (group S) \<and> queue_inv (currentSubscriptionID S) (contents (group S)) \<and>
     (\<forall>i s. subs S i = Some s \<longrightarrow> sub_inv (currentSubscriptionID S) (contents (group S)) i s)"

lemma ready_not_ack [simp]: "ready \<noteq> ack" "ack \<noteq> ready"
  by (simp_all add: ready_def ack_def)

lemma sub_inv_ids: "sub_inv lim q i s \<Longrightarrow> queue_inv lim q \<Longrightarrow> sub_ID s = i \<and> i \<noteq> ack \<and> i \<noteq> ready \<and> i \<le> lim"
  by (auto simp: sub_inv_def queue_inv_def)

lemma queue_inv_update:
  assumes "queue_inv lim q" and "SubscriptionID x = ready \<or> SubscriptionID x \<le> lim" and "\<not> acked x"
  shows "queue_inv lim (q[k := x])"
proof -
  have "q \<noteq> [] \<Longrightarrow> \<not> acked (hd (q[k := x]))" using assms by (cases q; cases k) (auto simp: queue_inv_def)
  then show ?thesis using assms set_update_subset_insert [of q k x] by (auto simp: queue_inv_def)
qed

lemma queue_inv_ack:
  assumes "queue_inv lim q"
  shows "queue_inv lim (dropWhile acked (q[k := made_acked m]))"
proof -
  have "\<forall>m' \<in> set (dropWhile acked (q[k := made_acked m])). SubscriptionID m' = ready \<or> SubscriptionID m' \<le> lim"
    using assms set_update_subset_insert [of q k "made_acked m"] 
    by (auto simp: queue_inv_def ack_def dest!: set_dropWhileD)
  then show ?thesis using assms hd_dropWhile [of acked "q[k := made_acked m]"] by (auto simp: queue_inv_def)
qed

lemma queue_inv_release: "queue_inv lim q \<Longrightarrow> queue_inv lim (map (release i) q)"
  by (cases q) (auto simp: queue_inv_def release_def)

text \<open>An action of subscription \<open>i\<close> keeps its own books and those of the others.\<close>

definition books :: "u64 \<Rightarrow> u64 \<Rightarrow> 'm Group \<Rightarrow> Subscription \<Rightarrow> 'm Group \<Rightarrow> bool" where
  "books lim i g s' g' \<longleftrightarrow> ring_ok g' \<and> queue_inv lim (contents g') \<and> sub_inv lim (contents g') i s' \<and>
     (\<forall>j. j \<noteq> i \<longrightarrow> j \<noteq> ready \<longrightarrow> j \<noteq> ack \<longrightarrow> leases j (contents g') = leases j (contents g))"

lemma Next_pass_books:
  assumes ok: "ring_ok g" and q: "queue_inv lim (contents g)" and s: "sub_inv lim (contents g) i s"
    and n: "Next_pass s g = (c, s', g')"
  shows "books lim i g s' g'"
  using ok n
proof (cases rule: Next_pass_cases)
  case (leased k)
  have "queue_inv lim (contents g')"
    using queue_inv_update [OF q, of "leased_by s (contents g ! k)" k] sub_inv_ids [OF s q] leased(5) by simp
  then show ?thesis using ok s leased sub_inv_ids [OF s q] by (auto simp: books_def sub_inv_def leases_update)
qed (use ok q s in \<open>simp add: books_def\<close>)

lemma Next_books:
  assumes "ring_ok g" "queue_inv lim (contents g)" "sub_inv lim (contents g) i s" "Next s g = (c, s', g')"
  shows "books lim i g s' g'"
  using assms Next_pass_books [of g lim i s c s' g'] by (auto simp: Next_def books_def split: if_splits)

lemma Ack_books:
  assumes ok: "ring_ok g" and q: "queue_inv lim (contents g)" and s: "sub_inv lim (contents g) i s"
    and n: "Ack n s g = (c, s', g')"
  shows "books lim i g s' g'"
  using ok n
proof (cases rule: Ack_cases)
  case (acked k q')
  have "queue_inv lim (contents g')" using queue_inv_ack [OF q] unfolding acked(4,5) .
  then show ?thesis using ok s acked sub_inv_ids [OF s q] by (auto simp: books_def sub_inv_def leases_update leased_to_def)
qed (use ok q s in \<open>simp_all add: books_def\<close>)

lemma Nack_books:
  assumes ok: "ring_ok g" and q: "queue_inv lim (contents g)" and s: "sub_inv lim (contents g) i s"
    and n: "Nack n s g = (c, s', g')"
  shows "books lim i g s' g'"
  using ok n
proof (cases rule: Nack_cases)
  case (returned k)
  have "queue_inv lim (contents g')" using queue_inv_update [OF q, of "made_ready (contents g ! k)" k] returned(4) by simp
  then show ?thesis using ok s returned sub_inv_ids [OF s q] by (auto simp: books_def sub_inv_def leases_update leased_to_def)
qed (use ok q s in \<open>simp_all add: books_def\<close>)

lemma Close_books:
  assumes ok: "ring_ok g" and q: "queue_inv lim (contents g)" and s: "sub_inv lim (contents g) i s"
    and n: "Subscription_Close s g = (s', g')"
  shows "books lim i g s' g'"
  using Subscription_Close_contents [OF ok n] queue_inv_release [OF q] s by (simp add: books_def sub_inv_def)

lemma on_sub_inv:
  assumes inv: "consumers_inv S"
    and act: "\<And>s c s' g'. sub_inv (currentSubscriptionID S) (contents (group S)) i s \<Longrightarrow> act s (group S) = (c, s', g') \<Longrightarrow>
      books (currentSubscriptionID S) i (group S) s' g'"
  shows "consumers_inv (snd (on_sub i S f act))"
proof (cases "subs S i")
  case (Some s)
  obtain c s' g' where a: "act s (group S) = (c, s', g')" by (metis prod.exhaust)
  have S': "snd (on_sub i S f act) = S\<lparr>group := g', subs := (subs S)(i \<mapsto> s')\<rparr>" using Some a by (simp add: on_sub_def put_sub_def)
  have b: "books (currentSubscriptionID S) i (group S) s' g'" using act [OF _ a] inv Some by (simp add: consumers_inv_def)
  have "sub_inv (currentSubscriptionID S) (contents g') j t" if "subs S j = Some t" "j \<noteq> i" for j t
  proof -
    have t: "sub_inv (currentSubscriptionID S) (contents (group S)) j t" "queue_inv (currentSubscriptionID S) (contents (group S))"
      using inv that by (simp_all add: consumers_inv_def)
    from sub_inv_ids [OF this] show ?thesis using t(1) b that(2) by (simp add: sub_inv_def books_def)
  qed
  then show ?thesis using b inv unfolding S' by (simp add: consumers_inv_def books_def)
qed (use inv in \<open>simp add: on_sub_def\<close>)

lemma offer_inv:
  assumes inv: "consumers_inv S" and o: "Offer_pass m (group S) = (c, g)"
  shows "consumers_inv (S\<lparr>group := g\<rparr>)"
proof -
  have ok: "ring_ok (group S)" using inv by (simp add: consumers_inv_def)
  from ok o show ?thesis
  proof (cases rule: Offer_pass_cases)
    case accepted
    let ?q = "contents (group S)" and ?l = "currentSubscriptionID S"
    have q: "queue_inv ?l ?q" using inv by (simp add: consumers_inv_def)
    then have "queue_inv ?l (?q @ [made_ready m])" by (cases ?q) (auto simp: queue_inv_def)
    moreover have "sub_inv ?l (?q @ [made_ready m]) i s" if "subs S i = Some s" for i s
    proof -
      have t: "sub_inv ?l ?q i s" using inv that by (simp add: consumers_inv_def)
      from sub_inv_ids [OF this q] show ?thesis using t by (auto simp: sub_inv_def)
    qed
    ultimately show ?thesis using accepted by (simp add: consumers_inv_def)
  qed (use inv in simp)
qed

lemma word_succ_gt: "l < l + 1 \<and> 0 < l + 1" if "l < - 1" for l :: u64
proof -
  have "1 + l \<noteq> 0"
  proof
    assume "1 + l = 0"
    then have "l = - 1" by (simp add: eq_neg_iff_add_eq_0 add.commute)
    then show False using that by simp
  qed
  from unatSuc [OF this] show ?thesis by (simp add: word_less_nat_alt add.commute)
qed

lemma subscribe_inv:
  assumes inv: "consumers_inv S" and room: "currentSubscriptionID S + 1 < ready"
  shows "consumers_inv (snd (consumer_step Do_Subscribe S))" and "consumers_inv (snd (consumer_step Do_SubscribeElsewhere S))"
proof -
  let ?q = "contents (group S)" and ?l = "currentSubscriptionID S"
  have l: "?l < ?l + 1" "ack < ?l + 1"
    using word_succ_gt [of ?l] inv by (simp_all add: consumers_inv_def queue_inv_def ready_def ack_def)
  have q: "queue_inv ?l ?q" using inv by (simp add: consumers_inv_def)
  have none: "leases (?l + 1) ?q = 0"
  proof -
    have "filter (\<lambda>m. SubscriptionID m = ?l + 1) ?q = []"
      using q l room by (auto simp: queue_inv_def filter_empty_conv)
    then show ?thesis by (simp add: leases_def)
  qed
  have "queue_inv (?l + 1) ?q" using q l room by (auto simp: queue_inv_def)
  moreover have "sub_inv (?l + 1) ?q i s" if "subs S i = Some s" for i s
  proof -
    have t: "sub_inv ?l ?q i s" using inv that by (simp add: consumers_inv_def)
    then have "i \<le> ?l + 1" using order_trans [OF _ less_imp_le [OF l(1)]] by (simp add: sub_inv_def)
    then show ?thesis using t by (simp add: sub_inv_def)
  qed
  ultimately show "consumers_inv (snd (consumer_step Do_Subscribe S))" "consumers_inv (snd (consumer_step Do_SubscribeElsewhere S))"
    using inv l none by (auto simp: consumers_inv_def Subscribe_def sub_inv_def)
qed

lemma group_close_inv: "consumers_inv S \<Longrightarrow> consumers_inv (S\<lparr>group := Group_Close (group S)\<rparr>)"
  by (simp add: consumers_inv_def Group_Close_def ring_ok_def contents_def ring_slots_def)

lemma consumer_step_inv:
  assumes inv: "consumers_inv S" and room: "currentSubscriptionID S + 1 < ready"
  shows "consumers_inv (snd (consumer_step op S))"
proof -
  have ok: "ring_ok (group S)" and q: "queue_inv (currentSubscriptionID S) (contents (group S))"
    using inv by (simp_all add: consumers_inv_def)
  note sub = on_sub_inv [OF inv]
  show ?thesis
  proof (cases op)
    case (Do_Offer m)
    then show ?thesis using offer_inv [OF inv, of m] inv by (auto simp: Offer_def split: prod.splits)
  next
    case (WakeOffer m)
    then show ?thesis using offer_inv [OF inv, of m] by (auto split: prod.splits)
  next
    case (Do_Next i)
    show ?thesis unfolding Do_Next consumer_step.simps by (rule sub) (rule Next_books [OF ok q])
  next
    case (WakeNext i)
    show ?thesis unfolding WakeNext consumer_step.simps by (rule sub) (rule Next_pass_books [OF ok q])
  next
    case (Do_Ack i n)
    show ?thesis unfolding Do_Ack consumer_step.simps by (rule sub) (rule Ack_books [OF ok q])
  next
    case (Do_Nack i n)
    show ?thesis unfolding Do_Nack consumer_step.simps by (rule sub) (rule Nack_books [OF ok q])
  next
    case (Do_Close i)
    show ?thesis unfolding Do_Close consumer_step.simps by (rule sub) (auto intro: Close_books [OF ok q])
  next
    case Do_Subscribe
    show ?thesis unfolding Do_Subscribe by (rule subscribe_inv(1) [OF inv room])
  next
    case Do_SubscribeElsewhere
    show ?thesis unfolding Do_SubscribeElsewhere by (rule subscribe_inv(2) [OF inv room])
  next
    case Do_GroupClose
    then show ?thesis using group_close_inv [OF inv] by simp
  next
    case (Do_SetSize i n)
    show ?thesis unfolding Do_SetSize consumer_step.simps
      by (rule sub) (use ok q in \<open>auto simp: books_def sub_inv_def SetSize_def\<close>)
  next
    case (Do_SetMaxMessages i n)
    show ?thesis unfolding Do_SetMaxMessages consumer_step.simps
      by (rule sub) (use ok q in \<open>auto simp: books_def sub_inv_def SetMaxMessages_def\<close>)
  next
    case (Do_SetBlocking i b)
    show ?thesis unfolding Do_SetBlocking consumer_step.simps
      by (rule sub) (use ok q in \<open>auto simp: books_def sub_inv_def SetBlocking_def\<close>)
  qed
qed

text \<open>
  The states of a group made by \<open>NewGroup\<close>, as long as the global counter of subscription identifiers
  has not run into the value that marks ready messages.
\<close>

inductive consumers_reachable :: "nat \<Rightarrow> 'm consumers \<Rightarrow> bool" for n where
  new: "1 \<le> n \<Longrightarrow> consumers_reachable n (new_consumers n)"
| step: "consumers_reachable n S \<Longrightarrow> currentSubscriptionID S + 1 < ready \<Longrightarrow> consumers_reachable n (snd (consumer_step op S))"

lemma new_consumers_ok:
  fixes S :: "'m consumers"
  assumes "1 \<le> n" and "S = new_consumers n"
  shows "ring_ok (group S)" and "contents (group S) = []" and "Commits (group S)" and "length (messages (group S)) = n + 1"
  using assms by (simp_all add: new_consumers_def NewGroup_def ring_ok_def contents_def ring_slots_def)

lemma consumers_reachable_inv: "consumers_reachable n S \<Longrightarrow> consumers_inv S"
proof (induction rule: consumers_reachable.induct)
  case new
  then show ?case using new_consumers_ok [OF _ refl, of n] by (auto simp: consumers_inv_def queue_inv_def new_consumers_def ready_def word_gt_0)
qed (rule consumer_step_inv)

text \<open>No operation changes the number of slots.\<close>

lemma on_sub_slots:
  assumes "\<And>s c s' g'. act s (group S) = (c, s', g') \<Longrightarrow> length (messages g') = length (messages (group S))"
  shows "length (messages (group (snd (on_sub i S f act)))) = length (messages (group S))"
  using assms by (auto simp: on_sub_def put_sub_def split: option.splits prod.splits)

lemma action_slots:
  assumes ok: "ring_ok g"
  shows "Next_pass s g = (c, s', g') \<Longrightarrow> length (messages g') = length (messages g)"
    and "Next s g = (c, s', g') \<Longrightarrow> length (messages g') = length (messages g)"
    and "Ack n s g = (c', s', g') \<Longrightarrow> length (messages g') = length (messages g)"
    and "Nack n s g = (c'', s', g') \<Longrightarrow> length (messages g') = length (messages g)"
    and "Offer_pass m g = (c'', g') \<Longrightarrow> length (messages g') = length (messages g)"
proof -
  show pass: "Next_pass s g = (c, s', g') \<Longrightarrow> length (messages g') = length (messages g)"
    by (rule Next_pass_cases [OF ok]) auto
  show "Next s g = (c, s', g') \<Longrightarrow> length (messages g') = length (messages g)"
    using pass by (auto simp: Next_def split: if_splits)
  show "Ack n s g = (c', s', g') \<Longrightarrow> length (messages g') = length (messages g)" by (rule Ack_cases [OF ok]) auto
  show "Nack n s g = (c'', s', g') \<Longrightarrow> length (messages g') = length (messages g)" by (rule Nack_cases [OF ok]) auto
  show "Offer_pass m g = (c'', g') \<Longrightarrow> length (messages g') = length (messages g)"
    by (auto simp: Offer_pass_def split: if_splits)
qed

lemma consumer_step_slots:
  assumes ok: "ring_ok (group S)"
  shows "length (messages (group (snd (consumer_step op S)))) = length (messages (group S))"
  by (cases op; simp; (rule on_sub_slots)?)
    (auto simp: Offer_def Subscribe_def Group_Close_def Subscription_Close_contents(5) [OF ok] action_slots [OF ok] split: prod.splits)

lemma consumers_reachable_slots: "consumers_reachable n S \<Longrightarrow> length (messages (group S)) = n + 1"
proof (induction rule: consumers_reachable.induct)
  case (step S op)
  then show ?case using consumer_step_slots [of S op] consumers_reachable_inv [of n S] by (simp add: consumers_inv_def)
qed (simp add: new_consumers_ok)

lemma consumers_reachable_bound:
  assumes "consumers_reachable n S"
  shows "length (contents (group S)) \<le> n"
  using used_less [of "group S"] consumers_reachable_slots [OF assms] consumers_reachable_inv [OF assms] by (simp add: consumers_inv_def)

fun ids_left :: "'m consumer_op list \<Rightarrow> 'm consumers \<Rightarrow> bool" where
  "ids_left [] S \<longleftrightarrow> True"
| "ids_left (op # ops) S \<longleftrightarrow> currentSubscriptionID S + 1 < ready \<and> ids_left ops (snd (consumer_step op S))"

lemma consumers_reachable_run: "consumers_reachable n S \<Longrightarrow> ids_left ops S \<Longrightarrow> consumers_reachable n (snd (consumer_run ops S))"
proof (induction ops arbitrary: S)
  case (Cons op ops)
  have "consumers_reachable n (snd (consumer_step op S))" using Cons.prems consumers_reachable.step [of n S op] by simp
  from Cons.IH [OF this] show ?case using Cons.prems by (simp add: split_beta)
qed simp

subsection \<open>Leased slots\<close>

text \<open>The steps that may change a leased message: those that acknowledge it, give it back or close its subscription.\<close>

fun touches :: "'m Message \<Rightarrow> 'm consumer_op \<Rightarrow> bool" where
  "touches m (Do_Ack i n) \<longleftrightarrow> leased_to i n m"
| "touches m (Do_Nack i n) \<longleftrightarrow> leased_to i n m"
| "touches m (Do_Close i) \<longleftrightarrow> SubscriptionID m = i"
| "touches m op \<longleftrightarrow> False"

lemma on_sub_slot:
  assumes "slot_holds p m (group S)"
    and "\<And>s c s' g'. subs S i = Some s \<Longrightarrow> act s (group S) = (c, s', g') \<Longrightarrow> slot_holds p m g'"
  shows "slot_holds p m (group (snd (on_sub i S f act)))"
  using assms by (auto simp: on_sub_def put_sub_def split: option.splits prod.splits)

lemma consumer_step_slot:
  assumes inv: "consumers_inv S" and h: "slot_holds p m (group S)" and t: "\<not> touches m op"
  shows "slot_holds p m (group (snd (consumer_step op S)))"
proof -
  have ok: "ring_ok (group S)" using inv by (simp add: consumers_inv_def)
  have id: "subs S i = Some s \<Longrightarrow> sub_ID s = i" for i s using inv by (simp add: consumers_inv_def sub_inv_def)
  note sub = on_sub_slot [OF h]
  show ?thesis
  proof (cases op)
    case (Do_Ack i n)
    then show ?thesis using t by (auto simp: id intro!: sub slot_Ack [OF ok h])
  next
    case (Do_Nack i n)
    then show ?thesis using t by (auto simp: id intro!: sub slot_Nack [OF h])
  next
    case (Do_Close i)
    then show ?thesis using t by (auto simp: id intro!: sub slot_Close [OF ok h])
  next
    case Do_GroupClose
    then show ?thesis using h by (simp add: Group_Close_def slot_holds_def Next_copy_def ring_slots_def)
  qed (use h in \<open>auto simp: Offer_def Next_def Subscribe_def split: prod.splits if_splits
        intro!: sub intro: slot_Offer_pass [OF ok h] slot_Next_pass [OF h]\<close>)
qed

lemma run_slot:
  assumes "consumers_reachable n S" "slot_holds p m (group S)" "ids_left ops S" "list_all (\<lambda>op. \<not> touches m op) ops"
  shows "slot_holds p m (group (snd (consumer_run ops S)))"
  using assms
proof (induction ops arbitrary: S)
  case (Cons op ops)
  let ?S = "snd (consumer_step op S)"
  have "consumers_reachable n ?S" using Cons.prems consumers_reachable.step [of n S op] by simp
  moreover have "slot_holds p m (group ?S)"
    using consumer_step_slot [OF consumers_reachable_inv [OF Cons.prems(1)] Cons.prems(2)] Cons.prems(4) by simp
  ultimately show ?case using Cons.IH [of ?S] Cons.prems by (simp add: split_beta)
qed simp

lemma contents_slot: "ring_ok g \<Longrightarrow> k < used g \<Longrightarrow> ring_slots g ! k \<in> set (ring_slots g) \<and> messages g ! (ring_slots g ! k) = contents g ! k"
  by (simp add: contents_def del: ring_slots_nth)

lemma next_step_pass:
  assumes "subs S i = Some s" and "op = Do_Next i \<or> op = WakeNext i" and "consumer_step op S = (Leased m, S')"
  obtains s' g' where "Next_pass s (group S) = (Return m, s', g')" and "S' = put_sub i S (s', g')"
proof -
  obtain c s' g' where p: "(if op = Do_Next i then Next s (group S) else Next_pass s (group S)) = (c, s', g')" by (metis prod.exhaust)
  then have r: "c = Return m" "S' = put_sub i S (s', g')" using assms by (cases c; auto simp: on_sub_def split: if_splits)+
  then have "Next_pass s (group S) = (Return m, s', g')" using p by (auto simp: Next_def split: if_splits)
  with r show ?thesis using that by blast
qed

subsection \<open>Properties\<close>

definition demo_message :: "int \<Rightarrow> nat Message" where
  "demo_message n = Reset\<lparr>SegmentID := 7, CommitOffset := n\<rparr>"

definition demo_ops :: "nat consumer_op list" where
  "demo_ops = [Do_Subscribe, Do_Offer (demo_message 10), Do_Offer (demo_message 20), Do_Next 1, Do_Next 1, Do_Ack 1 2,
     Do_Offer (demo_message 30), Do_Ack 1 1, Do_Offer (demo_message 40), Do_SetSize 1 2]"

definition demo_state :: "nat consumers" where
  "demo_state = snd (consumer_run demo_ops (new_consumers 3))"

lemma demo_reachable: "consumers_reachable 3 demo_state"
proof -
  have "ids_left demo_ops (new_consumers 3)" by code_simp
  then show ?thesis unfolding demo_state_def by (intro consumers_reachable_run consumers_reachable.new) simp_all
qed

definition demo_acks :: "nat acking_op list" where
  "demo_acks = map Under_Lock demo_ops @ [Ack_send 1, Ack_send 0, Under_Lock (Do_Next 1), Under_Lock (Do_Ack 1 3), Ack_send 1]"

definition demo_acked :: "nat acking" where
  "demo_acked = snd (acking_run demo_acks (new_acking 3))"

text \<open>(C12) Under every interleaving of the calls on a group, with the sends of \<open>Ack\<close> made one by one after it has
  released the lock: the calls take their commits out of the ring in the order in which the messages were offered; what
  a call has sent, followed by what it has still to send, is what it took, and the channel is an interleaving
  of what the calls have sent; so the commit of every accepted message is, once, on the channel, about to be sent, or that of a message still held,
  and none is taken while an older message is held. When no call sends while an earlier one has commits left, the channel
  is in the order of the offers. All this as long as the group is not closed.\<close>

theorem commits_reach_channel_once:
  fixes T :: "'m acking"
  assumes "1 \<le> n" and "run_steps acking_step ops (new_acking n) = (es, T)" and "Commits (group (locked T))"
  shows "offered es = concat (taken es) @ pending_commits (locked T) \<and>
    (\<exists>sent. length sent = length (taken es) \<and> map2 (@) sent (outboxes T) = taken es \<and> merged sent (on_channel es)) \<and>
    mset (offered es) = mset (on_channel es) + mset (concat (outboxes T)) + mset (pending_commits (locked T)) \<and>
    (in_turn ops (new_acking n :: 'm acking) \<longrightarrow> offered es = on_channel es @ concat (outboxes T) @ pending_commits (locked T))"
proof (intro conjI impI)
  let ?new = "new_acking n :: 'm acking"
  have new: "ring_ok (group (locked ?new))" "pending_commits (locked ?new) = []" "outboxes ?new = []"
    using new_consumers_ok(1,2) [OF assms(1) refl] by (simp_all add: new_acking_def pending_commits_def)
  show order: "offered es = concat (taken es) @ pending_commits (locked T)"
    using locked_log.run_order [OF new(1) assms(2,3)] new(2) by (simp add: offered_def concat_taken)
  obtain sent where sent: "length sent = length (outboxes T)" "map2 (@) sent (outboxes T) = taken es" "merged sent (on_channel es)"
    using acking_run_merged [OF assms(2)] new(3) by auto
  then show "\<exists>sent. length sent = length (taken es) \<and> map2 (@) sent (outboxes T) = taken es \<and> merged sent (on_channel es)"
    by (intro exI [of _ sent]) (auto simp flip: sent(2))
  show "mset (offered es) = mset (on_channel es) + mset (concat (outboxes T)) + mset (pending_commits (locked T))"
    using order mset_concat_append [OF sent(1)] merged_mset [OF sent(3)] by (simp add: sent(2))
  assume "in_turn ops ?new"
  then have "run_steps turn_step ops ?new = (es, T)" using in_turn_run assms(2) by metis
  from turns.run_order [OF new(1) this assms(3)] show "offered es = on_channel es @ concat (outboxes T) @ pending_commits (locked T)"
    by (simp add: new(2,3) offered_def on_channel_def)
qed

theorem commits_reach_channel_once_witness:
  "offered (fst (acking_run demo_acks (new_acking 3))) = on_channel (fst (acking_run demo_acks (new_acking 3))) @
     concat (outboxes demo_acked) @ pending_commits (locked demo_acked) \<and>
   map commit_Offset (on_channel (fst (acking_run demo_acks (new_acking 3)))) = [10, 20] \<and>
   map commit_Offset (concat (outboxes demo_acked)) = [30]"
proof -
  have "Commits (group (locked demo_acked))" "in_turn demo_acks (new_acking 3)"
    "map commit_Offset (on_channel (fst (acking_run demo_acks (new_acking 3)))) = [10, 20]"
    "map commit_Offset (concat (outboxes demo_acked)) = [30]" by code_simp+
  moreover have "1 \<le> (3 :: nat)" and run: "acking_run demo_acks (new_acking 3) = (fst (acking_run demo_acks (new_acking 3)), demo_acked)"
    by (simp_all add: demo_acked_def)
  ultimately show ?thesis using commits_reach_channel_once [OF _ run] by blast
qed

text \<open>Calls that overlap can send out of order, although they took their commits in order.\<close>

lemma overlapping_acks_out_of_order:
  "let (es, T) = acking_run (map Under_Lock [Do_Subscribe, Do_Offer (demo_message 10), Do_Offer (demo_message 20), Do_Next 1, Do_Next 1,
      Do_Ack 1 1, Do_Ack 1 2] @ [Ack_send 1, Ack_send 0]) (new_acking 3)
   in map commit_Offset (offered es) = [10, 20] \<and> map commit_Offset (on_channel es) = [20, 10] \<and> concat (outboxes T) = []"
  by code_simp

text \<open>(C13) In every reachable state of a group of \<open>n\<close> slots, at most \<open>n\<close> messages are held, the in-flight
  counter of every open subscription is the number of messages leased to it, modulo the width of the counter, and a message that
  is neither ready nor acknowledged is leased to a subscription that was handed out.\<close>

theorem inflight_counts_leases:
  assumes "consumers_reachable n S"
  shows "length (contents (group S)) \<le> n \<and>
    (\<forall>i s. subs S i = Some s \<and> \<not> sub_closed s \<longrightarrow>
       inflight s = of_nat (length (filter (\<lambda>m. SubscriptionID m = i) (contents (group S))))) \<and>
    (\<forall>m \<in> set (contents (group S)). SubscriptionID m = ready \<or> SubscriptionID m = ack \<or>
       (1 \<le> SubscriptionID m \<and> SubscriptionID m \<le> currentSubscriptionID S))"
  using consumers_reachable_bound [OF assms] consumers_reachable_inv [OF assms]
  by (auto simp: consumers_inv_def sub_inv_def queue_inv_def leases_def ack_def word_le_nat_alt unat_eq_0 Suc_le_eq unat_gt_0)

theorem inflight_counts_leases_witness:
  "length (contents (group demo_state)) \<le> 3 \<and> inflight (the (subs demo_state 1)) = 0 \<and>
   inflight (the (subs demo_state 1)) = of_nat (length (filter (\<lambda>m. SubscriptionID m = 1) (contents (group demo_state))))"
proof -
  have "subs demo_state 1 = Some (the (subs demo_state 1))" "\<not> sub_closed (the (subs demo_state 1))"
    "inflight (the (subs demo_state 1)) = 0" by code_simp+
  then show ?thesis using inflight_counts_leases [OF demo_reachable] by blast
qed

text \<open>(C14) A pass of \<open>Next\<close> that succeeds, on the call or on waking up, leases the oldest ready message to the
  subscription, leaves every other message alone, and takes the subscription past neither its number of messages in flight nor its
  number of messages. The message that the call returns is copied from the slot after the lock is released: it is the leased one,
  whatever steps come in between, unless one of them acknowledges or gives back that message or closes the subscription.
  The number in flight is the counter of the subscription, which is the number of its leases while it is open.\<close>

theorem next_leases_oldest_ready:
  assumes "consumers_reachable n S" and "subs S i = Some s" and "op = Do_Next i \<or> op = WakeNext i"
    and "consumer_step op S = (Leased m, S')"
  shows "\<exists>k s'. k < length (contents (group S)) \<and> SubscriptionID (contents (group S) ! k) = ready \<and>
    (\<forall>j < k. SubscriptionID (contents (group S) ! j) \<noteq> ready) \<and>
    m = (contents (group S) ! k)\<lparr>SubscriptionID := i, SeqNo := seq s + 1\<rparr> \<and>
    contents (group S') = (contents (group S))[k := m] \<and> subs S' = (subs S)(i \<mapsto> s') \<and>
    s' = s\<lparr>seq := seq s + 1, inflight := inflight s + 1\<rparr> \<and>
    (sub_size s \<noteq> 0 \<longrightarrow> inflight s' \<le> sub_size s \<and> (\<not> sub_closed s \<longrightarrow> leases i (contents (group S')) \<le> sub_size s)) \<and>
    (maxMessages s \<noteq> 0 \<longrightarrow> seq s' \<le> maxMessages s) \<and>
    (\<forall>ops. ids_left (op # ops) S \<and> list_all (\<lambda>op. \<not> touches m op) ops \<longrightarrow>
       Next_copy (ring_slots (group S) ! k) (group (snd (consumer_run ops S'))) = m)"
proof -
  have inv: "ring_ok (group S)" "queue_inv (currentSubscriptionID S) (contents (group S))"
    "sub_inv (currentSubscriptionID S) (contents (group S)) i s"
    using consumers_reachable_inv [OF assms(1)] assms(2) by (simp_all add: consumers_inv_def)
  obtain s' g' where p: "Next_pass s (group S) = (Return m, s', g')" and S': "S' = put_sub i S (s', g')"
    using next_step_pass [OF assms(2-4)] .
  from inv(1) p show ?thesis
  proof (cases rule: Next_pass_cases)
    case (leased k)
    have lim: "sub_size s \<noteq> 0 \<Longrightarrow> inflight s + 1 \<le> sub_size s" "maxMessages s \<noteq> 0 \<Longrightarrow> seq s + 1 \<le> maxMessages s"
      using leased(1) by (auto simp: may_lease_def intro: inc_le)
    have "leases i (contents g') = inflight s + 1" if "\<not> sub_closed s"
      using Next_pass_books [OF inv p] that leased(7) by (simp add: books_def sub_inv_def)
    moreover have "Next_copy (ring_slots (group S) ! k) (group (snd (consumer_run ops S'))) = m"
      if "ids_left (op # ops) S" "list_all (\<lambda>op. \<not> touches m op) ops" for ops
    proof -
      have "consumers_reachable n S'" using consumers_reachable.step [OF assms(1), of op] that(1) assms(4) by simp
      moreover have "used g' = used (group S)" using length_ring_slots leased(8,11) inv(1) by metis
      then have "slot_holds (ring_slots (group S) ! k) m (group S')"
        using leased(2,5,6,8) inv(1) sub_inv_ids [OF inv(3,2)] contents_slot [of g' k]
        by (simp add: slot_holds_def Next_copy_def S' put_sub_def flip: leased(11) del: ring_slots_nth)
      ultimately show ?thesis using run_slot [of n S' _ m ops] that assms(4) by (auto simp: slot_holds_def)
    qed
    ultimately show ?thesis using leased lim S' inv(1) sub_inv_ids [OF inv(3,2)]
      by (intro exI [of _ k] exI [of _ s']) (simp add: put_sub_def)
  qed (use p in auto)
qed

theorem next_leases_oldest_ready_witness:
  "\<exists>S' m k. consumer_step (WakeNext 1) demo_state = (Leased m, S') \<and> CommitOffset m = 30 \<and>
     k < length (contents (group demo_state)) \<and> SubscriptionID (contents (group demo_state) ! k) = ready \<and>
     contents (group S') = (contents (group demo_state))[k := m] \<and>
     Next_copy (ring_slots (group demo_state) ! k) (group (snd (consumer_run [Do_Next 1, Do_Ack 1 4] S'))) = m"
proof -
  define s where "s = the (subs demo_state 1)"
  define m where "m = (case fst (consumer_step (WakeNext 1) demo_state) of Leased m \<Rightarrow> m | _ \<Rightarrow> Reset)"
  define S' where "S' = snd (consumer_step (WakeNext 1) demo_state)"
  have s: "subs demo_state 1 = Some s" unfolding s_def by code_simp
  have m: "fst (consumer_step (WakeNext 1) demo_state) = Leased m" "CommitOffset m = 30"
    "list_all (\<lambda>op. \<not> touches m op) [Do_Next 1, Do_Ack 1 4]" "ids_left (WakeNext 1 # [Do_Next 1, Do_Ack 1 4]) demo_state"
    unfolding m_def by code_simp+
  have "consumer_step (WakeNext 1) demo_state = (Leased m, S')" using m(1) by (simp add: prod_eq_iff S'_def)
  from next_leases_oldest_ready [OF demo_reachable s disjI2 [OF refl] this] m this show ?thesis by blast
qed

text \<open>The copy that \<open>Next\<close> makes after it has released the lock is not the leased message when the subscription is closed in between.\<close>

lemma copy_after_close_not_leased:
  "let S = snd (consumer_run [Do_Subscribe, Do_Offer (demo_message 10), Do_Next 1, Do_Close 1] (new_consumers 3))
   in SubscriptionID (Next_copy 0 (group S)) = ready \<and> SeqNo (Next_copy 0 (group S)) = 0"
  by code_simp

text \<open>(C15) Acknowledging the oldest message of a group makes progress: the call returns, commits that message
  first, together with every message acknowledged right behind it, and frees their slots.\<close>

theorem ack_oldest_commits:
  assumes "consumers_reachable n S" and "Commits (group S)" and "subs S i = Some s"
    and "contents (group S) = m # q" and "SubscriptionID m = i" and "SeqNo m = k" and "k \<noteq> 0"
    and "consumer_step (Do_Ack i k) S = (e, S')"
  shows "e = Acknowledged (commit_of m # map commit_of (takeWhile acked q)) \<and> contents (group S') = dropWhile acked q"
proof -
  have inv: "ring_ok (group S)" "sub_ID s = i"
    using consumers_reachable_inv [OF assms(1)] assms(3) by (simp_all add: consumers_inv_def sub_inv_def)
  obtain c s' g' where p: "Ack k s (group S) = (c, s', g')" by (metis prod.exhaust)
  then have S': "S' = put_sub i S (s', g')" "e = event_of Acknowledged c" using assms(3,8) by (auto simp: on_sub_def)
  have f: "find_slot (leased_to i k) (group S) = Some (ring_slots (group S) ! 0)"
    using assms(4-6) by (cases "ring_slots (group S)") (auto simp: find_slot_def contents_def leased_to_def)
  from inv(1) p show ?thesis
  proof (cases rule: Ack_cases)
    case (acked k' q')
    have "k' = 0" using acked(11) assms(4-6) inv(2) by (cases k') (auto simp: leased_to_def)
    then show ?thesis using acked assms S' by (simp add: put_sub_def)
  next
    case rejected
    then show ?thesis using p f inv assms(7) by (auto simp: Ack_def Let_def)
  qed
qed

definition demo_leased :: "nat consumers" where
  "demo_leased = snd (consumer_run [Do_Subscribe, Do_Offer (demo_message 10), Do_Offer (demo_message 20), Do_Next 1, Do_Next 1, Do_Ack 1 2]
     (new_consumers 3))"

lemma demo_leased_reachable: "consumers_reachable 3 demo_leased"
proof -
  have "ids_left [Do_Subscribe, Do_Offer (demo_message 10), Do_Offer (demo_message 20), Do_Next 1, Do_Next 1, Do_Ack 1 2]
     (new_consumers 3)" by code_simp
  then show ?thesis unfolding demo_leased_def by (intro consumers_reachable_run consumers_reachable.new) simp_all
qed

theorem ack_oldest_commits_witness:
  "fst (consumer_step (Do_Ack 1 1) demo_leased) =
     Acknowledged [\<lparr>commit_SegmentID = 7, commit_Offset = 10\<rparr>, \<lparr>commit_SegmentID = 7, commit_Offset = 20\<rparr>] \<and>
   contents (group (snd (consumer_step (Do_Ack 1 1) demo_leased))) = []"
proof -
  define m q where "m = hd (contents (group demo_leased))" and "q = tl (contents (group demo_leased))"
  have "contents (group demo_leased) \<noteq> []" by code_simp
  then have c: "contents (group demo_leased) = m # q" by (simp add: m_def q_def)
  define s where "s = the (subs demo_leased 1)"
  have s: "subs demo_leased 1 = Some s" "SubscriptionID m = 1" "SeqNo m = 1" "Commits (group demo_leased)"
    "commit_of m # map commit_of (takeWhile acked q) =
       [\<lparr>commit_SegmentID = 7, commit_Offset = 10\<rparr>, \<lparr>commit_SegmentID = 7, commit_Offset = 20\<rparr>]" "dropWhile acked q = []"
    unfolding s_def m_def q_def by code_simp+
  show ?thesis
    using ack_oldest_commits [OF demo_leased_reachable s(4,1) c s(2,3) _ prod.collapse [symmetric]] s(5,6) by simp
qed

text \<open>(C16) Closing a subscription gives back what it holds, but a call of \<open>Next\<close> that was already waiting is
  not cut off: when the subscription may still lease, the pass it makes on waking takes a message again, for the closed
  subscription, and the message stays leased to it.\<close>

theorem waiting_next_leases_after_close:
  assumes "ring_ok g" and "may_lease s" and "\<exists>m \<in> set (contents g). SubscriptionID m = sub_ID s \<or> SubscriptionID m = ready"
    and "Subscription_Close s g = (s', g')"
  shows "\<exists>m s'' g''. Next_pass s' g' = (Return m, s'', g'') \<and> sub_closed s'' \<and> SubscriptionID m = sub_ID s \<and> m \<in> set (contents g'')"
proof -
  note c = Subscription_Close_contents [OF assms(1,4)]
  obtain r s'' g'' where n: "Next_pass s' g' = (r, s'', g'')" by (metis prod.exhaust)
  obtain m where m: "m \<in> set (contents g)" "SubscriptionID m = sub_ID s \<or> SubscriptionID m = ready" using assms(3) by blast
  have "release (sub_ID s) m \<in> set (contents g')" "SubscriptionID (release (sub_ID s) m) = ready"
    using m by (auto simp: c(2) release_def)
  moreover have "may_lease s'" using assms(2) c(3) by (simp add: may_lease_def)
  ultimately have free: "\<not> (\<not> may_lease s' \<or> (\<forall>m \<in> set (contents g'). SubscriptionID m \<noteq> ready))" by blast
  from c(1) n show ?thesis
  proof (cases rule: Next_pass_cases)
    case (leased k)
    have "leased_by s' (contents g' ! k) \<in> set (contents g'')"
      unfolding leased(5) by (rule set_update_memI) (use leased(2) c(1) in simp)
    then show ?thesis using leased n c(3) by simp
  qed (use free in blast)
qed

theorem waiting_next_leases_after_close_witness:
  "\<exists>m s'' g''. Next_pass (fst (Subscription_Close (the (subs demo_leased 1)) (group demo_leased)))
      (snd (Subscription_Close (the (subs demo_leased 1)) (group demo_leased))) = (Return m, s'', g'') \<and> sub_closed s'' \<and>
    SubscriptionID m = 1 \<and> m \<in> set (contents g'')"
proof -
  have h: "ring_ok (group demo_leased)" using consumers_reachable_inv [OF demo_leased_reachable] by (simp add: consumers_inv_def)
  have s: "may_lease (the (subs demo_leased 1))" "sub_ID (the (subs demo_leased 1)) = 1"
    "list_ex (\<lambda>m. SubscriptionID m = 1) (contents (group demo_leased))" by code_simp+
  show ?thesis
    using waiting_next_leases_after_close [OF h s(1) _ prod.collapse [symmetric]] s(2,3) by (auto simp: list_ex_iff)
qed

end
