(* ===== verification/Byte_Codec.thy ===== *)
theory Byte_Codec
  imports Go_Prelude
begin

text \<open>
  Bytes on disk and on the wire: the interface of a self-delimiting encoding with what its users rely
  on, big-endian numbers, and the variable-length integers of Go's \<^verbatim>\<open>encoding/binary\<close>.
\<close>

unbundle bit_operations_syntax

type_synonym bytes = "u8 list"

subsection \<open>The interface of a self-delimiting encoding\<close>

locale prefix_codec =
  fixes enc :: "'a \<Rightarrow> bytes" and dec :: "bytes \<Rightarrow> ('a \<times> bytes) option" and valid :: "'a \<Rightarrow> bool"
  assumes dec_enc: "valid a \<Longrightarrow> dec (enc a @ rest) = Some (a, rest)"
    and enc_nonempty: "valid a \<Longrightarrow> enc a \<noteq> []"
begin

lemma enc_prefix_free:
  assumes "valid a" and "valid b" and "enc a @ r = enc b @ s"
  shows "a = b \<and> r = s"
proof -
  have "Some (a, r) = Some (b, s)" by (simp only: dec_enc [OF assms(1), symmetric] dec_enc [OF assms(2), symmetric] assms(3))
  then show ?thesis by simp
qed

lemma enc_inj: "valid a \<Longrightarrow> valid b \<Longrightarrow> enc a = enc b \<Longrightarrow> a = b"
  using enc_prefix_free [of a b "[]" "[]"] by simp

lemma concat_inj:
  "list_all valid as \<Longrightarrow> list_all valid bs \<Longrightarrow> concat (map enc as) = concat (map enc bs) \<Longrightarrow> as = bs"
proof (induction as arbitrary: bs)
  case Nil
  then show ?case using enc_nonempty [of "hd bs"] by (cases bs) simp_all
next
  case (Cons a as)
  note prems = Cons.prems and IH = Cons.IH
  show ?case
  proof (cases bs)
    case Nil
    then show ?thesis using prems enc_nonempty [of a] by simp
  next
    case (Cons b bs')
    have "a = b \<and> concat (map enc as) = concat (map enc bs')"
      by (rule enc_prefix_free) (use prems Cons in simp_all)
    then show ?thesis using IH [of bs'] prems Cons by simp
  qed
qed

end

subsection \<open>Big-endian numbers\<close>

text \<open>\<^verbatim>\<open>binary.BigEndian\<close>: the \<open>k\<close> bytes of a value and the value of bytes.\<close>

fun be_bytes :: "nat \<Rightarrow> nat \<Rightarrow> bytes" where
  "be_bytes 0 n = []"
| "be_bytes (Suc k) n = of_nat (n div 256 ^ k) # be_bytes k n"

fun be_value :: "bytes \<Rightarrow> nat" where
  "be_value [] = 0"
| "be_value (b # bs) = unat b * 256 ^ length bs + be_value bs"

lemma length_be_bytes [simp]: "length (be_bytes k n) = k"
  by (induction k) simp_all

lemma unat_u8: "unat (b :: u8) < 256"
proof -
  have "unat b < 2 ^ LENGTH(8)" by (rule unsigned_less)
  then show ?thesis by simp
qed

lemma unat_of_nat_u8: "unat (of_nat n :: u8) = n mod 256"
  by (simp add: unsigned_of_nat take_bit_eq_mod)

lemma be_value_bytes_mod: "be_value (be_bytes k n) = n mod 256 ^ k"
proof (induction k)
  case (Suc k)
  have "n mod (256 ^ k * 256) = 256 ^ k * (n div 256 ^ k mod 256) + n mod 256 ^ k" by (rule mod_mult2_eq)
  then show ?case unfolding be_bytes.simps be_value.simps length_be_bytes unat_of_nat_u8 Suc power_Suc2
    by (simp only: mult.commute)
qed simp

lemma be_value_bytes [simp]: "n < 256 ^ k \<Longrightarrow> be_value (be_bytes k n) = n"
  by (simp add: be_value_bytes_mod)

lemma be_value_less: "be_value bs < 256 ^ length bs"
proof (induction bs)
  case (Cons b bs)
  have "unat b \<le> 255" using unat_u8 [of b] by simp
  then have "unat b * 256 ^ length bs \<le> 255 * 256 ^ length bs" by (rule mult_le_mono1)
  moreover have "256 ^ length (b # bs) = 255 * 256 ^ length bs + (256 ^ length bs :: nat)" by simp
  ultimately show ?case using Cons unfolding be_value.simps by linarith
qed simp

lemma be_bytes_value [simp]: "be_bytes (length bs) (be_value bs) = bs"
proof -
  have gen: "be_bytes (length bs) (m * 256 ^ length bs + be_value bs) = bs" for m
  proof (induction bs arbitrary: m)
    case (Cons b bs)
    have v: "m * 256 ^ length (b # bs) + be_value (b # bs) = (m * 256 + unat b) * 256 ^ length bs + be_value bs"
      by (simp add: algebra_simps)
    have "((m * 256 + unat b) * 256 ^ length bs + be_value bs) div 256 ^ length bs = m * 256 + unat b"
      using be_value_less [of bs] by simp
    moreover have "(of_nat (m * 256 + unat b) :: u8) = b" 
      by (rule word_unat_eq_iff [THEN iffD2]) (use unat_u8 [of b] in \<open>simp add: unat_of_nat_u8 del: of_nat_add of_nat_mult\<close>)
    ultimately show ?case using Cons.IH [of "m * 256 + unat b"] unfolding v by simp
  qed simp
  from gen [of 0] show ?thesis by simp
qed

subsection \<open>Variable-length integers\<close>

fun uvarint_from :: "nat \<Rightarrow> u64 \<Rightarrow> bytes \<Rightarrow> u64 \<times> int" where
  "uvarint_from i x [] = (0, 0)"
| "uvarint_from i x (b # bs) =
     (if b < 128
      then (if i > 9 \<or> i = 9 \<and> b > 1 then (0, - (int i + 1)) else (x OR push_bit (7 * i) (ucast b), int i + 1))
      else uvarint_from (Suc i) (x OR push_bit (7 * i) (ucast (b AND 127))) bs)"

definition Uvarint :: "bytes \<Rightarrow> u64 \<times> int" where
  "Uvarint buf = uvarint_from 0 0 buf"

lemma unat_drop_bit_7: "unat (drop_bit 7 x) = unat x div 128" for x :: u64
  by (simp add: drop_bit_eq_div unat_div)

function PutUvarint :: "u64 \<Rightarrow> bytes" where
  "PutUvarint x = (if x < 128 then [ucast x] else (ucast x OR 128) # PutUvarint (drop_bit 7 x))"
  by auto

termination
proof (relation "measure unat")
  fix x :: u64 assume "\<not> x < 128"
  then have "0 < unat x" by (auto simp: word_less_nat_alt)
  then show "(drop_bit 7 x, x) \<in> measure unat" by (simp add: unat_drop_bit_7)
qed simp

declare PutUvarint.simps [simp del]

lemma varint_masks: "(127 :: u8) = mask 7" "(127 :: u64) = mask 7" "(128 :: u8) = push_bit 7 1"
  by (simp_all add: mask_eq_exp_minus_1)

lemma varint_low: "(ucast ((ucast v OR 128 :: u8) AND 127) :: u64) = v AND 127" for v :: u64
  unfolding varint_masks
  by (rule bit_word_eqI) (auto simp: bit_simps simp del: push_bit_of_1)

lemma varint_split: "push_bit i (v AND 127) OR push_bit (7 + i) (drop_bit 7 v) = push_bit i v" for v :: u64
proof (rule bit_word_eqI)
  fix n assume n: "n < LENGTH(64)"
  show "bit (push_bit i (v AND 127) OR push_bit (7 + i) (drop_bit 7 v)) n = bit (push_bit i v) n"
  proof (cases "n - i < 7")
    case False
    then have "7 + (n - (7 + i)) = n - i" by simp
    then show ?thesis using n False unfolding varint_masks by (auto simp: bit_simps)
  qed (use n in \<open>auto simp: varint_masks bit_simps\<close>)
qed

lemma varint_high: "\<not> (ucast v OR 128 :: u8) < 128" for v :: u64
  using le_word_or2 [of "128 :: u8" "ucast v"] by (simp add: or.commute not_less)

lemma varint_ucast: "v < 128 \<Longrightarrow> (ucast (ucast v :: u8) :: u64) = v \<and> (ucast v :: u8) < 128 \<and> unat (ucast v :: u8) = unat v" for v :: u64
proof -
  assume v: "v < 128"
  then have "unat v < 128" by (simp add: word_less_nat_alt)
  then have u: "unat (ucast v :: u8) = unat v" by (simp add: unsigned_ucast_eq unsigned_take_bit_eq take_bit_nat_eq_self)
  then have "unat (ucast (ucast v :: u8) :: u64) = unat v" by (simp add: unsigned_ucast_eq unsigned_take_bit_eq take_bit_nat_eq_self)
  then show ?thesis using u v by (simp add: word_unat_eq_iff word_less_nat_alt)
qed

lemma varint_shift:
  fixes v :: u64
  assumes "\<not> v < 128" and "i \<le> 9" and "unat v < 2 ^ (64 - 7 * i)"
  shows "i < 9" and "unat (drop_bit 7 v) < 2 ^ (64 - 7 * Suc i)"
proof -
  show i: "i < 9" using assms by (cases "i = 9") (auto simp: word_less_nat_alt)
  have "unat v < 2 ^ (64 - 7 * Suc i) * 128" using assms(3) i power_add [of "2::nat" "64 - 7 * Suc i" 7] by simp
  then show "unat (drop_bit 7 v) < 2 ^ (64 - 7 * Suc i)" unfolding unat_drop_bit_7 by (rule less_mult_imp_div_less)
qed

lemma uvarint_put:
  "i \<le> 9 \<Longrightarrow> unat v < 2 ^ (64 - 7 * i) \<Longrightarrow>
   uvarint_from i x (PutUvarint v @ rest) = (x OR push_bit (7 * i) v, int i + int (length (PutUvarint v)))"
proof (induction v arbitrary: i x rule: PutUvarint.induct)
  case (1 v)
  show ?case
  proof (cases "v < 128")
    case True
    note u = varint_ucast [OF True]
    have "\<not> (i = 9 \<and> ucast v > (1 :: u8))" using "1.prems" u by (auto simp: word_less_nat_alt)
    then show ?thesis using True u "1.prems"(1) by (subst (1 2) PutUvarint.simps) simp
  next
    case False
    note i = varint_shift(1) [OF False "1.prems"] and d = varint_shift(2) [OF False "1.prems"]
    have IH: "uvarint_from (Suc i) (x OR push_bit (7 * i) (v AND 127)) (PutUvarint (drop_bit 7 v) @ rest) =
      ((x OR push_bit (7 * i) (v AND 127)) OR push_bit (7 * Suc i) (drop_bit 7 v), int (Suc i) + int (length (PutUvarint (drop_bit 7 v))))"
      by (rule "1.IH" [OF False]) (use i d in simp_all)
    have P: "PutUvarint v = (ucast v OR 128) # PutUvarint (drop_bit 7 v)" using False by (subst PutUvarint.simps) simp
    show ?thesis unfolding P append_Cons uvarint_from.simps varint_low IH
      using varint_high [of v] varint_split [of "7 * i" v] by (simp add: or.assoc)
  qed
qed

text \<open>A number that is written can be read back, whatever follows it.\<close>

lemma Uvarint_PutUvarint [simp]: "Uvarint (PutUvarint v @ rest) = (v, int (length (PutUvarint v)))"
proof -
  have "unat v < 2 ^ LENGTH(64)" by (rule unsigned_less)
  then show ?thesis using uvarint_put [of 0 v 0 rest] by (simp add: Uvarint_def)
qed

lemma length_PutUvarint: "i \<le> 9 \<Longrightarrow> unat v < 2 ^ (64 - 7 * i) \<Longrightarrow> length (PutUvarint v) + i \<le> 10"
proof (induction v arbitrary: i rule: PutUvarint.induct)
  case (1 v)
  show ?case
  proof (cases "v < 128")
    case False
    note i = varint_shift(1) [OF False "1.prems"] and d = varint_shift(2) [OF False "1.prems"]
    show ?thesis using "1.IH" [OF False, of "Suc i"] i d False by (subst PutUvarint.simps) simp
  qed (use "1.prems" in \<open>subst PutUvarint.simps, simp\<close>)
qed

lemma PutUvarint_bounds: "0 < length (PutUvarint v)" "length (PutUvarint v) \<le> 10"
proof -
  have "unat v < 2 ^ LENGTH(64)" by (rule unsigned_less)
  then show "length (PutUvarint v) \<le> 10" using length_PutUvarint [of 0 v] by simp
  show "0 < length (PutUvarint v)" by (subst PutUvarint.simps) simp
qed

text \<open>A number cut off inside is not read.\<close>

lemma uvarint_cut: "k < length (PutUvarint v) \<Longrightarrow> uvarint_from i x (take k (PutUvarint v)) = (0, 0)"
proof (induction v arbitrary: i x k rule: PutUvarint.induct)
  case (1 v)
  show ?case
  proof (cases "v < 128 \<or> k = 0")
    case True
    have "length (PutUvarint v) = 1" if "v < 128" using that by (subst PutUvarint.simps) simp
    then have "k = 0" using True "1.prems" by auto
    then show ?thesis by simp
  next
    case False
    have P: "PutUvarint v = (ucast v OR 128) # PutUvarint (drop_bit 7 v)" using False by (subst PutUvarint.simps) simp
    obtain j where k: "k = Suc j" using False by (cases k) auto
    have "uvarint_from (Suc i) y (take j (PutUvarint (drop_bit 7 v))) = (0, 0)" for y
      by (rule "1.IH") (use False "1.prems" P k in auto)
    then show ?thesis unfolding P k take_Suc_Cons uvarint_from.simps using varint_high [of v] by simp
  qed
qed

lemma Uvarint_cut: "k < length (PutUvarint v) \<Longrightarrow> Uvarint (take k (PutUvarint v)) = (0, 0)"
  by (simp add: Uvarint_def uvarint_cut)

end
