(* ===== verification/Segment_File.thy ===== *)
theory Segment_File
  imports Byte_Codec
begin

text \<open>
  Segment files (\<^verbatim>\<open>mq/segments/file.go\<close>, \<^verbatim>\<open>iterator.go\<close>): an append-only file of messages, each behind
  its length, with recovery on opening, truncation, and iterators that may wait for more. The file
  on disk is its bytes. A call holds the file's mutex; a call that would wait on the condition
  variable answers \<open>Blocked\<close>.
\<close>

subsection \<open>The file\<close>

datatype segment_error =
    ErrFull | ErrExtend | BadVersion u8 | WrongMessageSize int | SeekFailed | WriteFailed | NegativeSize
  | OffsetNotPositive | OffsetOutOfBounds

record File =
  disk :: bytes
  maxSize :: int
  f_offset :: int
  f_term :: u32
  handle_closed :: bool

definition MaxVarintLen64 :: nat where "MaxVarintLen64 = 10"
definition version :: u8 where "version = 1"

text \<open>
  The loop of \<open>Open\<close> that looks for the end of the last whole message; \<open>len\<close> is the length of the
  buffer it reads into, which every read cuts to what was read. It need not end: no value is
  the value of a call that does not return.
\<close>

partial_function (option) Open_loop :: "bytes \<Rightarrow> nat \<Rightarrow> int \<Rightarrow> (segment_error + int \<times> bytes) option" where
  "Open_loop data len offset =
     (if offset \<ge> int (length data) then Some (Inr (offset, data))
      else if offset < 0 then Some (Inl SeekFailed)
      else (case Uvarint (take len (drop (nat offset) data)) of (messageSize, n) \<Rightarrow>
        if n = 0 then Some (Inl (WrongMessageSize offset))
        else if i64 (offset + i64 (n + i64 (uint messageSize))) > int (length data)
        then Some (Inr (offset, take (nat offset) data))
        else Open_loop data (length (take len (drop (nat offset) data))) (i64 (offset + i64 (n + i64 (uint messageSize))))))"

definition Open :: "bytes \<Rightarrow> int \<Rightarrow> (segment_error + File) option" where
  "Open data limit =
     (if data = [] then Some (Inr \<lparr>disk = [version], maxSize = limit, f_offset = 1, f_term = 1, handle_closed = False\<rparr>)
      else if hd data \<noteq> version then Some (Inl (BadVersion (hd data)))
      else map_option (\<lambda>r. case r of Inl e \<Rightarrow> Inl e
        | Inr (offset, data') \<Rightarrow> Inr \<lparr>disk = data', maxSize = limit, f_offset = offset, f_term = 1, handle_closed = False\<rparr>)
        (Open_loop data MaxVarintLen64 1))"

text \<open>
  What the operating system makes of a write: all bytes, or an error after some of them, which is that
  of a closed handle or not, and whether the file can then be cut back.
\<close>

datatype os_write = WriteOk | WriteError nat bool bool

definition frame :: "bytes \<Rightarrow> bytes" where
  "frame message = PutUvarint (of_nat (length message)) @ message"

definition File_Write :: "bytes \<Rightarrow> os_write \<Rightarrow> File \<Rightarrow> (segment_error option \<times> File) outcome" where
  "File_Write message os f =
     (if f_offset f \<ge> maxSize f then Ret (Some ErrFull, f)
      else let buf = frame message in
        case os of
          WriteOk \<Rightarrow> Ret (None, f\<lparr>disk := disk f @ buf, f_offset := i64 (f_offset f + int (length buf))\<rparr>)
        | WriteError n was_closed can_truncate \<Rightarrow>
            if was_closed then Ret (Some WriteFailed, f\<lparr>disk := disk f @ take n buf\<rparr>)
            else if can_truncate then Ret (Some WriteFailed, f\<lparr>disk := take (nat (f_offset f)) (disk f @ take n buf)\<rparr>)
            else Panic ''segment file might be corrupted'')"

definition IsFull :: "File \<Rightarrow> bool" where
  "IsFull f \<longleftrightarrow> f_offset f \<ge> maxSize f"

definition File_Truncate :: "int \<Rightarrow> File \<Rightarrow> segment_error option \<times> File" where
  "File_Truncate sz f =
     (if sz < 0 then (Some NegativeSize, f)
      else let sz = (if sz = 0 then 1 else sz) in
        if sz > f_offset f then (Some ErrExtend, f)
        else ((None, (if sz < f_offset f then f\<lparr>disk := take (nat sz) (disk f), f_offset := sz\<rparr> else f)
                \<lparr>f_term := f_term f + 1\<rparr>)))"

definition File_Sum :: "(bytes \<Rightarrow> 'h) \<Rightarrow> int \<Rightarrow> File \<Rightarrow> 'h \<times> int" where
  "File_Sum h sz f = (let sz = (if sz < 1 then f_offset f else sz) in (h (take (nat sz) (disk f)), sz))"

definition File_Close :: "File \<Rightarrow> File" where
  "File_Close f = f\<lparr>f_term := f_term f + 1, handle_closed := True\<rparr>"

subsection \<open>Iterators\<close>

datatype iterator_error = ErrIteratorClosed | ErrIteratorInvalid | EOF | BadLength | DiscardFailed | ReadFailed

text \<open>
  The reader of an iterator is a window on the file from \<open>reader_pos\<close> to \<open>endOffset\<close>. What is
  buffered of it stays what the file holds there while the term stays the same.
\<close>

record Iterator =
  it_term :: u32
  it_offset :: int
  endOffset :: int
  it_wait :: bool
  reader_pos :: int
  it_closed :: bool

datatype iterator_result = Got bytes int int | Failed iterator_error | Blocked

definition File_ReadAt :: "int \<Rightarrow> bool \<Rightarrow> File \<Rightarrow> segment_error + Iterator" where
  "File_ReadAt offset wait f =
     (if offset < 1 then Inl OffsetNotPositive
      else if offset > f_offset f then Inl OffsetOutOfBounds
      else Inr \<lparr>it_term = f_term f, it_offset = offset, endOffset = f_offset f, it_wait = wait, reader_pos = offset, it_closed = False\<rparr>)"

definition File_Read :: "bool \<Rightarrow> File \<Rightarrow> segment_error + Iterator" where
  "File_Read wait f = File_ReadAt 1 wait f"

definition window :: "File \<Rightarrow> Iterator \<Rightarrow> bytes" where
  "window f i = take (nat (endOffset i - reader_pos i)) (drop (nat (reader_pos i)) (disk f))"

datatype wait_result = WaitError iterator_error | WaitBlocked | WaitMore Iterator

definition nextWait :: "File \<Rightarrow> Iterator \<Rightarrow> wait_result" where
  "nextWait f i =
     (if endOffset i \<ge> maxSize f then WaitError EOF
      else if f_offset f = endOffset i \<and> f_term f = it_term i
      then (if it_closed i then WaitError ErrIteratorClosed else WaitBlocked)
      else if f_term f \<noteq> it_term i then WaitError ErrIteratorInvalid
      else WaitMore (i\<lparr>reader_pos := endOffset i, endOffset := f_offset f\<rparr>))"

text \<open>Allocating a slice beyond the address space panics.\<close>

definition maxAlloc :: u64 where "maxAlloc = push_bit 48 1"

text \<open>The body of \<open>Next\<close> from its label on.\<close>

function Iterator_Next_label :: "File \<Rightarrow> Iterator \<Rightarrow> (iterator_result \<times> Iterator) outcome" where
  "Iterator_Next_label f i =
     (let rest = window f i; buf = take MaxVarintLen64 rest; (messageLength, n) = Uvarint buf in
      if n = 0 then
        if length rest < MaxVarintLen64 then
          if it_wait i then
            case nextWait f i of
              WaitMore i' \<Rightarrow> Iterator_Next_label f i'
            | WaitError e \<Rightarrow> Ret (Failed e, i)
            | WaitBlocked \<Rightarrow> Ret (Blocked, i)
          else Ret (Failed EOF, i)
        else Ret (Failed BadLength, i)
      else if n < 0 then Ret (Failed DiscardFailed, i)
      else if messageLength > maxAlloc then Panic ''makeslice: len out of range''
      else if length rest < nat n + unat messageLength then Ret (Failed ReadFailed, i)
      else let offset = i64 (it_offset i + i64 (n + i64 (uint messageLength))) in
        Ret (Got (take (unat messageLength) (drop (nat n) rest)) (it_offset i) offset,
             i\<lparr>it_offset := offset, reader_pos := reader_pos i + n + uint messageLength\<rparr>))"
  by pat_completeness auto
termination
  by (relation "measure (\<lambda>(f, i). if endOffset i = f_offset f then 0 else 1)")
    (auto simp: nextWait_def split: if_splits)

declare Iterator_Next_label.simps [simp del]

definition Iterator_Next :: "File \<Rightarrow> Iterator \<Rightarrow> (iterator_result \<times> Iterator) outcome" where
  "Iterator_Next f i =
     (if it_closed i then Ret (Failed ErrIteratorClosed, i)
      else if f_term f \<noteq> it_term i then Ret (Failed ErrIteratorInvalid, i)
      else and_then (Iterator_Next_label f i) (\<lambda>(r, i'). case r of
          Failed e \<Rightarrow> Ret (r, i'\<lparr>it_closed := True\<rparr>) | _ \<Rightarrow> Ret (r, i')))"

definition Iterator_Close :: "Iterator \<Rightarrow> Iterator" where
  "Iterator_Close i = i\<lparr>it_closed := True\<rparr>"

end
