(* ===== verification/Segment_Log.thy ===== *)
theory Segment_Log
  imports Segment_File
begin

text \<open>
  A segment file as a log of messages: the layout on disk, what \<open>Open\<close> recovers after a crash, what
  a write leaves behind when it fails, and what iterators return.
\<close>

subsection \<open>Frames\<close>

definition fits :: "bytes \<Rightarrow> bool" where
  "fits m \<longleftrightarrow> length m \<le> 2 ^ 48"

lemma unat_length: "fits m \<Longrightarrow> unat (of_nat (length m) :: u64) = length m"
  by (simp add: fits_def unsigned_of_nat take_bit_nat_eq_self)

lemma uint_length: "fits m \<Longrightarrow> uint (of_nat (length m) :: u64) = int (length m)"
  using unat_length [of m] by (metis uint_nat)

abbreviation prefix_of :: "bytes \<Rightarrow> bytes" where
  "prefix_of m \<equiv> PutUvarint (of_nat (length m))"

lemma length_frame: "length (frame m) = length (prefix_of m) + length m"
  by (simp add: frame_def)

lemma frame_not_Nil [simp]: "frame m \<noteq> []"
  using PutUvarint_bounds(1) [of "of_nat (length m)"] by (auto simp: frame_def)

lemma Uvarint_frame: "Uvarint (take MaxVarintLen64 (frame m @ r)) = (of_nat (length m), int (length (prefix_of m)))"
  using PutUvarint_bounds(2) [of "of_nat (length m)"] by (simp add: frame_def MaxVarintLen64_def take_append)

definition dec_frame :: "bytes \<Rightarrow> (bytes \<times> bytes) option" where
  "dec_frame bs = (case Uvarint (take MaxVarintLen64 bs) of (len, n) \<Rightarrow>
     if n \<le> 0 \<or> length bs < nat n + unat len then None
     else Some (take (unat len) (drop (nat n) bs), drop (nat n + unat len) bs))"

interpretation frames: prefix_codec frame dec_frame fits
proof
  fix m r assume "fits m"
  then show "dec_frame (frame m @ r) = Some (m, r)"
    using PutUvarint_bounds(1) [of "of_nat (length m)"]
    unfolding dec_frame_def Uvarint_frame prod.case by (simp add: unat_length frame_def)
qed simp

subsection \<open>What a file holds\<close>

definition layout :: "bytes list \<Rightarrow> bytes" where
  "layout ms = version # concat (map frame ms)"

definition boundary :: "bytes list \<Rightarrow> nat \<Rightarrow> nat" where
  "boundary ms k = length (layout (take k ms))"

lemma boundary_Suc: "k < length ms \<Longrightarrow> boundary ms (Suc k) = boundary ms k + length (frame (ms ! k))"
  by (simp add: boundary_def layout_def take_Suc_conv_app_nth)

lemma boundary_length [simp]: "boundary ms (length ms) = length (layout ms)"
  by (simp add: boundary_def)

lemma boundary_0 [simp]: "boundary ms 0 = 1"
  by (simp add: boundary_def layout_def)

lemma drop_boundary: "k \<le> length ms \<Longrightarrow> drop (boundary ms k) (layout ms @ tail) = concat (map frame (drop k ms)) @ tail"
proof -
  assume k: "k \<le> length ms"
  have "layout ms = layout (take k ms) @ concat (map frame (drop k ms))"
    using append_take_drop_id [of k ms] unfolding layout_def by (metis append_Cons concat_append map_append)
  then show ?thesis unfolding boundary_def by simp
qed

lemma boundary_le: "k \<le> length ms \<Longrightarrow> boundary ms k \<le> length (layout ms)"
  using arg_cong [OF drop_boundary [of k ms "[]"], of length] boundary_length
  unfolding boundary_def layout_def by (metis append_take_drop_id concat_append length_Cons length_append map_append not_less_eq_eq le_add1)

lemma take_boundary: "k \<le> length ms \<Longrightarrow> take (boundary ms k) (layout ms) = layout (take k ms)"
  using append_take_drop_id [of k ms] unfolding boundary_def layout_def
  by (metis append_Cons append_eq_conv_conj concat_append map_append)

definition holds :: "File \<Rightarrow> bytes list \<Rightarrow> bool" where
  "holds f ms \<longleftrightarrow> disk f = layout ms \<and> f_offset f = int (length (disk f)) \<and> length (disk f) < 2 ^ 62 \<and> list_all fits ms"

lemma holds_unique: "holds f ms \<Longrightarrow> holds f ms' \<Longrightarrow> ms = ms'"
  by (rule frames.concat_inj) (simp_all add: holds_def layout_def)

subsection \<open>Recovery\<close>

text \<open>The buffer is still long enough to read a length, or what is left of the file.\<close>

definition wide :: "bytes \<Rightarrow> nat \<Rightarrow> nat \<Rightarrow> bool" where
  "wide data len offset \<longleftrightarrow> len \<le> MaxVarintLen64 \<and> min MaxVarintLen64 (length data - offset) \<le> len"

lemma wide_take: "wide data len offset \<Longrightarrow> take len (drop offset data) = take MaxVarintLen64 (drop offset data)"
  by (rule nth_equalityI) (auto simp: wide_def)

lemma wide_next: "wide data len offset \<Longrightarrow> offset \<le> offset' \<Longrightarrow> wide data (length (take MaxVarintLen64 (drop offset data))) offset'"
  by (auto simp: wide_def)

lemma Open_loop_step:
  assumes "k < length ms" "list_all fits ms" "data = layout ms @ tail" "length data < 2 ^ 62" "wide data w (boundary ms k)"
  shows "\<exists>w'. wide data w' (boundary ms (Suc k)) \<and> Open_loop data w (int (boundary ms k)) = Open_loop data w' (int (boundary ms (Suc k)))"
proof -
  let ?m = "ms ! k"
  have d: "drop (boundary ms k) data = frame ?m @ concat (map frame (drop (Suc k) ms)) @ tail"
    using drop_boundary [of k ms tail] assms(1,3) Cons_nth_drop_Suc [OF assms(1)] by (metis append.assoc concat.simps(2) less_imp_le list.map(2))
  have fit: "fits ?m" using assms(1,2) by (simp add: list_all_length)
  have len: "boundary ms (Suc k) \<le> length data" using boundary_le [of "Suc k" ms] assms(1,3) by simp
  have lt: "boundary ms k < length data" using len boundary_Suc [OF assms(1)] frame_not_Nil [of ?m] by (cases "frame ?m") auto
  have inc: "i64 (int (boundary ms k) + i64 (int (length (prefix_of ?m)) + i64 (uint (of_nat (length ?m) :: u64)))) = int (boundary ms (Suc k))"
    using len assms(4) boundary_Suc [OF assms(1)] by (simp add: uint_length [OF fit] length_frame)
  let ?w = "length (take MaxVarintLen64 (drop (boundary ms k) data))"
  have "Open_loop data w (int (boundary ms k)) = Open_loop data ?w (int (boundary ms (Suc k)))"
    using lt len PutUvarint_bounds(1) [of "of_nat (length ?m)"]
    by (subst Open_loop.simps) (simp add: wide_take [OF assms(5), unfolded d] d Uvarint_frame inc del: take_append length_take)
  moreover have "wide data ?w (boundary ms (Suc k))" using boundary_Suc [OF assms(1)] by (intro wide_next [OF assms(5)]) simp
  ultimately show ?thesis by blast
qed

lemma Open_loop_frames:
  assumes "list_all fits ms" "data = layout ms @ tail" "length data < 2 ^ 62" and "k \<le> length ms" and "wide data w (boundary ms k)"
  shows "\<exists>w'. wide data w' (length (layout ms)) \<and> Open_loop data w (int (boundary ms k)) = Open_loop data w' (int (length (layout ms)))"
  using assms(4,5)
proof (induction k arbitrary: w rule: inc_induct)
  case (step k)
  then show ?case using Open_loop_step [OF step.hyps(2) assms(1-3) step.prems] step.IH by metis
qed auto

lemma Open_layout:
  assumes "list_all fits ms" "data = layout ms @ tail" "length data < 2 ^ 62"
  shows "\<exists>w. wide data w (length (layout ms)) \<and> Open data limit = map_option (\<lambda>r. case r of Inl e \<Rightarrow> Inl e
        | Inr (offset, data') \<Rightarrow> Inr \<lparr>disk = data', maxSize = limit, f_offset = offset, f_term = 1, handle_closed = False\<rparr>)
        (Open_loop data w (int (length (layout ms))))"
proof -
  have "data \<noteq> []" "hd data = version" using assms(2) by (simp_all add: layout_def)
  moreover have "wide data MaxVarintLen64 (boundary ms 0)" by (simp add: wide_def)
  ultimately show ?thesis using Open_loop_frames [OF assms, of 0 MaxVarintLen64] by (auto simp: Open_def)
qed

text \<open>What a crash in the middle of writing \<open>m\<close> leaves behind the whole messages.\<close>

lemma Open_loop_torn:
  assumes "data = layout ms @ take j (frame m)" "length data < 2 ^ 62" "fits m"
    "length (prefix_of m) \<le> j" "j < length (frame m)" and w: "wide data w (length (layout ms))"
  shows "Open_loop data w (int (length (layout ms))) = Some (Inr (int (length (layout ms)), layout ms))"
proof -
  let ?L = "length (layout ms)"
  have P: "0 < length (prefix_of m)" "length (prefix_of m) \<le> 10" using PutUvarint_bounds by auto
  have t: "take j (frame m) = prefix_of m @ take (j - length (prefix_of m)) m" using assms(4) by (simp add: frame_def)
  have u: "Uvarint (take MaxVarintLen64 (take j (frame m))) = (of_nat (length m), int (length (prefix_of m)))"
    unfolding t using P by (simp add: MaxVarintLen64_def)
  have "0 < j" using P(1) assms(4) by linarith
  then have len: "?L < length data" "length data < ?L + length (frame m)" using assms(1,5) by simp_all
  have L: "?L < 2 ^ 62" "int ?L + int (length (prefix_of m)) + int (length m) < 2 ^ 63"
    using len assms(2,3) P by (auto simp: fits_def)
  then have inc: "i64 (int ?L + i64 (int (length (prefix_of m)) + i64 (uint (of_nat (length m) :: u64)))) = int ?L + int (length (frame m))"
    by (simp add: uint_length [OF assms(3)] length_frame)
  have d: "drop ?L data = take j (frame m)" "take ?L data = layout ms" by (simp_all add: assms(1))
  show ?thesis using len P by (subst Open_loop.simps) (simp add: wide_take [OF w, unfolded d] d u inc del: take_take)
qed

lemma Open_loop_cut_prefix:
  assumes "data = layout ms @ take j (frame m)" "0 < j" "j < length (prefix_of m)" and w: "wide data w (length (layout ms))"
  shows "Open_loop data w (int (length (layout ms))) = Some (Inl (WrongMessageSize (int (length (layout ms)))))"
proof -
  have "take MaxVarintLen64 (take j (frame m)) = take j (prefix_of m)"
    using assms(3) PutUvarint_bounds(2) [of "of_nat (length m)"] by (simp add: frame_def MaxVarintLen64_def min_def)
  then have u: "Uvarint (take MaxVarintLen64 (take j (frame m))) = (0, 0)" using Uvarint_cut [OF assms(3)] by simp
  have "length (layout ms) < length data" using assms(1-3) by (simp add: frame_def)
  moreover have d: "drop (length (layout ms)) data = take j (frame m)" by (simp add: assms(1))
  ultimately show ?thesis by (subst Open_loop.simps) (simp add: wide_take [OF w, unfolded d] d u del: take_append take_take)
qed

subsection \<open>Writing\<close>

lemma holds_Write:
  assumes "holds f ms" "fits m" "length (disk f) + length (frame m) < 2 ^ 62" "File_Write m os f = Ret (e, f')"
  shows "(e = None \<longleftrightarrow> os = WriteOk \<and> \<not> IsFull f) \<and> (e = None \<longrightarrow> holds f' (ms @ [m])) \<and>
    (e \<noteq> None \<longrightarrow> holds f' ms \<or> (\<exists>n b. os = WriteError n True b)) \<and> f_term f' = f_term f \<and> maxSize f' = maxSize f"
proof (cases "IsFull f")
  case True
  then show ?thesis using assms by (auto simp: File_Write_def IsFull_def)
next
  case False
  show ?thesis
  proof (cases os)
    case WriteOk
    have "i64 (f_offset f + int (length (frame m))) = int (length (disk f) + length (frame m))"
      using assms(1,3) by (simp add: holds_def)
    then show ?thesis using WriteOk False assms by (auto simp: File_Write_def IsFull_def holds_def layout_def Let_def)
  next
    case (WriteError n b c)
    then show ?thesis using False assms by (auto simp: File_Write_def IsFull_def holds_def Let_def split: if_splits)
  qed
qed

lemma holds_Truncate:
  assumes "holds f ms" and "k \<le> length ms"
  shows "fst (File_Truncate (int (boundary ms k)) f) = None" and "holds (snd (File_Truncate (int (boundary ms k)) f)) (take k ms)"
    and "f_term (snd (File_Truncate (int (boundary ms k)) f)) = f_term f + 1"
proof -
  have b: "boundary ms k \<le> length (disk f)" "0 < boundary ms k" "take (boundary ms k) (disk f) = layout (take k ms)"
    using boundary_le [OF assms(2)] take_boundary [OF assms(2)] assms(1) by (simp_all add: holds_def boundary_def layout_def)
  have off: "f_offset f = int (length (disk f))" "length (disk f) < 2 ^ 62" using assms(1) unfolding holds_def by blast+
  have l: "list_all fits (take k ms)" using assms(1) by (simp add: holds_def list_all_iff) (meson in_set_takeD)
  define g where "g = (if boundary ms k < length (disk f)
    then f\<lparr>disk := layout (take k ms), f_offset := int (boundary ms k)\<rparr> else f)\<lparr>f_term := f_term f + 1\<rparr>"
  have t: "File_Truncate (int (boundary ms k)) f = (None, g)"
    using b(1,2) unfolding File_Truncate_def g_def off by (simp add: b(3) not_less)
  show "fst (File_Truncate (int (boundary ms k)) f) = None" "f_term (snd (File_Truncate (int (boundary ms k)) f)) = f_term f + 1"
    by (simp_all add: t g_def)
  have "holds g (take k ms)"
  proof (cases "boundary ms k < length (disk f)")
    case True
    then show ?thesis using l off by (simp add: g_def holds_def) (simp add: boundary_def)
  next
    case False
    then have "take (boundary ms k) (disk f) = disk f" by simp
    then show ?thesis using False l off b(3) by (simp add: g_def holds_def)
  qed
  then show "holds (snd (File_Truncate (int (boundary ms k)) f)) (take k ms)" by (simp add: t)
qed

subsection \<open>Iterating\<close>

text \<open>An iterator that stands before message \<open>k\<close> and sees the first \<open>e\<close> messages.\<close>

definition stands :: "File \<Rightarrow> bytes list \<Rightarrow> nat \<Rightarrow> nat \<Rightarrow> Iterator \<Rightarrow> bool" where
  "stands f ms k e i \<longleftrightarrow> holds f ms \<and> k \<le> e \<and> e \<le> length ms \<and> it_term i = f_term f \<and> \<not> it_closed i \<and>
     it_offset i = int (boundary ms k) \<and> reader_pos i = int (boundary ms k) \<and> endOffset i = int (boundary ms e)"

lemma boundary_mono: "k \<le> e \<Longrightarrow> e \<le> length ms \<Longrightarrow> boundary ms k \<le> boundary ms e"
  by (induction rule: dec_induct) (auto simp: boundary_Suc)

lemma window_stands:
  assumes "stands f ms k e i"
  shows "window f i = concat (map frame (drop k (take e ms)))"
proof -
  have e: "e \<le> length ms" "k \<le> e" "disk f = layout ms" using assms by (auto simp: stands_def holds_def)
  have "window f i = drop (boundary ms k) (take (boundary ms e) (layout ms))"
    using assms e(3) by (simp add: window_def stands_def drop_take nat_diff_distrib boundary_mono flip: of_nat_diff)
  also have "\<dots> = drop (boundary (take e ms) k) (layout (take e ms))" 
    using take_boundary [OF e(1)] e by (simp add: boundary_def min_def)
  also have "\<dots> = concat (map frame (drop k (take e ms)))" using drop_boundary [of k "take e ms" "[]"] e by simp
  finally show ?thesis .
qed

lemma Next_message:
  assumes s: "stands f ms k e i" and k: "k < e"
  shows "\<exists>i'. Iterator_Next f i = Ret (Got (ms ! k) (int (boundary ms k)) (int (boundary ms (Suc k))), i') \<and>
    stands f ms (Suc k) e i' \<and> it_wait i' = it_wait i"
proof -
  let ?m = "ms ! k"
  have e: "e \<le> length ms" "list_all fits ms" "length (layout ms) < 2 ^ 62" using s by (auto simp: stands_def holds_def)
  have fit: "fits ?m" using e k by (simp add: list_all_length)
  have "drop k (take e ms) = ?m # drop (Suc k) (take e ms)" using e k Cons_nth_drop_Suc [of k "take e ms"] by simp
  then have w: "window f i = frame ?m @ concat (map frame (drop (Suc k) (take e ms)))" using window_stands [OF s] by simp
  have P: "0 < length (prefix_of ?m)" using PutUvarint_bounds by auto
  have b: "boundary ms (Suc k) = boundary ms k + length (frame ?m)" "boundary ms (Suc k) < 2 ^ 62"
    using boundary_Suc [of k ms] boundary_le [of "Suc k" ms] e k by simp_all
  have off: "i64 (it_offset i + i64 (int (length (prefix_of ?m)) + i64 (uint (of_nat (length ?m) :: u64)))) = int (boundary ms (Suc k))"
    using s b by (simp add: uint_length [OF fit] length_frame stands_def)
  have alloc: "\<not> (of_nat (length ?m) :: u64) > maxAlloc"
    using fit by (simp add: word_less_nat_alt unat_length fits_def maxAlloc_def)
  have "Iterator_Next_label f i = Ret (Got ?m (it_offset i) (int (boundary ms (Suc k))),
      i\<lparr>it_offset := int (boundary ms (Suc k)), reader_pos := reader_pos i + int (length (prefix_of ?m)) + int (length ?m)\<rparr>)"
    unfolding Iterator_Next_label.simps [of f i] w Let_def Uvarint_frame prod.case off
    using P alloc by (simp add: unat_length [OF fit] uint_length [OF fit] length_frame) (simp add: frame_def)
  then show ?thesis using s k b by (auto simp: Iterator_Next_def stands_def length_frame)
qed

lemma Next_end:
  assumes s: "stands f ms e e i"
  shows "Iterator_Next f i =
    (if it_wait i \<and> endOffset i < maxSize f then
       if e = length ms then Ret (Blocked, i)
       else Iterator_Next f (i\<lparr>endOffset := f_offset f\<rparr>)
     else Ret (Failed EOF, i\<lparr>it_closed := True\<rparr>))"
proof -
  have w: "window f i = []" using window_stands [OF s] by simp
  have u: "Uvarint [] = (0, 0)" by (simp add: Uvarint_def)
  have e: "e \<le> length ms" "f_offset f = int (length (layout ms))" "endOffset i = int (boundary ms e)" "reader_pos i = int (boundary ms e)"
    using s by (auto simp: stands_def holds_def)
  have mono: "boundary ms e = length (layout ms) \<longleftrightarrow> e = length ms"
  proof
    assume a: "boundary ms e = length (layout ms)"
    show "e = length ms"
    proof (rule ccontr)
      assume "e \<noteq> length ms"
      then have "e < length ms" using e(1) by simp
      then have "boundary ms (Suc e) \<le> length (layout ms)" "boundary ms (Suc e) = boundary ms e + length (frame (ms ! e))"
        using boundary_le [of "Suc e" ms] boundary_Suc [of e ms] by simp_all
      then show False using a by simp
    qed
  qed simp
  have n: "nextWait f i = (if endOffset i \<ge> maxSize f then WaitError EOF
      else if e = length ms then WaitBlocked else WaitMore (i\<lparr>endOffset := f_offset f\<rparr>))"
    using s e mono by (auto simp: nextWait_def stands_def)
  have c: "\<not> it_closed i" "f_term f = it_term i" using s by (simp_all add: stands_def)
  show ?thesis
    unfolding Iterator_Next_def Iterator_Next_label.simps [of f i] w using c
    by (auto simp: u n MaxVarintLen64_def)
qed

text \<open>Reading on until the iterator fails or has to wait.\<close>

fun drain :: "nat \<Rightarrow> File \<Rightarrow> Iterator \<Rightarrow> (bytes \<times> int \<times> int) list \<times> (iterator_result \<times> Iterator) outcome" where
  "drain 0 f i = ([], Iterator_Next f i)"
| "drain (Suc n) f i = (case Iterator_Next f i of
     Ret (Got m a b, i') \<Rightarrow> (case drain n f i' of (ms, r) \<Rightarrow> ((m, a, b) # ms, r))
   | r \<Rightarrow> ([], r))"

definition entry :: "bytes list \<Rightarrow> nat \<Rightarrow> bytes \<times> int \<times> int" where
  "entry ms k = (ms ! k, int (boundary ms k), int (boundary ms (Suc k)))"

lemma drain_stands:
  "stands f ms k (length ms) i \<Longrightarrow> k + n = length ms \<Longrightarrow>
   \<exists>i'. drain n f i = (map (entry ms) [k..<length ms], Iterator_Next f i') \<and> stands f ms (length ms) (length ms) i' \<and> it_wait i' = it_wait i"
proof (induction n arbitrary: k i)
  case (Suc n)
  obtain i' where i': "Iterator_Next f i = Ret (Got (ms ! k) (int (boundary ms k)) (int (boundary ms (Suc k))), i')"
    "stands f ms (Suc k) (length ms) i'" "it_wait i' = it_wait i" using Next_message [OF Suc.prems(1)] Suc.prems(2) by auto
  obtain i'' where "drain n f i' = (map (entry ms) [Suc k..<length ms], Iterator_Next f i'')"
    "stands f ms (length ms) (length ms) i''" "it_wait i'' = it_wait i'" using Suc.IH [OF i'(2)] Suc.prems(2) by auto
  then show ?case using i' Suc.prems(2) by (auto simp: entry_def upt_conv_Cons)
qed auto

lemma stands_ReadAt:
  assumes "holds f ms" "k \<le> length ms"
  shows "\<exists>i. File_ReadAt (int (boundary ms k)) w f = Inr i \<and> stands f ms k (length ms) i \<and> it_wait i = w"
proof -
  have "0 < boundary ms k" "boundary ms k \<le> length (layout ms)" using boundary_le [OF assms(2)] by (simp_all add: boundary_def layout_def)
  then show ?thesis using assms by (auto simp: File_ReadAt_def stands_def holds_def)
qed

end
