(* ===== verification/Segment_Properties.thy ===== *)
theory Segment_Properties
  imports Segment_Log
begin

text \<open>
  The properties of segment files: what is written is read back, recovery after a crash, its two
  failures, failed writes, and iterators that follow the file.
\<close>

fun write_all :: "bytes list \<Rightarrow> File \<Rightarrow> File option" where
  "write_all [] f = Some f"
| "write_all (m # ms) f = (case File_Write m WriteOk f of Ret (None, f') \<Rightarrow> write_all ms f' | _ \<Rightarrow> None)"

definition new_file :: "int \<Rightarrow> File" where
  "new_file limit = \<lparr>disk = [version], maxSize = limit, f_offset = 1, f_term = 1, handle_closed = False\<rparr>"

lemma layout_append: "length (layout (ms @ m # ns)) = length (layout ms) + length (frame m) + length (concat (map frame ns))"
  by (simp add: layout_def)

lemma holds_write_all:
  "holds f ns \<Longrightarrow> list_all fits ms \<Longrightarrow> length (layout (ns @ ms)) < 2 ^ 62 \<Longrightarrow> int (length (layout (ns @ ms))) \<le> maxSize f \<Longrightarrow>
   \<exists>f'. write_all ms f = Some f' \<and> holds f' (ns @ ms) \<and> maxSize f' = maxSize f"
proof (induction ms arbitrary: f ns)
  case (Cons m ms)
  have pos: "0 < length (frame m)" by simp
  have len: "length (disk f) + length (frame m) < 2 ^ 62" "\<not> IsFull f"
    using Cons.prems(1,3,4) layout_append [of ns m ms] pos by (auto simp: holds_def IsFull_def simp del: length_greater_0_conv)
  obtain f' where w: "File_Write m WriteOk f = Ret (None, f')" using len(2) by (simp add: File_Write_def IsFull_def Let_def)
  have "holds f' (ns @ [m])" "maxSize f' = maxSize f"
    using holds_Write [OF Cons.prems(1) _ len(1) w] Cons.prems(2) by simp_all
  then show ?case using Cons.IH [of f' "ns @ [m]"] Cons.prems w by simp
qed simp

definition bad_disk :: bytes where
  "bad_disk = [1, 9, 0, 0, 0, 0, 0, 0, 0, 0, 0, 128, 128, 128, 128, 128, 128, 128, 128, 128, 2]"

lemma bad_disk_reads:
  "Uvarint (take MaxVarintLen64 (drop (Suc 0) bad_disk)) = (9, 1)" "Uvarint (take MaxVarintLen64 (drop 11 bad_disk)) = (0, - 10)"
  "min 20 MaxVarintLen64 = MaxVarintLen64" "min 10 MaxVarintLen64 = MaxVarintLen64" "length bad_disk = 21" "bad_disk \<noteq> []" "hd bad_disk = version"
  by code_simp+

lemma bad_disk_diverges:
  "Open_loop data len offset = Some r \<Longrightarrow> data = bad_disk \<and> len = MaxVarintLen64 \<longrightarrow> offset \<noteq> 1 \<and> offset \<noteq> 11"
  by (erule Open_loop.raw_induct [rotated]) (auto simp: bad_disk_reads split: if_splits, blast+)

text \<open>(C17) What is written to a segment can be read back: the messages written to a new file that has room for
  them are returned by an iterator in order, each with the offset at which it starts and the offset behind it, followed by the
  end of the file.\<close>

theorem segment_write_read:
  assumes "list_all fits ms" and "length (layout ms) < 2 ^ 62" and "int (length (layout ms)) \<le> limit"
  shows "\<exists>f0 f i i'. Open [] limit = Some (Inr f0) \<and> write_all ms f0 = Some f \<and> disk f = layout ms \<and> File_Read False f = Inr i \<and>
    drain (length ms) f i = (map (entry ms) [0..<length ms], Ret (Failed EOF, i'))"
proof -
  have "Open [] limit = Some (Inr (new_file limit))" "holds (new_file limit) []"
    by (simp_all add: Open_def new_file_def holds_def layout_def)
  moreover obtain f where f: "write_all ms (new_file limit) = Some f" "holds f ms"
    using holds_write_all [of "new_file limit" "[]" ms] assms calculation(2) by (auto simp: new_file_def)
  moreover obtain i where i: "File_Read False f = Inr i" "stands f ms 0 (length ms) i" "\<not> it_wait i"
    using stands_ReadAt [OF f(2), of 0 False] by (auto simp: File_Read_def)
  moreover obtain i' where i': "drain (length ms) f i = (map (entry ms) [0..<length ms], Iterator_Next f i')"
      "stands f ms (length ms) (length ms) i'" "\<not> it_wait i'" using drain_stands [OF i(2)] i(3) by auto
  moreover have "Iterator_Next f i' = Ret (Failed EOF, i'\<lparr>it_closed := True\<rparr>)" using Next_end [OF i'(2)] i'(3) by simp
  ultimately show ?thesis by (auto simp: holds_def)
qed

theorem segment_write_read_witness:
  "\<exists>f0 f i i'. Open [] 100 = Some (Inr f0) \<and> write_all [[104, 105], []] f0 = Some f \<and> disk f = [1, 2, 104, 105, 0] \<and> File_Read False f = Inr i \<and>
    drain 2 f i = ([([104, 105], 1, 4), ([], 4, 5)], Ret (Failed EOF, i'))"
proof -
  have l: "layout [[104, 105], []] = [1, 2, 104, 105, 0]" and n: "length [[104, 105], []] = 2"
    and e: "map (entry [[104, 105], []]) [0..<2] = [([104, 105], 1, 4), ([], 4, 5)]" by code_simp+
  have f: "list_all fits [[104, 105], []]" by (simp add: fits_def)
  show ?thesis
    using segment_write_read [of "[[104, 105], []]" 100] unfolding l n e by (rule meta_mp) (use f in simp_all)
qed

text \<open>(C18) Recovery after a crash: when a crash leaves any part of a frame behind the whole messages of a file, with
  its length complete, \<open>Open\<close> returns and finds exactly the whole messages, cutting the rest off.\<close>

theorem segment_recovery:
  assumes "list_all fits ms" and "fits m" and "length (layout ms) + j < 2 ^ 62"
    and "j = 0 \<or> length (PutUvarint (of_nat (length m))) \<le> j" and "j < length (frame m)"
  shows "\<exists>f. Open (layout ms @ take j (frame m)) limit = Some (Inr f) \<and> disk f = layout ms \<and> f_offset f = int (length (layout ms))"
proof -
  let ?data = "layout ms @ take j (frame m)"
  have len: "length ?data < 2 ^ 62" using assms(3,5) by simp
  obtain w where w: "wide ?data w (length (layout ms))" and o: "Open ?data limit = map_option (\<lambda>r. case r of Inl e \<Rightarrow> Inl e
      | Inr (offset, data') \<Rightarrow> Inr \<lparr>disk = data', maxSize = limit, f_offset = offset, f_term = 1, handle_closed = False\<rparr>)
      (Open_loop ?data w (int (length (layout ms))))"
    using Open_layout [OF assms(1) refl len] by blast
  have "Open_loop ?data w (int (length (layout ms))) = Some (Inr (int (length (layout ms)), layout ms))"
  proof (cases "j = 0")
    case True
    then show ?thesis by (subst Open_loop.simps) simp
  next
    case False
    then show ?thesis using assms w by (intro Open_loop_torn [OF refl len]) auto
  qed
  then show ?thesis using o by simp
qed

theorem segment_recovery_witness:
  "\<exists>f. Open ([1, 2, 104, 105] @ take 3 (frame [1, 2, 3, 4])) 100 = Some (Inr f) \<and> disk f = [1, 2, 104, 105] \<and> f_offset f = 4"
proof -
  have "layout [[104, 105]] = [1, 2, 104, 105]" "length (PutUvarint (of_nat (length [1 :: u8, 2, 3, 4]))) = 1" "length (frame [1, 2, 3, 4]) = 5"
    by code_simp+
  then show ?thesis using segment_recovery [of "[[104, 105]]" "[1, 2, 3, 4]" 3 100] by (simp add: fits_def)
qed

text \<open>(C19) A crash that cuts the length of a message in two makes the file unreadable: \<open>Open\<close> fails instead of
  cutting the torn message off.\<close>

theorem segment_recovery_fails_on_torn_length:
  assumes "list_all fits ms" and "length (layout ms) + j < 2 ^ 62" and "0 < j" and "j < length (PutUvarint (of_nat (length m)))"
  shows "Open (layout ms @ take j (frame m)) limit = Some (Inl (WrongMessageSize (int (length (layout ms)))))"
proof -
  have len: "length (layout ms @ take j (frame m)) < 2 ^ 62" using assms(2) by simp
  show ?thesis using Open_layout [OF assms(1) refl len, of limit] Open_loop_cut_prefix [OF refl assms(3,4), of ms] by auto
qed

theorem segment_recovery_fails_on_torn_length_witness:
  "Open ([1, 2, 104, 105] @ take 1 (frame (replicate 200 7))) 1000 = Some (Inl (WrongMessageSize 4))"
proof -
  have "layout [[104, 105]] = [1, 2, 104, 105]" by code_simp
  moreover have "length (PutUvarint (of_nat (length (replicate 200 (7 :: u8))))) = 2" by code_simp
  ultimately show ?thesis
    using segment_recovery_fails_on_torn_length [of "[[104, 105]]" 1 "replicate 200 7" 1000] by (simp add: fits_def)
qed

text \<open>(C20) \<open>Open\<close> does not return on every file: a length of more than 64 bits counts as negative, so that the
  scan moves back to a message it has already seen.\<close>

theorem segment_open_may_not_return:
  "Open [1, 9, 0, 0, 0, 0, 0, 0, 0, 0, 0, 128, 128, 128, 128, 128, 128, 128, 128, 128, 2] limit = None"
proof -
  have "Open_loop bad_disk MaxVarintLen64 1 = None"
    using bad_disk_diverges [of bad_disk MaxVarintLen64 1] by (cases "Open_loop bad_disk MaxVarintLen64 1") auto
  then have "Open bad_disk limit = None" by (simp add: Open_def bad_disk_reads)
  then show ?thesis by (simp add: bad_disk_def)
qed

text \<open>(C21) A write is all or nothing: it succeeds exactly when the file is not full and the bytes reach the disk, and then
  the file holds one more message; when it fails with the file open, the file holds what it held, even if some bytes had been written.\<close>

theorem segment_write_atomic:
  assumes "holds f ms" and "fits m" and "length (disk f) + length (frame m) < 2 ^ 62" and "File_Write m os f = Ret (e, f')"
  shows "(e = None \<longleftrightarrow> os = WriteOk \<and> \<not> IsFull f) \<and>
    (if e = None then holds f' (ms @ [m]) else holds f' ms \<or> (\<exists>n b. os = WriteError n True b))"
  using holds_Write [OF assms] by auto

theorem segment_write_atomic_witness:
  "\<exists>e f'. File_Write [7, 7, 7] (WriteError 2 False True) (new_file 100) = Ret (e, f') \<and> e \<noteq> None \<and> holds f' []"
proof -
  have h: "holds (new_file 100) []" by (simp add: new_file_def holds_def layout_def)
  have "length (disk (new_file 100)) + length (frame [7, 7, 7]) = 5" by code_simp
  moreover obtain e f' where w: "File_Write [7, 7, 7] (WriteError 2 False True) (new_file 100) = Ret (e, f')"
    by (simp add: File_Write_def new_file_def Let_def)
  ultimately show ?thesis using segment_write_atomic [OF h _ _ w] by (simp add: fits_def split: if_splits)
qed

text \<open>(C22) A waiting iterator follows the file: at the end of a file that is not full it waits, and when a message is written
  it returns that message; once the file is cut back, the iterator is refused instead of returning bytes of another message.\<close>

theorem segment_iterator_follows:
  assumes "stands f ms (length ms) (length ms) i" and "it_wait i" and "\<not> IsFull f" and "fits m"
    and "length (disk f) + length (frame m) < 2 ^ 62" and "File_Write m WriteOk f = Ret (None, f')" and "k \<le> length ms"
  shows "Iterator_Next f i = Ret (Blocked, i) \<and>
    (\<exists>i'. Iterator_Next f' i = Ret (Got m (f_offset f) (f_offset f'), i')) \<and>
    fst (File_Truncate (int (boundary ms k)) f) = None \<and>
    Iterator_Next (snd (File_Truncate (int (boundary ms k)) f)) i = Ret (Failed ErrIteratorInvalid, i)"
proof -
  have h: "holds f ms" and c: "it_term i = f_term f" "\<not> it_closed i" "endOffset i = f_offset f"
    using assms(1) by (auto simp: stands_def holds_def)
  have lim: "endOffset i < maxSize f" using assms(3) c(3) by (simp add: IsFull_def)
  have h': "holds f' (ms @ [m])" "f_term f' = f_term f" "maxSize f' = maxSize f"
    using holds_Write [OF h assms(4-6)] assms(3) by simp_all
  have b: "boundary (ms @ [m]) j = boundary ms j" if "j \<le> length ms" for j using that by (simp add: boundary_def)
  have s: "stands f' (ms @ [m]) (length ms) (length ms) i"
    using assms(1) h' b [of "length ms"] by (simp add: stands_def)
  have "stands f' (ms @ [m]) (length ms) (Suc (length ms)) (i\<lparr>endOffset := f_offset f'\<rparr>)"
    using s h' boundary_length [of "ms @ [m]"] by (simp add: stands_def holds_def)
  from Next_message [OF this] obtain i' where
    "Iterator_Next f' (i\<lparr>endOffset := f_offset f'\<rparr>) = Ret (Got m (int (boundary ms (length ms))) (int (length (layout (ms @ [m])))), i')"
    using b [of "length ms"] boundary_length [of "ms @ [m]"] by auto
  moreover have "f_offset f = int (boundary ms (length ms))" "f_offset f' = int (length (layout (ms @ [m])))" using h h' by (auto simp: holds_def)
  ultimately have "Iterator_Next f' i = Ret (Got m (f_offset f) (f_offset f'), i')"
    using Next_end [OF s] lim h'(3) assms(2) by simp
  then show ?thesis
    using Next_end [OF assms(1)] lim assms(2) holds_Truncate [OF h assms(7)] c by (auto simp: Iterator_Next_def)
qed

theorem segment_iterator_follows_witness:
  "\<exists>i f' i'. File_Read True (new_file 100) = Inr i \<and> Iterator_Next (new_file 100) i = Ret (Blocked, i) \<and>
    File_Write [7, 7, 7] WriteOk (new_file 100) = Ret (None, f') \<and> Iterator_Next f' i = Ret (Got [7, 7, 7] 1 5, i')"
proof -
  have h: "holds (new_file 100) []" "\<not> IsFull (new_file 100)" by (simp_all add: new_file_def holds_def layout_def IsFull_def)
  obtain i where i: "File_Read True (new_file 100) = Inr i" "stands (new_file 100) [] 0 0 i" "it_wait i"
    using stands_ReadAt [OF h(1), of 0 True] by (auto simp: File_Read_def)
  have n: "length (disk (new_file 100)) + length (frame [7, 7, 7]) = 5" by code_simp
  obtain f' where w: "File_Write [7, 7, 7] WriteOk (new_file 100) = Ret (None, f')" "f_offset f' = 5"
  proof -
    have "length (frame [7, 7, 7]) = 4" by code_simp
    then show ?thesis using that by (simp add: File_Write_def new_file_def Let_def)
  qed
  show ?thesis
    using segment_iterator_follows [OF _ i(3) h(2) _ _ w(1), of "[]" 0] i(1,2) n w by (auto simp: fits_def new_file_def)
qed

end
