(* ===== verification/Segment_Dir.thy ===== *)
theory Segment_Dir
  imports Segment_File Node_Id
begin

text \<open>
  The directory of segments (\<^verbatim>\<open>mq/segments/dir.go\<close>): open files are shared and counted, kept open for
  a while after the last release, and closed when idle. The file system is a map from paths to
  bytes; an open file carries its own bytes and gives them back when it is closed. A call on a
  bucket holds that bucket's mutex.
\<close>

subsection \<open>State\<close>

datatype dir_error = ErrInvalidID | ErrInUse | ErrNotBelongs | NegativeIdleTimeout | OpenFailed segment_error | RemoveFailed | BadName num_error

record open_file =
  of_file :: File
  rc :: int
  idle :: gotime

record Dir =
  dirName :: string
  dirMaxSize :: int
  idleTimeout :: duration
  fileMaps :: "u64 \<Rightarrow> (u64 \<times> open_file) list"
  fs :: "string \<Rightarrow> bytes option"

record FileInfo =
  info_ID :: u64
  info_Path :: string
  info_Size :: int
  ReferenceCount :: int

definition dirBuckets :: u64 where "dirBuckets = 64"

definition fileExt :: string where "fileExt = ''.seg''"

definition get_file :: "u64 \<Rightarrow> Dir \<Rightarrow> open_file option" where
  "get_file i d = map_of (fileMaps d (i mod dirBuckets)) i"

definition put_file :: "u64 \<Rightarrow> open_file \<Rightarrow> Dir \<Rightarrow> Dir" where
  "put_file i h d = d\<lparr>fileMaps := (fileMaps d)(i mod dirBuckets := (i, h) # filter (\<lambda>(j, _). j \<noteq> i) (fileMaps d (i mod dirBuckets)))\<rparr>"

subsection \<open>Paths\<close>

definition seg_name :: "u64 \<Rightarrow> string" where
  "seg_name i = (let name = FormatUint16 (unat i) in
     if length name < 16 then replicate (16 - length name) CHR ''0'' @ name else name)"

text \<open>\<^verbatim>\<open>filepath.Join\<close> of a clean directory name and two elements.\<close>

definition getPath :: "u64 \<Rightarrow> Dir \<Rightarrow> string" where
  "getPath i d = dirName d @ ''/'' @ take 2 (drop 14 (seg_name i)) @ ''/'' @ seg_name i @ fileExt"

definition Base :: "string \<Rightarrow> string" where
  "Base p = rev (takeWhile (\<lambda>c. c \<noteq> CHR ''/'') (rev p))"

text \<open>\<^verbatim>\<open>filepath.Ext\<close>: the suffix from the last dot of the last element on.\<close>

definition Ext :: "string \<Rightarrow> string" where
  "Ext p = (let b = Base p; s = takeWhile (\<lambda>c. c \<noteq> CHR ''.'') (rev b) in
     if length s < length b then CHR ''.'' # rev s else [])"

subsection \<open>Operations\<close>

definition NewDir :: "string \<Rightarrow> int \<Rightarrow> duration \<Rightarrow> (string \<Rightarrow> bytes option) \<Rightarrow> dir_error + Dir" where
  "NewDir name limit timeout disk0 =
     (if timeout < 0 then Inl NegativeIdleTimeout
      else Inr \<lparr>dirName = name, dirMaxSize = limit, idleTimeout = timeout, fileMaps = (\<lambda>_. []), fs = disk0\<rparr>)"

definition closeFile :: "u64 \<Rightarrow> open_file \<Rightarrow> Dir \<Rightarrow> Dir" where
  "closeFile i h d =
     d\<lparr>fileMaps := (fileMaps d)(i mod dirBuckets := filter (\<lambda>(j, _). j \<noteq> i) (fileMaps d (i mod dirBuckets))),
       fs := (fs d)(getPath i d \<mapsto> disk (of_file h))\<rparr>"

definition Dir_Open :: "u64 \<Rightarrow> Dir \<Rightarrow> ((dir_error + open_file) \<times> Dir) option" where
  "Dir_Open i d =
     (if i = 0 then Some (Inl ErrInvalidID, d)
      else case get_file i d of
        Some h \<Rightarrow> (let h' = h\<lparr>rc := rc h + 1, idle := 0\<rparr> in Some (Inr h', put_file i h' d))
      | None \<Rightarrow>
          (case Open (case fs d (getPath i d) of None \<Rightarrow> [] | Some bs \<Rightarrow> bs) (dirMaxSize d) of
             None \<Rightarrow> None
           | Some (Inl e) \<Rightarrow> Some (Inl (OpenFailed e), d)
           | Some (Inr f) \<Rightarrow> (let h = \<lparr>of_file = f, rc = 1, idle = 0\<rparr> in
               Some (Inr h, put_file i h (d\<lparr>fs := (fs d)(getPath i d \<mapsto> disk f)\<rparr>)))))"

definition Dir_Exists :: "u64 \<Rightarrow> Dir \<Rightarrow> bool" where
  "Dir_Exists i d \<longleftrightarrow> i \<noteq> 0 \<and> (get_file i d \<noteq> None \<or> fs d (getPath i d) \<noteq> None)"

text \<open>\<open>Release\<close> of the file that is open under the identifier, at a given time.\<close>

definition Dir_Release :: "gotime \<Rightarrow> u64 \<Rightarrow> Dir \<Rightarrow> dir_error option \<times> Dir" where
  "Dir_Release now i d =
     (if i = 0 then (Some ErrInvalidID, d)
      else case get_file i d of
        None \<Rightarrow> (Some ErrNotBelongs, d)
      | Some h \<Rightarrow>
          (let h' = h\<lparr>rc := rc h - 1\<rparr> in
           if rc h' > 0 then (None, put_file i h' d)
           else if idleTimeout d > 0 then (None, put_file i (h'\<lparr>idle := now\<rparr>) d)
           else (None, closeFile i h' d)))"

definition Dir_Remove :: "u64 \<Rightarrow> Dir \<Rightarrow> dir_error option \<times> Dir" where
  "Dir_Remove i d =
     (let remove = (\<lambda>d. if fs d (getPath i d) = None then (Some RemoveFailed, d) else (None, d\<lparr>fs := (fs d)(getPath i d := None)\<rparr>)) in
      if i = 0 then (Some ErrInvalidID, d)
      else case get_file i d of
        Some h \<Rightarrow> if rc h > 0 then (Some ErrInUse, d) else remove (closeFile i h d)
      | None \<Rightarrow> remove d)"

text \<open>One tick of \<open>closeIdle\<close>, bucket by bucket, and \<open>Close\<close>.\<close>

definition is_idle :: "gotime \<Rightarrow> Dir \<Rightarrow> open_file \<Rightarrow> bool" where
  "is_idle now d h \<longleftrightarrow> \<not> IsZero (idle h) \<and> idle h < now - idleTimeout d"

definition close_all :: "(u64 \<times> open_file) list \<Rightarrow> Dir \<Rightarrow> Dir" where
  "close_all hs d = fold (\<lambda>(i, h). closeFile i h) hs d"

definition buckets :: "u64 list" where
  "buckets = map of_nat [0..<64]"

definition closeIdle :: "gotime \<Rightarrow> Dir \<Rightarrow> Dir" where
  "closeIdle now d = fold (\<lambda>b d. close_all (filter (\<lambda>(i, h). is_idle now d h) (fileMaps d b)) d) buckets d"

definition Dir_Close :: "Dir \<Rightarrow> Dir" where
  "Dir_Close d = fold (\<lambda>b d. close_all (fileMaps d b) d) buckets d"

text \<open>\<open>List\<close> over the paths and sizes that \<^verbatim>\<open>filepath.Walk\<close> visits; it ends at the first bad name.\<close>

fun Dir_List :: "(string \<times> int) list \<Rightarrow> Dir \<Rightarrow> FileInfo list \<times> dir_error option" where
  "Dir_List [] d = ([], None)"
| "Dir_List ((p, sz) # walk) d =
     (if Ext p \<noteq> fileExt then Dir_List walk d
      else case NodeIDFromString (take (length (Base p) - length fileExt) (Base p)) of
        Inl e \<Rightarrow> ([], Some (BadName e))
      | Inr i \<Rightarrow>
          (let info = \<lparr>info_ID = i, info_Path = p, info_Size = sz,
                 ReferenceCount = (case get_file i d of None \<Rightarrow> - 1 | Some h \<Rightarrow> rc h)\<rparr>;
               (infos, e) = Dir_List walk d
           in (info # infos, e)))"

subsection \<open>Lookups\<close>

lemma map_of_filter_neq: "map_of (filter (\<lambda>(j, _). j \<noteq> i) hs) j = (if j = i then None else map_of hs j)"
  by (induction hs) auto

lemma get_put_file [lookup_simps]: "get_file j (put_file i h d) = (if j = i then Some h else get_file j d)"
  by (simp add: get_file_def put_file_def map_of_filter_neq)

lemma get_closeFile [lookup_simps]: "get_file j (closeFile i h d) = (if j = i then None else get_file j d)"
  by (simp add: get_file_def closeFile_def map_of_filter_neq)

lemma get_file_fs [lookup_simps]: "get_file j (d\<lparr>fs := m\<rparr>) = get_file j d"
  by (simp add: get_file_def)

lemma idleTimeout_keep [simp]: "idleTimeout (closeFile i h d) = idleTimeout d" "idleTimeout (put_file i h d) = idleTimeout d"
  by (simp_all add: closeFile_def put_file_def)

end
