(* ===== verification/Segment_Dir_Properties.thy ===== *)
theory Segment_Dir_Properties
  imports Segment_Dir
begin

text \<open>
  The directory of segments keeps the counts of its users: a segment in use stays open and is neither
  removed nor closed, and the names of the files give back the identifiers.
\<close>

subsection \<open>Reference counts\<close>

text \<open>\<open>users i\<close> is the number of calls of \<open>Open\<close> for segment \<open>i\<close> that were not yet released.\<close>

definition entry_ok :: "(u64 \<Rightarrow> nat) \<Rightarrow> u64 \<Rightarrow> u64 \<times> open_file \<Rightarrow> bool" where
  "entry_ok users b e \<longleftrightarrow> b = fst e mod dirBuckets \<and> rc (snd e) = int (users (fst e)) \<and> (users (fst e) > 0 \<longrightarrow> idle (snd e) = 0)"

definition dir_inv :: "(u64 \<Rightarrow> nat) \<Rightarrow> Dir \<Rightarrow> bool" where
  "dir_inv users d \<longleftrightarrow> (\<forall>b. distinct (map fst (fileMaps d b)) \<and> list_all (entry_ok users b) (fileMaps d b)) \<and>
     (\<forall>i. users i > 0 \<longrightarrow> get_file i d \<noteq> None)"

lemma dir_entryD: "dir_inv users d \<Longrightarrow> e \<in> set (fileMaps d b) \<Longrightarrow> entry_ok users b e"
  unfolding dir_inv_def list_all_iff by blast

lemma get_fileD: "get_file i d = Some h \<Longrightarrow> dir_inv users d \<Longrightarrow> rc h = int (users i) \<and> (users i > 0 \<longrightarrow> idle h = 0)"
  unfolding get_file_def by (drule map_of_SomeD, drule (1) dir_entryD) (simp add: entry_ok_def)

lemma dir_inv_put:
  assumes inv: "dir_inv users d" and h: "rc h = int n" "n > 0 \<longrightarrow> idle h = 0"
  shows "dir_inv (users(i := n)) (put_file i h d)"
proof -
  have "distinct (map fst (fileMaps (put_file i h d) b)) \<and> list_all (entry_ok (users(i := n)) b) (fileMaps (put_file i h d) b)" for b
  proof (cases "b = i mod dirBuckets")
    case True
    have "distinct (map fst (fileMaps d b)) \<and> list_all (entry_ok users b) (fileMaps d b)" using inv by (simp add: dir_inv_def)
    then show ?thesis using True h
      by (auto simp: put_file_def entry_ok_def list_all_iff distinct_map inj_on_def)
  next
    case False
    have "entry_ok (users(i := n)) b e" if "e \<in> set (fileMaps d b)" for e
      using inv that False by (cases "fst e = i") (auto simp: dir_inv_def list_all_iff entry_ok_def)
    then show ?thesis using False inv by (simp add: put_file_def dir_inv_def list_all_iff)
  qed
  then show ?thesis using inv by (auto simp: dir_inv_def lookup_simps)
qed

lemma dir_inv_close:
  assumes inv: "dir_inv users d" and u: "users' = users(i := 0)"
  shows "dir_inv users' (closeFile i h d)"
proof -
  have "distinct (map fst (fileMaps (closeFile i h d) b)) \<and> list_all (entry_ok users' b) (fileMaps (closeFile i h d) b)" for b
  proof (cases "b = i mod dirBuckets")
    case True
    have "distinct (map fst (fileMaps d b)) \<and> list_all (entry_ok users b) (fileMaps d b)" using inv by (simp add: dir_inv_def)
    then show ?thesis using True u
      by (auto simp: closeFile_def entry_ok_def list_all_iff distinct_map inj_on_def)
  next
    case False
    have "entry_ok users' b e" if "e \<in> set (fileMaps d b)" for e
      using inv that False u by (cases "fst e = i") (auto simp: dir_inv_def list_all_iff entry_ok_def)
    then show ?thesis using False inv by (simp add: closeFile_def dir_inv_def list_all_iff)
  qed
  then show ?thesis using inv u by (auto simp: dir_inv_def lookup_simps)
qed

lemma dir_inv_fs: "dir_inv users (d\<lparr>fs := m\<rparr>) = dir_inv users d"
  by (simp add: dir_inv_def lookup_simps)

lemma close_all_inv:
  "dir_inv users d \<Longrightarrow> \<forall>e \<in> set hs. users (fst e) = 0 \<Longrightarrow>
   dir_inv users (close_all hs d) \<and> (\<forall>i. users i > 0 \<longrightarrow> get_file i (close_all hs d) = get_file i d)"
proof (induction hs arbitrary: d)
  case (Cons e hs)
  have "dir_inv users (closeFile (fst e) (snd e) d)" using Cons.prems by (intro dir_inv_close [OF Cons.prems(1)]) (simp add: fun_upd_idem)
  from Cons.IH [OF this] Cons.prems show ?case by (auto simp: close_all_def case_prod_beta lookup_simps)
qed (simp add: close_all_def)

lemma closeIdle_inv:
  assumes "dir_inv users d"
  shows "dir_inv users (closeIdle now d) \<and> (\<forall>i. users i > 0 \<longrightarrow> get_file i (closeIdle now d) = get_file i d)"
proof -
  have "dir_inv users (fold (\<lambda>b d. close_all (filter (\<lambda>(i, h). is_idle now d h) (fileMaps d b)) d) bs d) \<and>
    (\<forall>i. users i > 0 \<longrightarrow> get_file i (fold (\<lambda>b d. close_all (filter (\<lambda>(i, h). is_idle now d h) (fileMaps d b)) d) bs d) = get_file i d)" for bs
    using assms
  proof (induction bs arbitrary: d)
    case (Cons b bs)
    let ?hs = "filter (\<lambda>(i, h). is_idle now d h) (fileMaps d b)"
    have "users (fst e) = 0" if "e \<in> set ?hs" for e
      using that dir_entryD [OF Cons.prems, of e b] by (auto simp: entry_ok_def is_idle_def IsZero_def)
    then have c: "dir_inv users (close_all ?hs d) \<and> (\<forall>i. users i > 0 \<longrightarrow> get_file i (close_all ?hs d) = get_file i d)"
      by (intro close_all_inv [OF Cons.prems]) blast
    then show ?case using Cons.IH [of "close_all ?hs d"] by simp
  qed simp
  then show ?thesis by (simp add: closeIdle_def)
qed

text \<open>
  The states of a directory whose users release what they opened, and only that: opening, releasing and
  removing segments, ticks of the clock, and any use of an open file.
\<close>

inductive dir_reachable :: "Dir \<Rightarrow> (u64 \<Rightarrow> nat) \<Rightarrow> Dir \<Rightarrow> bool" for d0 where
  new: "NewDir name limit timeout disk0 = Inr d0 \<Longrightarrow> dir_reachable d0 (\<lambda>_. 0) d0"
| opened: "dir_reachable d0 users d \<Longrightarrow> Dir_Open i d = Some (Inr h, d') \<Longrightarrow> dir_reachable d0 (users(i := users i + 1)) d'"
| not_opened: "dir_reachable d0 users d \<Longrightarrow> Dir_Open i d = Some (Inl e, d') \<Longrightarrow> dir_reachable d0 users d'"
| released: "dir_reachable d0 users d \<Longrightarrow> users i > 0 \<Longrightarrow> i \<noteq> 0 \<Longrightarrow> Dir_Release now i d = (e, d') \<Longrightarrow> dir_reachable d0 (users(i := users i - 1)) d'"
| removed: "dir_reachable d0 users d \<Longrightarrow> Dir_Remove i d = (e, d') \<Longrightarrow> dir_reachable d0 users d'"
| ticked: "dir_reachable d0 users d \<Longrightarrow> dir_reachable d0 users (closeIdle now d)"
| used: "dir_reachable d0 users d \<Longrightarrow> get_file i d = Some h \<Longrightarrow> dir_reachable d0 users (put_file i (h\<lparr>of_file := f\<rparr>) d)"

lemma Dir_Open_inv:
  assumes inv: "dir_inv users d" and o: "Dir_Open i d = Some (r, d')"
  shows "dir_inv (if isl r then users else users(i := users i + 1)) d'"
proof (cases "i = 0 \<or> get_file i d = None")
  case True
  show ?thesis
  proof (cases r)
    case (Inr h)
    have "get_file i d = None" "i \<noteq> 0" using True o Inr by (auto simp: Dir_Open_def)
    then obtain f where "d' = put_file i \<lparr>of_file = f, rc = 1, idle = 0\<rparr> (d\<lparr>fs := (fs d)(getPath i d \<mapsto> disk f)\<rparr>)"
      using o Inr by (auto simp: Dir_Open_def Let_def split: option.splits sum.splits)
    moreover have "users i = 0" using inv \<open>get_file i d = None\<close> unfolding dir_inv_def by (metis not_gr_zero)
    ultimately show ?thesis
      using Inr dir_inv_put [of users "d\<lparr>fs := (fs d)(getPath i d \<mapsto> disk f)\<rparr>" _ 1 i] inv by (simp add: dir_inv_fs)
  qed (use True o inv in \<open>auto simp: Dir_Open_def Let_def split: option.splits sum.splits if_splits\<close>)
next
  case False
  then obtain h where h: "get_file i d = Some h" "i \<noteq> 0" by auto
  have "rc h = int (users i)" using get_fileD [OF h(1) inv] by simp
  then show ?thesis using o h dir_inv_put [OF inv, of "h\<lparr>rc := rc h + 1, idle := 0\<rparr>" "users i + 1" i]
    by (auto simp: Dir_Open_def Let_def)
qed

lemma Dir_Release_inv:
  assumes inv: "dir_inv users d" and u: "users i > 0" and i: "i \<noteq> 0" and o: "Dir_Release now i d = (e, d')"
  shows "dir_inv (users(i := users i - 1)) d'"
proof -
  obtain h where h: "get_file i d = Some h" using inv u unfolding dir_inv_def by blast
  note r = get_fileD [OF h inv]
  show ?thesis
  proof (cases "users i - 1 > 0")
    case True
    then have "d' = put_file i (h\<lparr>rc := rc h - 1\<rparr>) d" using o h i r u by (simp add: Dir_Release_def Let_def)
    then show ?thesis using dir_inv_put [OF inv, of "h\<lparr>rc := rc h - 1\<rparr>" "users i - 1" i] r u by simp
  next
    case False
    then have "users i = 1" using u by simp
    then have "d' = put_file i (h\<lparr>rc := 0, idle := now\<rparr>) d \<or> d' = closeFile i (h\<lparr>rc := 0\<rparr>) d"
      using o h i r by (auto simp: Dir_Release_def Let_def split: if_splits)
    then show ?thesis
      using dir_inv_put [OF inv, of "h\<lparr>rc := 0, idle := now\<rparr>" 0 i] dir_inv_close [OF inv refl, of i] \<open>users i = 1\<close> by auto
  qed
qed

lemma Dir_Remove_inv:
  assumes inv: "dir_inv users d" and o: "Dir_Remove i d = (e, d')"
  shows "dir_inv users d'"
proof (cases "get_file i d")
  case (Some h)
  have "dir_inv users (closeFile i h d)" if "\<not> rc h > 0"
    using that get_fileD [OF Some inv] by (intro dir_inv_close [OF inv]) (simp add: fun_upd_idem)
  then show ?thesis using o inv Some by (auto simp: Dir_Remove_def Let_def dir_inv_fs split: if_splits)
qed (use o inv in \<open>auto simp: Dir_Remove_def Let_def dir_inv_fs split: if_splits\<close>)

lemma dir_reachable_inv: "dir_reachable d0 users d \<Longrightarrow> dir_inv users d"
proof (induction rule: dir_reachable.induct)
  case new
  then show ?case by (auto simp: NewDir_def dir_inv_def split: if_splits)
next
  case (opened users d i h d')
  then show ?case using Dir_Open_inv [of users d i "Inr h" d'] by (simp add: fun_upd_def)
next
  case (not_opened users d i e d')
  then show ?case using Dir_Open_inv [of users d i "Inl e" d'] by simp
next
  case (released users d i now e d')
  then show ?case using Dir_Release_inv by blast
next
  case (removed users d i e d')
  then show ?case using Dir_Remove_inv by blast
next
  case (ticked users d now)
  then show ?case using closeIdle_inv by blast
next
  case (used users d i h f)
  then show ?case using dir_inv_put [of users d "h\<lparr>of_file := f\<rparr>" "users i" i] get_fileD [of i d h users] by simp
qed

subsection \<open>Paths\<close>

definition hexdigits :: string where
  "hexdigits = ''0123456789abcdef''"

lemma hexdigits_plain: "c \<in> set hexdigits \<Longrightarrow> c \<noteq> CHR ''/'' \<and> c \<noteq> CHR ''.''"
proof -
  have "list_all (\<lambda>c. c \<noteq> CHR ''/'' \<and> c \<noteq> CHR ''.'') hexdigits" by code_simp
  then show "c \<in> set hexdigits \<Longrightarrow> ?thesis" unfolding list_all_iff by blast
qed

lemma set_FormatUint16: "set (FormatUint16 n) \<subseteq> set hexdigits"
proof (induction n rule: FormatUint16.induct)
  case (1 n)
  have h: "hex_char (m mod 16) \<in> set hexdigits" for m unfolding hex_char_def hexdigits_def by (rule nth_mem) simp
  show ?case
  proof (cases "n < 16")
    case True
    then show ?thesis using h [of n] by (simp add: FormatUint16.simps)
  next
    case False
    then show ?thesis using 1 h [of n] by (subst FormatUint16.simps) simp
  qed
qed

lemma seg_name_eq: "seg_name i = NodeIDToString i"
  by (simp add: seg_name_def NodeIDToString_def)

lemma set_seg_name: "c \<in> set (seg_name i) \<Longrightarrow> c \<noteq> CHR ''/'' \<and> c \<noteq> CHR ''.''"
proof (rule hexdigits_plain)
  assume c: "c \<in> set (seg_name i)"
  have "CHR ''0'' \<in> set hexdigits" by code_simp
  then show "c \<in> set hexdigits"
    using c set_FormatUint16 [of "unat i"] unfolding seg_name_def Let_def by (auto split: if_splits)
qed

lemma Base_getPath: "Base (getPath i d) = seg_name i @ fileExt"
proof -
  have "rev (getPath i d) = rev (seg_name i @ fileExt) @ CHR ''/'' # rev (dirName d @ ''/'' @ take 2 (drop 14 (seg_name i)))"
    by (simp add: getPath_def)
  moreover have "\<forall>c \<in> set (rev (seg_name i @ fileExt)). c \<noteq> CHR ''/''" using set_seg_name [of _ i] by (auto simp: fileExt_def)
  ultimately have "takeWhile (\<lambda>c. c \<noteq> CHR ''/'') (rev (getPath i d)) = rev (seg_name i @ fileExt)"
    using takeWhile_append2 [of "rev (seg_name i @ fileExt)" "\<lambda>c. c \<noteq> CHR ''/''"] by (simp del: rev_append)
  then show ?thesis by (simp add: Base_def)
qed

lemma Ext_getPath: "Ext (getPath i d) = fileExt"
  by (simp add: Ext_def Base_getPath Let_def) (simp add: fileExt_def)

text \<open>(C23) A segment in use is safe: as long as its users have not all released it, it is open with their number as its reference
  count, it cannot be removed, and the clean-up of idle files leaves it open.\<close>

theorem segment_in_use_stays_open:
  assumes "dir_reachable d0 users d" and "users i > 0" and "i \<noteq> 0"
  shows "\<exists>h. get_file i d = Some h \<and> rc h = int (users i) \<and> Dir_Remove i d = (Some ErrInUse, d) \<and>
    get_file i (closeIdle now d) = Some h"
proof -
  note inv = dir_reachable_inv [OF assms(1)]
  obtain h where h: "get_file i d = Some h" using inv assms(2) unfolding dir_inv_def by blast
  then show ?thesis using get_fileD [OF h inv] closeIdle_inv [OF inv, of now] assms by (simp add: Dir_Remove_def)
qed

definition demo_dir :: Dir where
  "demo_dir = projr (NewDir ''/seg'' 100 10 (\<lambda>_. None))"

theorem segment_in_use_stays_open_witness:
  "\<exists>h d. Dir_Open 5 demo_dir = Some (Inr h, d) \<and> Dir_Remove 5 d = (Some ErrInUse, d) \<and> get_file 5 (closeIdle 1000 d) = Some h"
proof -
  have n: "NewDir ''/seg'' 100 10 (\<lambda>_. None) = Inr demo_dir" by (simp add: demo_dir_def NewDir_def)
  have "get_file 5 demo_dir = None" "fs demo_dir (getPath 5 demo_dir) = None"
    by (simp_all add: demo_dir_def NewDir_def get_file_def)
  then obtain h d where o: "Dir_Open 5 demo_dir = Some (Inr h, d)" "get_file 5 d = Some h"
    by (simp add: Dir_Open_def Open_def lookup_simps Let_def)
  from dir_reachable.opened [OF dir_reachable.new [OF n] o(1)]
  have "dir_reachable demo_dir ((\<lambda>_. 0)(5 := 1)) d" by (simp add: fun_upd_def)
  from segment_in_use_stays_open [OF this, of 5 1000] show ?thesis using o by simp
qed

text \<open>The path of a segment determines the segment: listing the path of a segment gives its identifier back, so
  that no two segments share a path.\<close>

theorem segment_path_round_trip:
  "Dir_List [(getPath i d, sz)] d =
     ([\<lparr>info_ID = i, info_Path = getPath i d, info_Size = sz, ReferenceCount = (case get_file i d of None \<Rightarrow> - 1 | Some h \<Rightarrow> rc h)\<rparr>], None) \<and>
   (getPath i d = getPath j d \<longleftrightarrow> i = j)"
proof -
  have p: "NodeIDFromString (take (length (Base (getPath k d)) - length fileExt) (Base (getPath k d))) = Inr k" for k
    using NodeID_round_trip [of k] by (simp add: Base_getPath seg_name_eq)
  have inj: "i = j" if "getPath i d = getPath j d"
  proof -
    have "(Inr i :: num_error + u64) = Inr j" using p [of i] p [of j] unfolding that by simp
    then show ?thesis by simp
  qed
  have "Dir_List [(getPath i d, sz)] d =
     ([\<lparr>info_ID = i, info_Path = getPath i d, info_Size = sz, ReferenceCount = (case get_file i d of None \<Rightarrow> - 1 | Some h \<Rightarrow> rc h)\<rparr>], None)"
    by (simp only: Dir_List.simps Ext_getPath p sum.case Let_def prod.case simp_thms if_False)
  then show ?thesis using inj by blast
qed

end
