(* ===== verification/Routing_Properties.thy ===== *)
theory Routing_Properties
  imports Routing
begin

text \<open>
  The matching of routing keys is matching word by word, and a message is taken by a group exactly when one of
  its bindings to the topic takes it, whatever the order of bindings and headers.
\<close>

subsection \<open>Patterns as words\<close>

lemma dot_split: "has_dot s \<Longrightarrow> s = part s @ CHR ''.'' # rest s"
  unfolding has_dot_def part_def rest_def by (induction s) auto

lemma dot_words_dot: "has_dot s \<Longrightarrow> dot_words s = part s # dot_words (rest s)"
  by (subst dot_words.simps) (auto simp: has_dot_def)

lemma dot_words_plain: "\<not> has_dot s \<Longrightarrow> dot_words s = (if s = [] then [] else [s])"
  by (subst dot_words.simps) auto

lemma dot_words_Nil: "dot_words s = [] \<longleftrightarrow> s = []"
  by (subst dot_words.simps) auto

lemma trailing_dot_dot: "has_dot s \<Longrightarrow> trailing_dot s \<longleftrightarrow> rest s = [] \<or> trailing_dot (rest s)"
  using dot_split [of s] by (metis append_is_Nil_conv last.simps last_appendR list.distinct(1) trailing_dot_def)

lemma trailing_dot_plain: "\<not> has_dot s \<Longrightarrow> \<not> trailing_dot s"
  unfolding has_dot_def trailing_dot_def by (metis last_in_set)

lemma plain_pattern_dot: "has_dot p \<Longrightarrow> plain_pattern p \<Longrightarrow> part p \<noteq> [] \<and> rest p \<noteq> [] \<and> plain_pattern (rest p)"
  using trailing_dot_dot [of p] dot_words_dot [of p] by (auto simp: plain_pattern_def)

lemma words_match_Nil: "words_match ps [] \<Longrightarrow> ps \<noteq> [] \<Longrightarrow> words_match ps ws"
proof (induction ps)
  case (Cons p ps)
  then have p: "p = ''#''" "words_match ps []" by (auto split: if_splits)
  show ?case
  proof (cases "ps = []")
    case True
    then show ?thesis using p(1) by auto
  next
    case False
    then show ?thesis using Cons.IH [OF p(2)] p(1) by auto
  qed
qed simp

lemma suffixes_trailing: "k' \<in> set (key_suffixes k) \<Longrightarrow> trailing_dot k' = trailing_dot k"
proof (induction k arbitrary: k' rule: key_suffixes.induct)
  case (1 k)
  show ?case
  proof (cases "has_dot k \<and> rest k \<noteq> []")
    case True
    then have "k' = k \<or> k' \<in> set (key_suffixes (rest k))" using "1.prems" by (subst (asm) key_suffixes.simps) auto
    then show ?thesis using 1(1) [OF True, of k'] True trailing_dot_dot [of k] by auto
  qed (use "1.prems" in \<open>subst (asm) key_suffixes.simps, auto\<close>)
qed

lemma map_drop_Cons: "map (\<lambda>n. drop n (x # xs)) [0..<length (x # xs)] = (x # xs) # map (\<lambda>n. drop n xs) [0..<length xs]"
proof -
  have "[0..<length (x # xs)] = 0 # map Suc [0..<length xs]" by (simp add: upt_conv_Cons map_Suc_upt del: upt_Suc)
  then show ?thesis by (simp add: o_def del: upt_Suc)
qed

lemma suffixes_words:
  "\<not> trailing_dot k \<Longrightarrow> map dot_words (key_suffixes k) = (if k = [] then [[]] else map (\<lambda>n. drop n (dot_words k)) [0..<length (dot_words k)])"
proof (induction k rule: key_suffixes.induct)
  case (1 k)
  show ?case
  proof (cases "has_dot k")
    case True
    then have r: "rest k \<noteq> []" "\<not> trailing_dot (rest k)" "k \<noteq> []" using trailing_dot_dot [OF True] "1.prems" by (auto simp: has_dot_def)
    have s: "key_suffixes k = k # key_suffixes (rest k)" using True r by (subst key_suffixes.simps) simp
    have "map dot_words (key_suffixes (rest k)) = map (\<lambda>n. drop n (dot_words (rest k))) [0..<length (dot_words (rest k))]"
      using 1(1) True r by simp
    then show ?thesis using r(3) unfolding s list.map dot_words_dot [OF True] map_drop_Cons by simp
  next
    case False
    then have "key_suffixes k = [k]" by (subst key_suffixes.simps) simp
    then show ?thesis using False by (simp add: dot_words_plain)
  qed
qed

lemma number_sign_inside:
  assumes "\<not> trailing_dot k" and "ps \<noteq> []"
  shows "(\<exists>k' \<in> set (key_suffixes k). words_match ps (dot_words k')) \<longleftrightarrow> words_match (''#'' # ps) (dot_words k)"
proof -
  let ?ws = "dot_words k"
  have "(\<exists>k' \<in> set (key_suffixes k). words_match ps (dot_words k')) \<longleftrightarrow> (\<exists>w \<in> set (map dot_words (key_suffixes k)). words_match ps w)"
    by simp
  also have "\<dots> \<longleftrightarrow> (if k = [] then words_match ps [] else \<exists>n < length ?ws. words_match ps (drop n ?ws))"
    unfolding suffixes_words [OF assms(1)] by auto
  also have "\<dots> \<longleftrightarrow> (\<exists>n \<le> length ?ws. words_match ps (drop n ?ws))"
  proof (cases "k = []")
    case True
    then show ?thesis by (simp add: dot_words.simps)
  next
    case False
    then have l: "0 < length ?ws" using dot_words_Nil [of k] by simp
    have "words_match ps (drop (length ?ws - 1) ?ws)" if "words_match ps (drop (length ?ws) ?ws)"
      using that assms(2) by (simp add: words_match_Nil)
    then show ?thesis using False l by (metis diff_less le_eq_less_or_eq zero_less_one)
  qed
  finally show ?thesis by simp
qed

lemma number_sign_last: "routingKeyMatches ''#'' k \<longleftrightarrow> \<not> trailing_dot k"
proof (induction k rule: length_induct)
  case (1 k)
  have e: "''#'' \<noteq> []" "\<not> has_dot ''#''" "''#'' \<noteq> ''*''" by (simp_all add: has_dot_def)
  show ?case
  proof (cases "has_dot k")
    case True
    then have "routingKeyMatches ''#'' k \<longleftrightarrow> rest k \<noteq> [] \<and> routingKeyMatches ''#'' (rest k)"
      by (subst routingKeyMatches.simps) (simp only: e if_False simp_thms if_True split: if_split, blast)
    also have "\<dots> \<longleftrightarrow> \<not> trailing_dot k" using 1 True trailing_dot_dot [OF True] by simp
    finally show ?thesis .
  next
    case False
    then show ?thesis using trailing_dot_plain [OF False]
      by (subst routingKeyMatches.simps) (simp only: e if_False simp_thms if_True)
  qed
qed

lemma word_matches: "w = ''*'' \<or> w \<noteq> ''#'' \<Longrightarrow>
    words_match (w # ps) ws \<longleftrightarrow> ws \<noteq> [] \<and> (w = ''*'' \<or> w = hd ws) \<and> words_match ps (tl ws)"
  by auto

lemma single_word_matches:
  assumes plain: "\<not> has_dot p"
  shows "routingKeyMatches p k \<longleftrightarrow> \<not> trailing_dot k \<and> words_match (dot_words p) (dot_words k)"
proof -
  consider "p = []" | "p = ''#''" | "p \<noteq> []" "p \<noteq> ''#''" by blast
  then show ?thesis
  proof cases
    case 1
    then show ?thesis using dot_words_Nil [of k] by (auto simp: routingKeyMatches.simps dot_words.simps trailing_dot_def)
  next
    case 2
    have "dot_words p = [''#'']" unfolding 2 using dot_words_plain [of "''#''"] by (simp add: has_dot_def)
    then show ?thesis unfolding 2 number_sign_last by auto
  next
    case 3
    have w: "words_match (dot_words p) (dot_words k) \<longleftrightarrow> dot_words k \<noteq> [] \<and> (p = ''*'' \<or> p = hd (dot_words k)) \<and> tl (dot_words k) = []"
      using word_matches [of p "[]"] 3 dot_words_plain [OF plain] by simp
    show ?thesis
    proof (cases "has_dot k")
      case True
      have "\<not> routingKeyMatches p k" using plain True 3 by (subst routingKeyMatches.simps) auto
      moreover have "trailing_dot k \<or> tl (dot_words k) \<noteq> []"
        using dot_words_dot [OF True] trailing_dot_dot [OF True] dot_words_Nil [of "rest k"] by auto
      ultimately show ?thesis using w by auto
    next
      case nodot: False
      then show ?thesis using plain 3 w trailing_dot_plain [OF nodot] dot_words_plain [OF nodot]
        by (subst routingKeyMatches.simps) auto
    qed
  qed
qed

lemma routingKeyMatches_words:
  "plain_pattern p \<Longrightarrow> routingKeyMatches p k \<longleftrightarrow> \<not> trailing_dot k \<and> words_match (dot_words p) (dot_words k)"
proof (induction "length p" arbitrary: p k rule: less_induct)
  case less
  show ?case
  proof (cases "has_dot p")
    case False
    then show ?thesis by (rule single_word_matches)
  next
    case True
    note p = plain_pattern_dot [OF True less.prems]
    have ne: "p \<noteq> []" using True by (auto simp: has_dot_def)
    have IH: "routingKeyMatches (rest p) k' \<longleftrightarrow> \<not> trailing_dot k' \<and> words_match (dot_words (rest p)) (dot_words k')" for k'
      using less.hyps [of "rest p" k'] True p by simp
    have Nil: "dot_words [] = []" "\<not> trailing_dot []" by (simp_all add: dot_words.simps trailing_dot_def)
    show ?thesis
    proof (cases "part p = ''#''")
      case hash: True
      have "routingKeyMatches p k \<longleftrightarrow> (\<exists>k' \<in> set (key_suffixes k). routingKeyMatches (rest p) k')"
        using True ne hash by (subst routingKeyMatches.simps) (simp add: list_ex_iff)
      also have "\<dots> \<longleftrightarrow> \<not> trailing_dot k \<and> (\<exists>k' \<in> set (key_suffixes k). words_match (dot_words (rest p)) (dot_words k'))"
        using suffixes_trailing [of _ k] unfolding IH by blast
      also have "\<dots> \<longleftrightarrow> \<not> trailing_dot k \<and> words_match (dot_words p) (dot_words k)"
        using number_sign_inside [of k "dot_words (rest p)"] p dot_words_Nil [of "rest p"] unfolding dot_words_dot [OF True] hash by blast
      finally show ?thesis .
    next
      case False
      have w: "words_match (dot_words p) ws \<longleftrightarrow> ws \<noteq> [] \<and> (part p = ''*'' \<or> part p = hd ws) \<and> words_match (dot_words (rest p)) (tl ws)" for ws
        unfolding dot_words_dot [OF True] using word_matches False by blast
      have r: "routingKeyMatches p k \<longleftrightarrow>
        (if has_dot k then (part p = ''*'' \<or> part k = part p) \<and> rest k \<noteq> [] \<and> routingKeyMatches (rest p) (rest k)
         else k \<noteq> [] \<and> (part p = ''*'' \<or> k = part p) \<and> routingKeyMatches (rest p) [])"
        using True ne False p by (subst routingKeyMatches.simps) auto
      show ?thesis
      proof (cases "has_dot k")
        case kd: True
        show ?thesis unfolding r w IH dot_words_dot [OF kd] trailing_dot_dot [OF kd] using kd by auto
      next
        case kd: False
        show ?thesis unfolding r w IH dot_words_plain [OF kd] using kd trailing_dot_plain [OF kd] Nil by auto
      qed
    qed
  qed
qed

subsection \<open>Properties\<close>

text \<open>(C24) Topic patterns: for a pattern without empty words, \<open>routingKeyMatches\<close> is matching word by word, where a
  star stands for one word and a number sign for any number of words; a key that ends in a dot matches nothing.\<close>

theorem routing_key_is_word_match:
  assumes "plain_pattern pattern"
  shows "routingKeyMatches pattern key \<longleftrightarrow> \<not> trailing_dot key \<and> words_match (dot_words pattern) (dot_words key)"
  using assms by (rule routingKeyMatches_words)

theorem routing_key_is_word_match_witness:
  "routingKeyMatches ''foo.#.bar'' ''foo.qux.xyz.bar'' \<longleftrightarrow>
     words_match [''foo'', ''#'', ''bar''] [''foo'', ''qux'', ''xyz'', ''bar'']"
proof -
  have "plain_pattern ''foo.#.bar''" and "\<not> trailing_dot ''foo.qux.xyz.bar''"
    and "dot_words ''foo.#.bar'' = [''foo'', ''#'', ''bar'']" and "dot_words ''foo.qux.xyz.bar'' = [''foo'', ''qux'', ''xyz'', ''bar'']"
    by code_simp+
  then show ?thesis using routing_key_is_word_match [of "''foo.#.bar''" "''foo.qux.xyz.bar''"] by (simp only: simp_thms)
qed

text \<open>What a binding stands for.\<close>

definition accepts :: "emq_Message \<Rightarrow> ClusterBinding \<Rightarrow> bool" where
  "accepts m b \<longleftrightarrow>
     bind_ExchangeType b = ''fanout'' \<or>
     (\<exists>k. bind_By b = ByRoutingKey k \<and>
        (bind_ExchangeType b = ''direct'' \<and> k = RoutingKey m \<or> bind_ExchangeType b = ''topic'' \<and> routingKeyMatches k (RoutingKey m))) \<or>
     bind_ExchangeType b = ''headers'' \<and> (\<exists>hs. Headers m = Some hs \<and>
        ((\<exists>want. bind_By b = ByHeadersAll want \<and> (\<forall>(h, v) \<in> set want. \<exists>v'. map_of hs h = Some v' \<and> DeepEqual v v')) \<or>
         (\<exists>want. bind_By b = ByHeadersAny want \<and> (\<exists>(h, v) \<in> set want. \<exists>v'. map_of hs h = Some v' \<and> DeepEqual v v'))))"

definition known_exchange :: "ClusterBinding \<Rightarrow> bool" where
  "known_exchange b \<longleftrightarrow> bind_ExchangeType b \<in> {''direct'', ''fanout'', ''topic'', ''headers''}"

lemma header_equal_iff: "header_equal hs = (\<lambda>(h, v). \<exists>v'. map_of hs h = Some v' \<and> DeepEqual v v')"
  by (auto simp: header_equal_def fun_eq_iff split: option.split)

lemma exchange_types_differ:
  "ExchangeTypeDirect \<noteq> ExchangeTypeFanout" "ExchangeTypeDirect \<noteq> ExchangeTypeTopic" "ExchangeTypeDirect \<noteq> ExchangeTypeHeaders"
  "ExchangeTypeFanout \<noteq> ExchangeTypeTopic" "ExchangeTypeFanout \<noteq> ExchangeTypeHeaders" "ExchangeTypeTopic \<noteq> ExchangeTypeHeaders"
  by code_simp+

lemma binding_takes_iff:
  assumes "known_exchange b"
  shows "binding_takes m b = Ret (accepts m b)"
proof -
  note names = ExchangeTypeDirect_def ExchangeTypeFanout_def ExchangeTypeTopic_def ExchangeTypeHeaders_def
  note differ = exchange_types_differ exchange_types_differ [symmetric]
  have "bind_ExchangeType b = ExchangeTypeDirect \<or> bind_ExchangeType b = ExchangeTypeFanout \<or>
    bind_ExchangeType b = ExchangeTypeTopic \<or> bind_ExchangeType b = ExchangeTypeHeaders"
    using assms unfolding known_exchange_def names by blast
  then show ?thesis unfolding accepts_def names [symmetric]
    by (elim disjE; cases "bind_By b"; cases "Headers m") (simp_all add: binding_takes_def differ list_all_iff list_ex_iff header_equal_iff)
qed

lemma bindings_take_iff:
  "list_all known_exchange bs \<Longrightarrow> bindings_take m topic bs = Ret (\<exists>b \<in> set bs. bind_TopicName b = topic \<and> accepts m b)"
  by (induction bs) (auto simp: binding_takes_iff)

text \<open>(C25) Delivery: when the exchange types of the bindings are known, a group receives exactly the messages that are not older than the
  group and that one of its bindings to the topic accepts: by equal routing key, by pattern, by all or by any of the wanted headers, or always.\<close>

theorem message_matches_iff_binding_accepts:
  assumes "list_all known_exchange (Bindings g)"
  shows "messageMatches m t topic g = Ret (Since g \<le> t \<and> (\<exists>b \<in> set (Bindings g). bind_TopicName b = topic \<and> accepts m b))"
  using bindings_take_iff [OF assms] by (auto simp: messageMatches_def)

definition demo_group :: ClusterConsumerGroup where
  "demo_group = \<lparr>group_Name = ''g'', Bindings = [\<lparr>bind_TopicName = ''t'', bind_ExchangeType = ''topic'', bind_By = ByRoutingKey ''a.*''\<rparr>],
     group_Size = 8, Since = 5, OffsetCommits = []\<rparr>"

theorem message_matches_iff_binding_accepts_witness:
  "messageMatches \<lparr>RoutingKey = ''a.b'', Headers = None\<rparr> 7 ''t'' demo_group =
     Ret (Since demo_group \<le> 7 \<and> (\<exists>b \<in> set (Bindings demo_group). bind_TopicName b = ''t'' \<and> accepts \<lparr>RoutingKey = ''a.b'', Headers = None\<rparr> b))"
proof -
  have "list_all known_exchange (Bindings demo_group)" by code_simp
  from message_matches_iff_binding_accepts [OF this] show ?thesis .
qed

end
