(* ===== verification/Validation.thy ===== *)
theory Validation
  imports Routing Reconciler
begin

text \<open>
  The requests of clients and their validation (\<^verbatim>\<open>mq/emq/request_validation.go\<close>). An error of a validation
  is a value that names the field; the messages themselves are left out. A request is valid when the list
  of its errors is empty.
\<close>

subsection \<open>Requests\<close>

record NamespaceCreateRequest =
  nc_LeaderOnly :: bool
  nc_Namespace :: string

record NamespaceDeleteRequest =
  nd_LeaderOnly :: bool
  nd_Namespace :: string

record emq_Topic =
  et_Namespace :: string
  et_Name :: string
  et_DefaultExchangeType :: string
  et_Shards :: u32
  et_ReplicationFactor :: u32
  et_Retention :: duration

record TopicCreateRequest =
  tc_LeaderOnly :: bool
  tc_Topic :: emq_Topic

record TopicListRequest =
  tl_LeaderOnly :: bool
  tl_Namespace :: string
  tl_Name :: string

record TopicDeleteRequest =
  td_LeaderOnly :: bool
  td_Namespace :: string
  td_Name :: string
  td_IfUnused :: bool

record TopicPublishRequest =
  tp_DoNotForward :: bool
  tp_Namespace :: string
  tp_Name :: string

record emq_Binding =
  eb_TopicName :: string
  eb_ExchangeType :: string
  eb_By :: BindingBy

record emq_ConsumerGroup =
  ec_Namespace :: string
  ec_Name :: string
  ec_Bindings :: "emq_Binding list"
  ec_Size :: u32
  ec_Since :: gotime

record ConsumerGroupCreateRequest =
  gc_LeaderOnly :: bool
  gc_ConsumerGroup :: emq_ConsumerGroup

record ConsumerGroupListRequest =
  gl_LeaderOnly :: bool
  gl_Namespace :: string
  gl_Name :: string

record ConsumerGroupDeleteRequest =
  gd_LeaderOnly :: bool
  gd_Namespace :: string
  gd_Name :: string

record ConsumerGroupSubscribeRequest =
  gs_DoNotForward :: bool
  gs_Namespace :: string
  gs_Name :: string

subsection \<open>Names\<close>

datatype validation_error =
    Blank string | NameInvalid string | ReservedName string | TooLong string | NotValid string string | Negative string
  | DefaultNamespaceKept | InBinding nat validation_error

definition is_letter :: "char \<Rightarrow> bool" where
  "is_letter c \<longleftrightarrow> (let n = (of_char c :: nat) in 65 \<le> n \<and> n \<le> 90 \<or> 97 \<le> n \<and> n \<le> 122)"

definition is_digit :: "char \<Rightarrow> bool" where
  "is_digit c \<longleftrightarrow> (let n = (of_char c :: nat) in 48 \<le> n \<and> n \<le> 57)"

text \<open>\<^verbatim>\<open>^[a-zA-Z_][0-9a-zA-Z-_]*$\<close> and \<^verbatim>\<open>^_\<close>.\<close>

fun nameRegex :: "string \<Rightarrow> bool" where
  "nameRegex [] \<longleftrightarrow> False"
| "nameRegex (c # cs) \<longleftrightarrow> (is_letter c \<or> c = CHR ''_'') \<and>
     list_all (\<lambda>c. is_digit c \<or> is_letter c \<or> c = CHR ''-'' \<or> c = CHR ''_'') cs"

definition reservedNameRegex :: "string \<Rightarrow> bool" where
  "reservedNameRegex s \<longleftrightarrow> s \<noteq> [] \<and> hd s = CHR ''_''"

definition nameMaxLength :: nat where "nameMaxLength = 64"

definition validExchangeTypes :: "string \<Rightarrow> bool" where
  "validExchangeTypes t \<longleftrightarrow> t \<in> {ExchangeTypeDirect, ExchangeTypeFanout, ExchangeTypeTopic, ExchangeTypeHeaders}"

definition set_name_errors :: "string \<Rightarrow> string \<Rightarrow> validation_error list" where
  "set_name_errors field s =
     (if \<not> nameRegex s then [NameInvalid field]
      else if reservedNameRegex s then [ReservedName field]
      else if length s > nameMaxLength then [TooLong field]
      else [])"

definition name_errors :: "string \<Rightarrow> string \<Rightarrow> validation_error list" where
  "name_errors field s = (if s = [] then [Blank field] else set_name_errors field s)"

definition optional_name_errors :: "string \<Rightarrow> string \<Rightarrow> validation_error list" where
  "optional_name_errors field s = (if s = [] then [] else set_name_errors field s)"

definition exchange_errors :: "string \<Rightarrow> validation_error list" where
  "exchange_errors t =
     (if t = [] then [Blank ''exchange type''] else if \<not> validExchangeTypes t then [NotValid ''exchange type'' t] else [])"

subsection \<open>Validation of each request\<close>

definition NamespaceCreateRequest_Validate :: "NamespaceCreateRequest \<Rightarrow> validation_error list" where
  "NamespaceCreateRequest_Validate r = name_errors ''namespace'' (nc_Namespace r)"

definition NamespaceDeleteRequest_Validate :: "NamespaceDeleteRequest \<Rightarrow> validation_error list" where
  "NamespaceDeleteRequest_Validate r =
     (let errs = name_errors ''namespace'' (nd_Namespace r)
      in if errs = [] \<and> nd_Namespace r = DefaultNamespace then [DefaultNamespaceKept] else errs)"

definition TopicCreateRequest_Validate :: "TopicCreateRequest \<Rightarrow> validation_error list" where
  "TopicCreateRequest_Validate r =
     name_errors ''namespace'' (et_Namespace (tc_Topic r)) @ name_errors ''topic name'' (et_Name (tc_Topic r)) @
     exchange_errors (et_DefaultExchangeType (tc_Topic r)) @
     (if et_Retention (tc_Topic r) < 0 then [Negative ''retention''] else [])"

definition TopicListRequest_Validate :: "TopicListRequest \<Rightarrow> validation_error list" where
  "TopicListRequest_Validate r =
     name_errors ''namespace'' (tl_Namespace r) @ optional_name_errors ''topic name'' (tl_Name r)"

definition TopicDeleteRequest_Validate :: "TopicDeleteRequest \<Rightarrow> validation_error list" where
  "TopicDeleteRequest_Validate r = name_errors ''namespace'' (td_Namespace r) @ name_errors ''topic name'' (td_Name r)"

definition ConsumerGroupCreateRequest_Validate :: "ConsumerGroupCreateRequest \<Rightarrow> validation_error list" where
  "ConsumerGroupCreateRequest_Validate r =
     (let g = gc_ConsumerGroup r in
      name_errors ''namespace'' (ec_Namespace g) @ name_errors ''consumer group name'' (ec_Name g) @
      concat (map (\<lambda>(i, b). map (InBinding i) (exchange_errors (eb_ExchangeType b))) (enumerate 0 (ec_Bindings g))))"

definition ConsumerGroupListRequest_Validate :: "ConsumerGroupListRequest \<Rightarrow> validation_error list" where
  "ConsumerGroupListRequest_Validate r =
     name_errors ''namespace'' (gl_Namespace r) @ optional_name_errors ''consumer group name'' (gl_Name r)"

definition ConsumerGroupDeleteRequest_Validate :: "ConsumerGroupDeleteRequest \<Rightarrow> validation_error list" where
  "ConsumerGroupDeleteRequest_Validate r =
     name_errors ''namespace'' (gd_Namespace r) @ name_errors ''consumer group name'' (gd_Name r)"

definition TopicPublishRequest_Validate :: "TopicPublishRequest \<Rightarrow> validation_error list" where
  "TopicPublishRequest_Validate r = name_errors ''namespace'' (tp_Namespace r) @ name_errors ''topic name'' (tp_Name r)"

definition ConsumerGroupSubscribeRequest_Validate :: "ConsumerGroupSubscribeRequest \<Rightarrow> validation_error list" where
  "ConsumerGroupSubscribeRequest_Validate r =
     name_errors ''namespace'' (gs_Namespace r) @ name_errors ''consumer group name'' (gs_Name r)"

definition makeConsumerGroupMapKey :: "string \<Rightarrow> string \<Rightarrow> string" where
  "makeConsumerGroupMapKey namespace name = namespace @ ''/'' @ name"

subsection \<open>Names and keys\<close>

lemma name_errors_Nil: "name_errors f s = [] \<longleftrightarrow> nameRegex s \<and> \<not> reservedNameRegex s \<and> length s \<le> nameMaxLength"
  by (cases s) (auto simp: name_errors_def set_name_errors_def)

lemma nameRegex_no_slash: "nameRegex s \<Longrightarrow> CHR ''/'' \<notin> set s"
proof -
  have "\<not> is_letter CHR ''/''" "\<not> is_digit CHR ''/''" by code_simp+
  moreover assume "nameRegex s"
  ultimately show ?thesis by (cases s) (auto simp: list_all_iff)
qed

lemma map_key_inject:
  assumes "CHR ''/'' \<notin> set n" "CHR ''/'' \<notin> set n'" "makeConsumerGroupMapKey n g = makeConsumerGroupMapKey n' g'"
  shows "n = n' \<and> g = g'"
proof -
  have "takeWhile (\<lambda>c. c \<noteq> CHR ''/'') (makeConsumerGroupMapKey m h) = m" if "CHR ''/'' \<notin> set m" for m h
    using that takeWhile_append2 [of m "\<lambda>c. c \<noteq> CHR ''/''" "''/'' @ h"] unfolding makeConsumerGroupMapKey_def by fastforce
  then have "n = n'" using assms by metis
  then show ?thesis using assms(3) by (simp add: makeConsumerGroupMapKey_def)
qed

end
