(* ===== verification/Leader.thy ===== *)
theory Leader
  imports Validation
begin

text \<open>
  Requests that the leader serves (\<^verbatim>\<open>mq/server_namespace_*.go\<close>, \<^verbatim>\<open>server_topic_{create,delete,list}.go\<close>,
  \<^verbatim>\<open>server_consumer_group_{create,delete,list}.go\<close>, \<^verbatim>\<open>server_apply.go\<close>): a node that is not the leader
  forwards them; the leader validates, takes the transaction lock, checks the state and puts
  commands into the Raft log. The log, the connections and the clock are the record \<open>raft_env\<close>; each
  answer of Raft may depend on the number of calls made before. A handler returns an error or a
  response with the state of the store after it, or panics.
\<close>

subsection \<open>Raft\<close>

datatype server_error =
    ErrNotALeader | ErrNoLeaderElected | CouldNotDialLeader | ValidationFailed "validation_error list"
  | TxBeginFailed | ApplyFailed | BarrierFailed
  | NamespaceNotFound string | NotFound string string string
  | TypeCannotChange string string | TopicReferenced string
  | NoRoutingKey string | NoHeaders string | UnhandledTopicType string
  | NodeNotFound u64 | SegmentNotFound u64 | NotPrimary u64 u64 | ReplicaCorrupted | SegmentDeletedInBetween | CommitsUpdateNotAllowed

text \<open>
  A command is committed at an index and the caller learns it, or the caller gets an error, after which
  the command may still have been committed or not.
\<close>

datatype apply_result = Committed u64 | CommittedUnseen u64 | Rejected

record raft_env =
  is_leader :: bool
  leader_address :: string
  can_dial :: bool
  barrier_ok :: "nat \<Rightarrow> bool"
  apply_result :: "nat \<Rightarrow> apply_result"
  clock :: gotime
  random :: nat
  members :: "(string \<times> string) list"
  segment_size :: "u64 \<Rightarrow> u64 \<Rightarrow> string \<Rightarrow> string + int"

record leader =
  cluster :: ClusterState
  calls :: nat

type_synonym 'a reply = "((server_error + 'a) \<times> leader) outcome"

definition reply_bind :: "'a reply \<Rightarrow> ('a \<Rightarrow> leader \<Rightarrow> 'b reply) \<Rightarrow> 'b reply" where
  "reply_bind m f = and_then m (\<lambda>(r, w). case r of Inl e \<Rightarrow> Ret (Inl e, w) | Inr a \<Rightarrow> f a w)"

lemma reply_bind_simps [simp]:
  "reply_bind (Panic m) f = Panic m"
  "reply_bind (Ret (Inl e, w)) f = Ret (Inl e, w)"
  "reply_bind (Ret (Inr a, w)) f = f a w"
  by (simp_all add: reply_bind_def)

definition Server_Apply :: "raft_env \<Rightarrow> ClusterCommand \<Rightarrow> leader \<Rightarrow> u64 reply" where
  "Server_Apply env cmd w =
     (let w' = w\<lparr>calls := calls w + 1\<rparr> in
      case apply_result env (calls w) of
        Committed i \<Rightarrow> and_then (Do i (Some cmd) (cluster w)) (\<lambda>s. Ret (Inr i, w'\<lparr>cluster := s\<rparr>))
      | CommittedUnseen i \<Rightarrow> and_then (Do i (Some cmd) (cluster w)) (\<lambda>s. Ret (Inl ApplyFailed, w'\<lparr>cluster := s\<rparr>))
      | Rejected \<Rightarrow> Ret (Inl ApplyFailed, w'))"

definition Barrier :: "raft_env \<Rightarrow> server_error \<Rightarrow> leader \<Rightarrow> unit reply" where
  "Barrier env e w = Ret (if barrier_ok env (calls w) then Inr () else Inl e, w\<lparr>calls := calls w + 1\<rparr>)"

definition beginTransaction :: "raft_env \<Rightarrow> leader \<Rightarrow> unit reply" where
  "beginTransaction env w = Barrier env TxBeginFailed w"

text \<open>
  The prelude of every handler; \<open>answer\<close> is what the leader answers to the forwarded request.
\<close>

definition on_leader :: "raft_env \<Rightarrow> bool \<Rightarrow> (server_error + 'a) \<Rightarrow> (leader \<Rightarrow> 'a reply) \<Rightarrow> leader \<Rightarrow> 'a reply" where
  "on_leader env leaderOnly answer body w =
     (if is_leader env then body w
      else if leaderOnly then Ret (Inl ErrNotALeader, w)
      else if leader_address env = [] then Ret (Inl ErrNoLeaderElected, w)
      else if \<not> can_dial env then Ret (Inl CouldNotDialLeader, w)
      else Ret (answer, w))"

definition validated :: "validation_error list \<Rightarrow> (leader \<Rightarrow> 'a reply) \<Rightarrow> leader \<Rightarrow> 'a reply" where
  "validated errs body w = (if errs = [] then body w else Ret (Inl (ValidationFailed errs), w))"

definition with_namespace :: "string \<Rightarrow> (ClusterNamespace \<Rightarrow> leader \<Rightarrow> 'a reply) \<Rightarrow> leader \<Rightarrow> 'a reply" where
  "with_namespace n body w =
     (case FindNamespace (cluster w) n of None \<Rightarrow> Ret (Inl (NamespaceNotFound n), w) | Some (ns, _) \<Rightarrow> body ns w)"

subsection \<open>Namespaces\<close>

definition Server_CreateNamespace :: "raft_env \<Rightarrow> (server_error + u64) \<Rightarrow> NamespaceCreateRequest \<Rightarrow> leader \<Rightarrow> u64 reply" where
  "Server_CreateNamespace env answer r =
     on_leader env (nc_LeaderOnly r) answer (validated (NamespaceCreateRequest_Validate r) (\<lambda>w.
       reply_bind (beginTransaction env w) (\<lambda>_. Server_Apply env (CreateNamespace (nc_Namespace r)))))"

definition Server_DeleteNamespace :: "raft_env \<Rightarrow> (server_error + u64) \<Rightarrow> NamespaceDeleteRequest \<Rightarrow> leader \<Rightarrow> u64 reply" where
  "Server_DeleteNamespace env answer r =
     on_leader env (nd_LeaderOnly r) answer (validated (NamespaceDeleteRequest_Validate r) (\<lambda>w.
       reply_bind (beginTransaction env w) (\<lambda>_. with_namespace (nd_Namespace r) (\<lambda>_.
         Server_Apply env (DeleteNamespace (nd_Namespace r))))))"

subsection \<open>Topics\<close>

definition cluster_topic :: "emq_Topic \<Rightarrow> ClusterTopic" where
  "cluster_topic t = \<lparr>topic_Name = et_Name t, Shards = et_Shards t,
     ReplicationFactor = (if et_ReplicationFactor t = 0 then defaultReplicationFactor else et_ReplicationFactor t),
     Retention = et_Retention t, DefaultExchangeType = et_DefaultExchangeType t\<rparr>"

definition Server_CreateTopic :: "raft_env \<Rightarrow> (server_error + u64) \<Rightarrow> TopicCreateRequest \<Rightarrow> leader \<Rightarrow> u64 reply" where
  "Server_CreateTopic env answer r =
     on_leader env (tc_LeaderOnly r) answer (validated (TopicCreateRequest_Validate r) (\<lambda>w.
       reply_bind (beginTransaction env w) (\<lambda>_. with_namespace (et_Namespace (tc_Topic r)) (\<lambda>_ w.
         case GetTopic (cluster w) (et_Namespace (tc_Topic r)) (et_Name (tc_Topic r)) of
           Some topic \<Rightarrow>
             if et_DefaultExchangeType (tc_Topic r) \<noteq> DefaultExchangeType topic
             then Ret (Inl (TypeCannotChange (et_DefaultExchangeType (tc_Topic r)) (DefaultExchangeType topic)), w)
             else Server_Apply env (CreateTopic (et_Namespace (tc_Topic r)) (cluster_topic (tc_Topic r))) w
         | None \<Rightarrow> Server_Apply env (CreateTopic (et_Namespace (tc_Topic r)) (cluster_topic (tc_Topic r))) w))))"

definition entityTopic :: string where "entityTopic = ''topic''"
definition entityConsumerGroup :: string where "entityConsumerGroup = ''consumer group''"

definition Server_DeleteTopic :: "raft_env \<Rightarrow> (server_error + u64) \<Rightarrow> TopicDeleteRequest \<Rightarrow> leader \<Rightarrow> u64 reply" where
  "Server_DeleteTopic env answer r =
     on_leader env (td_LeaderOnly r) answer (validated (TopicDeleteRequest_Validate r) (\<lambda>w.
       reply_bind (beginTransaction env w) (\<lambda>_. with_namespace (td_Namespace r) (\<lambda>namespace w.
         if FindTopic namespace (td_Name r) = None then Ret (Inl (NotFound entityTopic (td_Namespace r) (td_Name r)), w)
         else if td_IfUnused r \<and> AnyConsumerGroupReferencesTopic namespace (td_Name r)
         then Ret (Inl (TopicReferenced (td_Name r)), w)
         else Server_Apply env (DeleteTopic (td_Namespace r) (td_Name r)) w))))"

definition client_topic :: "string \<Rightarrow> ClusterTopic \<Rightarrow> emq_Topic" where
  "client_topic n t = \<lparr>et_Namespace = n, et_Name = topic_Name t, et_DefaultExchangeType = DefaultExchangeType t,
     et_Shards = Shards t, et_ReplicationFactor = ReplicationFactor t, et_Retention = Retention t\<rparr>"

definition Server_ListTopics :: "raft_env \<Rightarrow> (server_error + u64 \<times> emq_Topic list) \<Rightarrow> TopicListRequest \<Rightarrow> leader \<Rightarrow> (u64 \<times> emq_Topic list) reply" where
  "Server_ListTopics env answer r =
     on_leader env (tl_LeaderOnly r) answer (validated (TopicListRequest_Validate r)
       (with_namespace (tl_Namespace r) (\<lambda>namespace w.
         Ret (Inr (Index (cluster w), map (client_topic (ns_Name namespace)) (ListTopics namespace (tl_Name r))), w))))"

subsection \<open>Consumer groups\<close>

definition defaultConsumerGroupSize :: u32 where
  "defaultConsumerGroupSize = 10922"

text \<open>A binding of the request as a binding of the cluster.\<close>

definition cluster_binding :: "ClusterState \<Rightarrow> string \<Rightarrow> emq_Binding \<Rightarrow> server_error + ClusterBinding" where
  "cluster_binding state n b =
     (if GetTopic state n (eb_TopicName b) = None then Inl (NotFound entityTopic n (eb_TopicName b))
      else
        let bound = (\<lambda>by. Inr \<lparr>bind_TopicName = eb_TopicName b, bind_ExchangeType = eb_ExchangeType b, bind_By = by\<rparr>) in
        if eb_ExchangeType b = ExchangeTypeDirect \<or> eb_ExchangeType b = ExchangeTypeTopic then
          (case eb_By b of ByRoutingKey k \<Rightarrow> bound (ByRoutingKey k) | _ \<Rightarrow> Inl (NoRoutingKey (eb_TopicName b)))
        else if eb_ExchangeType b = ExchangeTypeHeaders then
          (case eb_By b of
             ByHeadersAny hs \<Rightarrow> bound (ByHeadersAny hs)
           | ByHeadersAll hs \<Rightarrow> bound (ByHeadersAll hs)
           | _ \<Rightarrow> Inl (NoHeaders (eb_TopicName b)))
        else if eb_ExchangeType b = ExchangeTypeFanout then bound ByNone
        else Inl (UnhandledTopicType (eb_ExchangeType b)))"

fun cluster_bindings :: "ClusterState \<Rightarrow> string \<Rightarrow> emq_Binding list \<Rightarrow> server_error + ClusterBinding list" where
  "cluster_bindings state n [] = Inr []"
| "cluster_bindings state n (b # bs) =
     (case cluster_binding state n b of
        Inl e \<Rightarrow> Inl e
      | Inr c \<Rightarrow> (case cluster_bindings state n bs of Inl e \<Rightarrow> Inl e | Inr cs \<Rightarrow> Inr (c # cs)))"

definition cluster_group :: "raft_env \<Rightarrow> ClusterConsumerGroup option \<Rightarrow> emq_ConsumerGroup \<Rightarrow> ClusterBinding list \<Rightarrow> ClusterConsumerGroup" where
  "cluster_group env old g bs = \<lparr>group_Name = ec_Name g, Bindings = bs,
     group_Size = (if ec_Size g = 0 then defaultConsumerGroupSize else ec_Size g),
     Since = (if IsZero (ec_Since g) then (case old of None \<Rightarrow> clock env | Some cg \<Rightarrow> Since cg) else ec_Since g),
     OffsetCommits = []\<rparr>"

text \<open>
  The reconciler calls back into the server: its delegate answers from the state that the calls so far
  have led to, and the calls are replayed on the store.
\<close>

fun replay :: "raft_env \<Rightarrow> trace \<Rightarrow> leader \<Rightarrow> leader outcome" where
  "replay env [] w = Ret w"
| "replay env (Applied c # tr) w = and_then (Server_Apply env c w) (\<lambda>(_, w'). replay env tr w')"
| "replay env (IDTaken # tr) w = replay env tr (w\<lparr>cluster := snd (NextSegmentID (cluster w))\<rparr>)"
| "replay env (_ # tr) w = replay env tr w"

definition server_delegate :: "raft_env \<Rightarrow> leader \<Rightarrow> delegate" where
  "server_delegate env w0 = \<lparr>
     delegate_Apply = (\<lambda>tr c. case and_then (replay env tr w0) (Server_Apply env c) of
        Ret (Inr i, _) \<Rightarrow> Inr i | _ \<Rightarrow> Inl ''apply failed''),
     delegate_Members = members env,
     delegate_GetSegmentSizeFromNode = (\<lambda>_. segment_size env),
     delegate_NextSegmentID = (\<lambda>tr. case replay env tr w0 of Ret w \<Rightarrow> fst (NextSegmentID (cluster w)) | Panic _ \<Rightarrow> 0),
     delegate_Now = (\<lambda>_. clock env)\<rparr>"

text \<open>After the command the handler waits for the log, reads the state again and reconciles the group.\<close>

definition reconcile_created :: "raft_env \<Rightarrow> string \<Rightarrow> string \<Rightarrow> u64 \<Rightarrow> leader \<Rightarrow> u64 reply" where
  "reconcile_created env n name index w =
     reply_bind (Barrier env BarrierFailed w) (\<lambda>_ w.
       case FindNamespace (cluster w) n of
         None \<Rightarrow> Panic nil_dereference
       | Some (namespace, _) \<Rightarrow>
           (case FindConsumerGroup namespace name of
              None \<Rightarrow> Panic nil_dereference
            | Some (cg, _) \<Rightarrow>
                and_then (ReconcileConsumerGroup (server_delegate env w) (cluster w) namespace cg []) (\<lambda>(newIndex, tr).
                and_then (replay env tr w) (\<lambda>w'. Ret (Inr (if newIndex > 0 then newIndex else index), w')))))"

definition Server_CreateConsumerGroup :: "raft_env \<Rightarrow> (server_error + u64) \<Rightarrow> ConsumerGroupCreateRequest \<Rightarrow> leader \<Rightarrow> u64 reply" where
  "Server_CreateConsumerGroup env answer r =
     (let g = gc_ConsumerGroup r; n = ec_Namespace g in
      on_leader env (gc_LeaderOnly r) answer (validated (ConsumerGroupCreateRequest_Validate r) (\<lambda>w.
       reply_bind (beginTransaction env w) (\<lambda>_. with_namespace n (\<lambda>namespace w.
         case cluster_bindings (cluster w) n (ec_Bindings g) of
           Inl e \<Rightarrow> Ret (Inl e, w)
         | Inr bs \<Rightarrow>
             reply_bind (Server_Apply env (CreateConsumerGroup n
               (cluster_group env (map_option fst (FindConsumerGroup namespace (ec_Name g))) g bs)) w)
               (reconcile_created env n (ec_Name g)))))))"

fun apply_all :: "raft_env \<Rightarrow> ClusterCommand list \<Rightarrow> u64 \<Rightarrow> leader \<Rightarrow> u64 reply" where
  "apply_all env [] index w = Ret (Inr index, w)"
| "apply_all env (c # cs) index w = reply_bind (Server_Apply env c w) (\<lambda>index w. apply_all env cs index w)"

definition Server_DeleteConsumerGroup :: "raft_env \<Rightarrow> (server_error + u64) \<Rightarrow> ConsumerGroupDeleteRequest \<Rightarrow> leader \<Rightarrow> u64 reply" where
  "Server_DeleteConsumerGroup env answer r =
     on_leader env (gd_LeaderOnly r) answer (validated (ConsumerGroupDeleteRequest_Validate r) (\<lambda>w.
       reply_bind (beginTransaction env w) (\<lambda>_. with_namespace (gd_Namespace r) (\<lambda>namespace w.
         if FindConsumerGroup namespace (gd_Name r) = None
         then Ret (Inl (NotFound entityConsumerGroup (gd_Namespace r) (gd_Name r)), w)
         else let state = cluster w in
           reply_bind (Server_Apply env (DeleteConsumerGroup (gd_Namespace r) (gd_Name r)) w) (\<lambda>index w.
             apply_all env (map (\<lambda>segment. DeleteSegment (seg_ID segment) OPEN)
               (FindOpenSegmentsFor state CONSUMER_GROUP_OFFSET_COMMITS (gd_Namespace r) (gd_Name r))) index w)))))"

definition convertClusterBinding :: "ClusterBinding \<Rightarrow> emq_Binding" where
  "convertClusterBinding b = \<lparr>eb_TopicName = bind_TopicName b, eb_ExchangeType = bind_ExchangeType b, eb_By = bind_By b\<rparr>"

definition client_group :: "string \<Rightarrow> ClusterConsumerGroup \<Rightarrow> emq_ConsumerGroup" where
  "client_group n cg = \<lparr>ec_Namespace = n, ec_Name = group_Name cg, ec_Bindings = map convertClusterBinding (Bindings cg),
     ec_Size = group_Size cg, ec_Since = Since cg\<rparr>"

definition Server_ListConsumerGroups :: "raft_env \<Rightarrow> (server_error + u64 \<times> emq_ConsumerGroup list) \<Rightarrow> ConsumerGroupListRequest \<Rightarrow> leader \<Rightarrow>
    (u64 \<times> emq_ConsumerGroup list) reply" where
  "Server_ListConsumerGroups env answer r =
     on_leader env (gl_LeaderOnly r) answer (validated (ConsumerGroupListRequest_Validate r)
       (with_namespace (gl_Namespace r) (\<lambda>namespace w.
         Ret (Inr (Index (cluster w), map (client_group (ns_Name namespace)) (ListConsumerGroups namespace (gl_Name r))), w))))"

end
