(* ===== verification/Segment_Service.thy ===== *)
theory Segment_Service
  imports Leader
begin

text \<open>
  The requests of nodes about segments (\<^verbatim>\<open>mq/server_segment_{create,close,replica_close,rotate}.go\<close>): opening a segment
  for a node, closing it, rotating it, and reporting a finished replica.
\<close>

subsection \<open>Opening\<close>

record SegmentOpenRequest =
  so_LeaderOnly :: bool
  so_NodeID :: u64
  so_Type :: SegmentType
  so_OwnerNamespace :: string
  so_OwnerName :: string

type_synonym SegmentOpenResponse = "u64 \<times> u64"

text \<open>The number of shards and replicas the owner wants.\<close>

definition owner_limits :: "ClusterState \<Rightarrow> SegmentType \<Rightarrow> string \<Rightarrow> string \<Rightarrow> server_error + u32 \<times> u32" where
  "owner_limits state t n name =
     (if t = TOPIC then
        (case GetTopic state n name of
           None \<Rightarrow> Inl (NotFound entityTopic n name)
         | Some topic \<Rightarrow> Inr (Shards topic, ReplicationFactor topic))
      else if t = CONSUMER_GROUP_OFFSET_COMMITS \<and> GetConsumerGroup state n name = None
      then Inl (NotFound entityConsumerGroup n name)
      else Inr (1, defaultReplicationFactor))"

text \<open>The segments of the latest generation.\<close>

fun latest_generation :: "ClusterSegment list \<Rightarrow> u32 \<Rightarrow> ClusterSegment list \<Rightarrow> u32 \<times> ClusterSegment list" where
  "latest_generation [] generation found = (generation, found)"
| "latest_generation (g # gs) generation found =
     (let (generation, found) = (if Generation g > generation then (Generation g, []) else (generation, found))
      in latest_generation gs generation (if Generation g = generation then found @ [g] else found))"

definition node_in_generation :: "u64 \<Rightarrow> ClusterSegment list \<Rightarrow> bool" where
  "node_in_generation i gs =
     list_ex (\<lambda>g. PrimaryNodeID (seg_Nodes g) = i \<or> list_ex (\<lambda>j. j = i) (DoneNodeIDs (seg_Nodes g))) gs"

text \<open>The first free shard from 1 to \<open>shards\<close>, or 1; the fuel is the number of shards.\<close>

fun first_free_shard :: "nat \<Rightarrow> u32 \<Rightarrow> u32 \<Rightarrow> ClusterSegment list \<Rightarrow> u32" where
  "first_free_shard 0 i shards gs = 1"
| "first_free_shard (Suc fuel) i shards gs =
     (if i \<le> shards then if list_ex (\<lambda>g. Shard g = i) gs then first_free_shard fuel (i + 1) shards gs else i else 1)"

definition generation_and_shard :: "ClusterState \<Rightarrow> u64 \<Rightarrow> SegmentType \<Rightarrow> string \<Rightarrow> string \<Rightarrow> u32 \<Rightarrow> u32 \<times> u32" where
  "generation_and_shard state node t n name shards =
     (case latest_generation (filter (owned_by t n name) (ClosedSegments state @ OpenSegments state)) 1 [] of
        (generation, gs) \<Rightarrow>
          if shards > 0 \<and> of_nat (length gs) \<ge> shards then (generation + 1, 1)
          else if node_in_generation node gs then (generation + 1, 1)
          else (generation, first_free_shard (unat shards) 1 shards gs))"

function pick_replicas :: "u32 \<Rightarrow> counts \<Rightarrow> u64 list \<Rightarrow> u64 list \<Rightarrow> u64 list" where
  "pick_replicas limit cnt candidates replicating =
     (if candidates \<noteq> [] \<and> of_nat (length replicating) < limit
      then (case least_candidate cnt candidates 0 None candidates of
              None \<Rightarrow> replicating
            | Some k \<Rightarrow> pick_replicas limit cnt (remove_at k candidates) (replicating @ [candidates ! k]))
      else replicating)"
  by auto
termination
  by (relation "measure (\<lambda>(limit, cnt, candidates, replicating). length candidates)")
    (auto dest!: least_candidate_bound)

declare pick_replicas.simps [simp del]

definition replicas_for :: "ClusterState \<Rightarrow> u64 \<Rightarrow> u32 \<Rightarrow> u64 list" where
  "replicas_for state node replicationFactor =
     (if replicationFactor > 1
      then pick_replicas (replicationFactor - 1) (CountSegmentsPerNode state)
             (map node_ID (filter (\<lambda>m. node_ID m \<noteq> node \<and> node_State m = ALIVE) (Nodes state))) []
      else [])"

text \<open>The loop that adds the new segment to the offset commits of the groups bound to the topic; an error is only logged.\<close>

fun add_offset_commits :: "raft_env \<Rightarrow> ClusterNamespace \<Rightarrow> string \<Rightarrow> u64 \<Rightarrow> ClusterConsumerGroup list \<Rightarrow> leader \<Rightarrow> leader outcome" where
  "add_offset_commits env namespace topic i [] w = Ret w"
| "add_offset_commits env namespace topic i (cg # cgs) w =
     (if list_ex (\<lambda>b. bind_TopicName b = topic) (Bindings cg)
      then and_then (Server_Apply env (UpdateConsumerGroupOffsetCommits (ns_Name namespace) (group_Name cg)
               (OffsetCommits cg @ [\<lparr>oc_SegmentID = i, oc_Offset = 0\<rparr>])) w)
             (\<lambda>(_, w'). add_offset_commits env namespace topic i cgs w')
      else add_offset_commits env namespace topic i cgs w)"

definition create_segment :: "raft_env \<Rightarrow> ClusterState \<Rightarrow> u64 \<Rightarrow> SegmentType \<Rightarrow> string \<Rightarrow> string \<Rightarrow> u32 \<Rightarrow> u32 \<Rightarrow> leader \<Rightarrow> SegmentOpenResponse reply" where
  "create_segment env state node t n name shards replicationFactor w =
     (case generation_and_shard state node t n name shards of (generation, shard) \<Rightarrow>
      case NextSegmentID (cluster w) of (i, s) \<Rightarrow>
        reply_bind (Server_Apply env (CreateSegment \<lparr>sc_ID = i, sc_Type = t, sc_OwnerNamespace = n, sc_OwnerName = name,
            sc_Generation = generation, sc_Shard = shard, sc_OpenedAt = clock env, sc_PrimaryNodeID = node,
            sc_ReplicatingNodeIDs = replicas_for state node replicationFactor\<rparr>) (w\<lparr>cluster := s\<rparr>)) (\<lambda>_ w.
          if t = TOPIC then
            (case FindNamespace state n of
               None \<Rightarrow> Panic nil_dereference
             | Some (namespace, _) \<Rightarrow>
                 and_then (add_offset_commits env namespace name i (ConsumerGroups namespace) w) (\<lambda>w. Ret (Inr (i, node), w)))
          else Ret (Inr (i, node), w)))"

definition txSegmentOpen :: "raft_env \<Rightarrow> ClusterState \<Rightarrow> u64 \<Rightarrow> SegmentType \<Rightarrow> string \<Rightarrow> string \<Rightarrow> leader \<Rightarrow> SegmentOpenResponse reply" where
  "txSegmentOpen env state node t n name w =
     (if GetNode state node = None then Ret (Inl (NodeNotFound node), w)
      else case owner_limits state t n name of
        Inl e \<Rightarrow> Ret (Inl e, w)
      | Inr (shards, replicationFactor) \<Rightarrow>
          let openSegments = FindOpenSegmentsFor state t n name in
          case find (\<lambda>g. PrimaryNodeID (seg_Nodes g) = node) openSegments of
            Some g \<Rightarrow> Ret (Inr (seg_ID g, node), w)
          | None \<Rightarrow>
              if shards > 0 \<and> of_nat (length openSegments) \<ge> shards
              then let g = openSegments ! (random env mod length openSegments)
                   in Ret (Inr (seg_ID g, PrimaryNodeID (seg_Nodes g)), w)
              else create_segment env state node t n name shards replicationFactor w)"

definition Server_SegmentOpen :: "raft_env \<Rightarrow> (server_error + SegmentOpenResponse) \<Rightarrow> SegmentOpenRequest \<Rightarrow> leader \<Rightarrow> SegmentOpenResponse reply" where
  "Server_SegmentOpen env answer r =
     on_leader env (so_LeaderOnly r) answer (\<lambda>w.
       reply_bind (beginTransaction env w) (\<lambda>_ w.
         txSegmentOpen env (cluster w) (so_NodeID r) (so_Type r) (so_OwnerNamespace r) (so_OwnerName r) w))"

subsection \<open>Closing\<close>

record SegmentCloseRequest =
  sr_LeaderOnly :: bool
  sr_NodeID :: u64
  sr_SegmentID :: u64
  sr_Size :: int
  sr_Sha1 :: "u8 list"
  sr_OffsetCommitsUpdate :: "(string \<times> string \<times> OffsetCommit list) option"

definition txSegmentClose :: "raft_env \<Rightarrow> ClusterState \<Rightarrow> SegmentCloseRequest \<Rightarrow> leader \<Rightarrow> unit reply" where
  "txSegmentClose env state r w =
     (case GetOpenSegment state (sr_SegmentID r) of
        None \<Rightarrow>
          if GetClosedSegment state (sr_SegmentID r) = None then Ret (Inl (SegmentNotFound (sr_SegmentID r)), w)
          else Ret (Inr (), w)
      | Some g \<Rightarrow>
          if PrimaryNodeID (seg_Nodes g) \<noteq> sr_NodeID r then Ret (Inl (NotPrimary (sr_NodeID r) (sr_SegmentID r)), w)
          else reply_bind (Server_Apply env (CloseSegment \<lparr>cl_ID = seg_ID g, cl_DoneNodeID = sr_NodeID r,
                 cl_ClosedAt = (if clock env < CreatedAt g then CreatedAt g else clock env),
                 cl_Size = sr_Size r, cl_Sha1 = sr_Sha1 r\<rparr>) w) (\<lambda>_ w. Ret (Inr (), w)))"

definition Server_SegmentClose :: "raft_env \<Rightarrow> (server_error + unit) \<Rightarrow> SegmentCloseRequest \<Rightarrow> leader \<Rightarrow> unit reply" where
  "Server_SegmentClose env answer r =
     on_leader env (sr_LeaderOnly r) answer (\<lambda>w.
       reply_bind (beginTransaction env w) (\<lambda>_ w.
         if sr_OffsetCommitsUpdate r \<noteq> None then Ret (Inl CommitsUpdateNotAllowed, w)
         else txSegmentClose env (cluster w) r w))"

text \<open>Closing the segment and opening the next one for its owner.\<close>

definition close_and_open :: "raft_env \<Rightarrow> SegmentCloseRequest \<Rightarrow> leader \<Rightarrow> SegmentOpenResponse reply" where
  "close_and_open env r w =
     reply_bind (txSegmentClose env (cluster w) r w) (\<lambda>_ w.
     reply_bind (Barrier env BarrierFailed w) (\<lambda>_ w.
       case GetClosedSegment (cluster w) (sr_SegmentID r) of
         None \<Rightarrow> Ret (Inl SegmentDeletedInBetween, w)
       | Some old \<Rightarrow> txSegmentOpen env (cluster w) (sr_NodeID r) (seg_Type old) (OwnerNamespace old) (OwnerName old) w))"

definition Server_SegmentRotate :: "raft_env \<Rightarrow> (server_error + SegmentOpenResponse) \<Rightarrow> SegmentCloseRequest \<Rightarrow> leader \<Rightarrow> SegmentOpenResponse reply" where
  "Server_SegmentRotate env answer r =
     on_leader env (sr_LeaderOnly r) answer (\<lambda>w.
       reply_bind (beginTransaction env w) (\<lambda>_ w.
         case sr_OffsetCommitsUpdate r of
           None \<Rightarrow> close_and_open env r w
         | Some (n, name, commits) \<Rightarrow>
             reply_bind (Server_Apply env (UpdateConsumerGroupOffsetCommits n name commits) w) (\<lambda>_. close_and_open env r)))"

text \<open>
  \<^verbatim>\<open>make([]uint64, 0, n)\<close> with a negative capacity panics.
\<close>

definition negative_capacity :: string where
  "negative_capacity = ''makeslice: cap out of range''"

definition replica_done :: "u64 \<Rightarrow> SegmentNodes \<Rightarrow> SegmentNodes" where
  "replica_done i nodes = \<lparr>PrimaryNodeID = 0, DoneNodeIDs = filter (\<lambda>j. j \<noteq> i) (DoneNodeIDs nodes) @ [i],
     ReplicatingNodeIDs = filter (\<lambda>j. j \<noteq> i) (ReplicatingNodeIDs nodes)\<rparr>"

definition Server_SegmentReplicaClose :: "raft_env \<Rightarrow> (server_error + unit) \<Rightarrow> SegmentCloseRequest \<Rightarrow> leader \<Rightarrow> unit reply" where
  "Server_SegmentReplicaClose env answer r =
     on_leader env (sr_LeaderOnly r) answer (\<lambda>w.
       reply_bind (beginTransaction env w) (\<lambda>_ w.
         case GetClosedSegment (cluster w) (sr_SegmentID r) of
           None \<Rightarrow> Ret (Inl (SegmentNotFound (sr_SegmentID r)), w)
         | Some g \<Rightarrow>
             if sr_Size r \<noteq> seg_Size g \<or> sr_Sha1 r \<noteq> Sha1 g then Ret (Inl ReplicaCorrupted, w)
             else if ReplicatingNodeIDs (seg_Nodes g) = [] then Panic negative_capacity
             else reply_bind (Server_Apply env (UpdateSegmentNodes (seg_ID g) CLOSED (replica_done (sr_NodeID r) (seg_Nodes g))) w)
                    (\<lambda>_ w. Ret (Inr (), w))))"

end
