(* ===== verification/Leader_Safety.thy ===== *)
theory Leader_Safety
  imports Segment_Service Cluster_Store
begin

text \<open>
  Which requests the leader serves without a panic. The invariant of the leader is that its state is well formed,
  that every consumer group has at most one open segment of offset commits, and that topics and
  bindings are of the shapes that the router and the reconciler expect. The handlers are shown one
  by one to keep it, by rules for the combinators they are written with; a locale lifts this to
  sequences of requests.
\<close>

subsection \<open>The invariant\<close>

definition sole :: "cluster_view \<Rightarrow> bool" where
  "sole v \<longleftrightarrow> (\<forall>i j g h n m. v_open v i = Some g \<longrightarrow> v_open v j = Some h \<longrightarrow>
     owned_by CONSUMER_GROUP_OFFSET_COMMITS n m g \<longrightarrow> owned_by CONSUMER_GROUP_OFFSET_COMMITS n m h \<longrightarrow> i = j)"

definition typed_topic :: "ClusterTopic \<Rightarrow> bool" where
  "typed_topic t \<longleftrightarrow> validExchangeTypes (DefaultExchangeType t) \<and> ReplicationFactor t > 0"

definition typed_binding :: "ClusterBinding \<Rightarrow> bool" where
  "typed_binding b \<longleftrightarrow>
     (case bind_By b of
        ByNone \<Rightarrow> bind_ExchangeType b = ExchangeTypeFanout
      | ByRoutingKey _ \<Rightarrow> bind_ExchangeType b = ExchangeTypeDirect \<or> bind_ExchangeType b = ExchangeTypeTopic
      | ByHeadersAll _ \<Rightarrow> bind_ExchangeType b = ExchangeTypeHeaders
      | ByHeadersAny _ \<Rightarrow> bind_ExchangeType b = ExchangeTypeHeaders)"

definition typed_group :: "ClusterConsumerGroup \<Rightarrow> bool" where
  "typed_group g \<longleftrightarrow> group_Size g > 0 \<and> list_all typed_binding (Bindings g)"

definition typed :: "cluster_view \<Rightarrow> bool" where
  "typed v \<longleftrightarrow> (\<forall>n nv. v_ns v n = Some nv \<longrightarrow>
     (\<forall>t x. nv_topics nv t = Some x \<longrightarrow> typed_topic x) \<and> (\<forall>g x. nv_groups nv g = Some x \<longrightarrow> typed_group x))"

definition service_inv :: "ClusterState \<Rightarrow> bool" where
  "service_inv s \<longleftrightarrow> wf_state s \<and> sole (abs_view s) \<and> typed (abs_view s)"

lemma service_invD:
  "service_inv s \<Longrightarrow> wf_state s" "service_inv s \<Longrightarrow> sole (abs_view s)" "service_inv s \<Longrightarrow> typed (abs_view s)"
  by (simp_all add: service_inv_def)

lemma typed_states:
  assumes "service_inv s"
  shows "GetTopic s n t = Some x \<Longrightarrow> typed_topic x" "GetConsumerGroup s n g = Some y \<Longrightarrow> typed_group y"
  using service_invD(3) [OF assms] by (auto simp: GetTopic_view GetConsumerGroup_view typed_def Option.bind_eq_Some_conv)

lemma open_view: "wf_state s \<Longrightarrow> v_open (abs_view s) i = Some g \<longleftrightarrow> g \<in> set (OpenSegments s) \<and> seg_ID g = i"
  by (simp add: abs_view_def klookup_Some_iff wf_idsD wf_stateD)

lemma sole_open:
  assumes "wf_state s"
  shows "sole (abs_view s) \<longleftrightarrow> (\<forall>n m. length (FindOpenSegmentsFor s CONSUMER_GROUP_OFFSET_COMMITS n m) \<le> 1)"
proof -
  have d: "distinct (map seg_ID (OpenSegments s))" using assms by (simp add: wf_idsD wf_stateD)
  have *: "length (filter P (OpenSegments s)) \<le> 1 \<longleftrightarrow>
      (\<forall>g \<in> set (OpenSegments s). \<forall>h \<in> set (OpenSegments s). P g \<longrightarrow> P h \<longrightarrow> seg_ID g = seg_ID h)" for P
  proof -
    have "length (filter P (OpenSegments s)) = card (seg_ID ` {g \<in> set (OpenSegments s). P g})"
      using distinct_card [of "map seg_ID (filter P (OpenSegments s))"] d by (simp add: distinct_map_filter)
    also have "\<dots> \<le> 1 \<longleftrightarrow> (\<forall>a \<in> seg_ID ` {g \<in> set (OpenSegments s). P g}. \<forall>b \<in> seg_ID ` {g \<in> set (OpenSegments s). P g}. a = b)"
      using card_le_Suc0_iff_eq [of "seg_ID ` {g \<in> set (OpenSegments s). P g}"] by simp
    finally show ?thesis by auto
  qed
  show ?thesis unfolding FindOpenSegmentsFor_def * sole_def open_view [OF assms] by blast
qed

lemma service_inv_Index [simp]: "service_inv (s\<lparr>Index := i\<rparr>) = service_inv s"
  by (simp add: service_inv_def Index_irrelevant)

lemma service_inv_NextSegmentID:
  "service_inv s \<Longrightarrow> CurrentSegmentID s \<noteq> - 1 \<Longrightarrow> service_inv (snd (NextSegmentID s))"
  using store_inv_allocate [of "\<lparr>st_current = s, st_pending = []\<rparr>" "fst (NextSegmentID s)" "snd (NextSegmentID s)"]
  by (simp add: store_inv_def service_inv_def NextSegmentID_def abs_view_def)

lemma NextSegmentID_fresh:
  assumes "wf_state s" "CurrentSegmentID s \<noteq> - 1"
  shows "fst (NextSegmentID s) \<notin> set (segment_ids s)"
  using store_inv_allocate [of "\<lparr>st_current = s, st_pending = []\<rparr>" "fst (NextSegmentID s)" "snd (NextSegmentID s)"] assms
  by (simp add: store_inv_def NextSegmentID_def segment_ids_def)

subsection \<open>Applying a command\<close>

text \<open>The commands that keep the invariant and do not panic.\<close>

fun second_commits_segment :: "ClusterCommand \<Rightarrow> ClusterState \<Rightarrow> bool" where
  "second_commits_segment (CreateSegment c) s \<longleftrightarrow> sc_Type c = CONSUMER_GROUP_OFFSET_COMMITS \<and>
     FindOpenSegmentsFor s CONSUMER_GROUP_OFFSET_COMMITS (sc_OwnerNamespace c) (sc_OwnerName c) \<noteq> []"
| "second_commits_segment _ s \<longleftrightarrow> False"

fun typed_command :: "ClusterCommand \<Rightarrow> bool" where
  "typed_command (CreateTopic _ t) \<longleftrightarrow> typed_topic t"
| "typed_command (CreateConsumerGroup _ g) \<longleftrightarrow> typed_group g"
| "typed_command _ \<longleftrightarrow> True"

definition runs :: "ClusterCommand \<Rightarrow> ClusterState \<Rightarrow> bool" where
  "runs c s \<longleftrightarrow> admissible c s \<and> \<not> invalid_which c \<and> \<not> second_commits_segment c s \<and> typed_command c \<and>
     (case needs_namespace c of None \<Rightarrow> True | Some n \<Rightarrow> FindNamespace s n \<noteq> None)"

lemma sole_less:
  assumes "sole v" and "\<And>i g. v_open v' i = Some g \<Longrightarrow> \<exists>h. v_open v i = Some h \<and> (\<forall>n m. owned_by CONSUMER_GROUP_OFFSET_COMMITS n m g
     \<longrightarrow> owned_by CONSUMER_GROUP_OFFSET_COMMITS n m h)"
  shows "sole v'"
  using assms unfolding sole_def by meson

lemma sole_spec:
  assumes "service_inv s" and "\<not> second_commits_segment c s"
  shows "sole (spec c (abs_view s))"
proof (cases c)
  case (CreateSegment x)
  have "\<not> owned_by CONSUMER_GROUP_OFFSET_COMMITS n m g"
    if "v_open (abs_view s) i = Some g" "owned_by CONSUMER_GROUP_OFFSET_COMMITS n m (opened x)" for i g n m
    using that assms(2) CreateSegment
    by (auto simp: open_view [OF service_invD(1) [OF assms(1)]] FindOpenSegmentsFor_def filter_empty_conv owned_by_def opened_def
        simp del: abs_view_simps)
  then show ?thesis using service_invD(2) [OF assms(1)] CreateSegment
    unfolding sole_def by (auto simp del: abs_view_simps split: if_splits) 
qed (rule sole_less [OF service_invD(2) [OF assms(1)]]; auto simp: on_ns_def owned_by_def simp del: abs_view_simps
    dest!: without_SomeD split: if_splits option.splits)+

lemma typed_spec:
  assumes "typed v" "typed_command c"
  shows "typed (spec c v)"
  using assms
  by (cases c) (auto simp: typed_def on_ns_def typed_group_def forget_topic_def upsert_group_def list_all_iff split: if_splits option.splits)

lemma Do_runs:
  assumes "service_inv s" and "runs c s"
  obtains s' where "Do i (Some c) s = Ret s'" "service_inv s'" "abs_view s' = spec c (abs_view s)" "Index s' = i"
    "uses_id c = None \<Longrightarrow> CurrentSegmentID s' = CurrentSegmentID s"
proof -
  obtain t where t: "apply_command c s = Ret t"
    using apply_command_panics [of c s] assms(2) by (cases "apply_command c s") (auto simp: runs_def)
  have ok: "step_ok c s t"
    using apply_command_step_ok [OF service_invD(1) [OF assms(1)] _ t] assms(2) by (simp add: runs_def)
  moreover have "sole (abs_view t)" "typed (abs_view t)"
    using sole_spec [OF assms(1)] typed_spec [OF service_invD(3) [OF assms(1)]] assms(2) ok by (simp_all add: runs_def step_ok_def)
  ultimately have "service_inv t" "abs_view t = spec c (abs_view s)" by (simp_all add: step_ok_def service_inv_def)
  then show ?thesis using that [of "t\<lparr>Index := i\<rparr>"] t no_new_segment_ids [OF service_invD(1) [OF assms(1)] _ t]
    by (simp add: Do_def)
qed

text \<open>
  An application that runs either returns the index of the command, which is then applied, or an
  error; then the command is applied or not.
\<close>

lemma Server_Apply_cases:
  assumes "service_inv (cluster w)" and "runs c (cluster w)"
  obtains (applied) i w' where "Server_Apply env c w = Ret (Inr i, w')" "apply_result env (calls w) = Committed i"
      "service_inv (cluster w')" "abs_view (cluster w') = spec c (abs_view (cluster w))" "Index (cluster w') = i"
      "uses_id c = None \<Longrightarrow> CurrentSegmentID (cluster w') = CurrentSegmentID (cluster w)" "calls w' = calls w + 1"
  | (failed) w' where "Server_Apply env c w = Ret (Inl ApplyFailed, w')" "\<And>i. apply_result env (calls w) \<noteq> Committed i"
      "service_inv (cluster w')"
      "abs_view (cluster w') = abs_view (cluster w) \<or> abs_view (cluster w') = spec c (abs_view (cluster w))"
      "uses_id c = None \<Longrightarrow> CurrentSegmentID (cluster w') = CurrentSegmentID (cluster w)" "calls w' = calls w + 1"
proof (cases "apply_result env (calls w)")
  case (Committed i)
  from assms show ?thesis
  proof (rule Do_runs [of _ _ i])
    fix s' assume "Do i (Some c) (cluster w) = Ret s'" "service_inv s'" "abs_view s' = spec c (abs_view (cluster w))"
      "Index s' = i" "uses_id c = None \<Longrightarrow> CurrentSegmentID s' = CurrentSegmentID (cluster w)"
    then show ?thesis using applied [of i "w\<lparr>calls := calls w + 1, cluster := s'\<rparr>"] by (simp add: Server_Apply_def Committed)
  qed
next
  case (CommittedUnseen i)
  from assms show ?thesis
  proof (rule Do_runs [of _ _ i])
    fix s' assume "Do i (Some c) (cluster w) = Ret s'" "service_inv s'" "abs_view s' = spec c (abs_view (cluster w))"
      "Index s' = i" "uses_id c = None \<Longrightarrow> CurrentSegmentID s' = CurrentSegmentID (cluster w)"
    then show ?thesis using failed [of "w\<lparr>calls := calls w + 1, cluster := s'\<rparr>"] by (simp add: Server_Apply_def CommittedUnseen)
  qed
next
  case Rejected
  then show ?thesis using assms failed by (simp add: Server_Apply_def)
qed

subsection \<open>Rules for the handlers\<close>

text \<open>A reply that does not panic and leaves the invariant.\<close>

definition safe :: "'a reply \<Rightarrow> bool" where
  "safe m \<longleftrightarrow> (\<exists>r w. m = Ret (r, w) \<and> service_inv (cluster w))"

lemma safe_Ret [simp]: "safe (Ret (r, w)) = service_inv (cluster w)"
  by (simp add: safe_def)

lemma safe_bind:
  assumes "safe m" "\<And>a w. m = Ret (Inr a, w) \<Longrightarrow> service_inv (cluster w) \<Longrightarrow> safe (f a w)"
  shows "safe (reply_bind m f)"
proof -
  obtain r w where m: "m = Ret (r, w)" "service_inv (cluster w)" using assms(1) by (auto simp: safe_def)
  show ?thesis using assms(2) m by (cases r) auto
qed

lemma safe_Apply:
  assumes "service_inv (cluster w)" "runs c (cluster w)"
  shows "safe (Server_Apply env c w)"
  by (rule Server_Apply_cases [OF assms, of env]) simp_all

lemma beginTransaction_cluster: "beginTransaction env w = Ret (r, w') \<Longrightarrow> cluster w' = cluster w"
  "Barrier env e w = Ret (r, w') \<Longrightarrow> cluster w' = cluster w"
  by (auto simp: beginTransaction_def Barrier_def)

lemma safe_Barrier [simp]: "safe (Barrier env e w) = service_inv (cluster w)"
  by (simp add: Barrier_def)

lemma safe_on_leader:
  "service_inv (cluster w) \<Longrightarrow> safe (body w) \<Longrightarrow> safe (on_leader env lo answer body w)"
  by (simp add: on_leader_def)

lemma safe_validated: "service_inv (cluster w) \<Longrightarrow> (errs = [] \<Longrightarrow> safe (body w)) \<Longrightarrow> safe (validated errs body w)"
  by (simp add: validated_def)

lemma safe_transaction:
  "service_inv (cluster w) \<Longrightarrow> (\<And>w'. cluster w' = cluster w \<Longrightarrow> service_inv (cluster w') \<Longrightarrow> safe (body w')) \<Longrightarrow>
   safe (reply_bind (beginTransaction env w) (\<lambda>_. body))"
  by (rule safe_bind) (auto simp: beginTransaction_def dest: beginTransaction_cluster(2))

lemma safe_with_namespace:
  "service_inv (cluster w) \<Longrightarrow> (\<And>ns i. FindNamespace (cluster w) n = Some (ns, i) \<Longrightarrow> safe (body ns w)) \<Longrightarrow>
   safe (with_namespace n body w)"
  by (auto simp: with_namespace_def split: option.split)

lemmas safe_intros = safe_on_leader safe_validated safe_transaction safe_with_namespace safe_Apply

subsection \<open>Namespaces, topics and the deletion of groups\<close>

lemma safe_CreateNamespace: "service_inv (cluster w) \<Longrightarrow> safe (Server_CreateNamespace env answer r w)"
  unfolding Server_CreateNamespace_def by (intro safe_intros) (simp_all add: runs_def)

lemma safe_DeleteNamespace: "service_inv (cluster w) \<Longrightarrow> safe (Server_DeleteNamespace env answer r w)"
  unfolding Server_DeleteNamespace_def by (intro safe_intros) (simp_all add: runs_def)

lemma typed_cluster_topic: "TopicCreateRequest_Validate r = [] \<Longrightarrow> typed_topic (cluster_topic (tc_Topic r))"
  by (auto simp: TopicCreateRequest_Validate_def exchange_errors_def typed_topic_def cluster_topic_def defaultReplicationFactor_def
      word_gt_0 split: if_splits)

lemma safe_CreateTopic: "service_inv (cluster w) \<Longrightarrow> safe (Server_CreateTopic env answer r w)"
  unfolding Server_CreateTopic_def
  by (intro safe_intros) (auto simp: runs_def typed_cluster_topic intro!: safe_Apply split: option.split)

lemma safe_DeleteTopic: "service_inv (cluster w) \<Longrightarrow> safe (Server_DeleteTopic env answer r w)"
  unfolding Server_DeleteTopic_def by (intro safe_intros) (auto simp: runs_def intro!: safe_Apply)

lemma safe_apply_all:
  "list_all (\<lambda>c. \<forall>s. runs c s) cs \<Longrightarrow> service_inv (cluster w) \<Longrightarrow> safe (apply_all env cs index w)"
  by (induction cs arbitrary: index w) (auto intro!: safe_bind safe_Apply)

lemma safe_DeleteConsumerGroup: "service_inv (cluster w) \<Longrightarrow> safe (Server_DeleteConsumerGroup env answer r w)"
  unfolding Server_DeleteConsumerGroup_def
  by (intro safe_intros) (auto simp: runs_def Let_def list_all_iff intro!: safe_bind safe_Apply safe_apply_all)

lemma safe_ListTopics: "service_inv (cluster w) \<Longrightarrow> safe (Server_ListTopics env answer r w)"
  unfolding Server_ListTopics_def by (intro safe_intros) simp_all

lemma safe_ListConsumerGroups: "service_inv (cluster w) \<Longrightarrow> safe (Server_ListConsumerGroups env answer r w)"
  unfolding Server_ListConsumerGroups_def by (intro safe_intros) simp_all

subsection \<open>Segments\<close>

lemma FindNamespace_view: "FindNamespace s n = None \<longleftrightarrow> v_ns (abs_view s) n = None"
  by (simp add: abs_view_def Find_None(1))

lemma namespace_stays: "c \<noteq> DeleteNamespace n \<Longrightarrow> v_ns v n \<noteq> None \<Longrightarrow> v_ns (spec c v) n \<noteq> None"
  by (cases c) (auto simp: on_ns_def split: option.splits)

lemma Server_Apply_stays:
  assumes "service_inv (cluster w)" "runs c (cluster w)" "c \<noteq> DeleteNamespace n" "FindNamespace (cluster w) n \<noteq> None"
  shows "\<exists>r w'. Server_Apply env c w = Ret (r, w') \<and> service_inv (cluster w') \<and> FindNamespace (cluster w') n \<noteq> None"
proof -
  have "v_ns (spec c (abs_view (cluster w))) n \<noteq> None"
    using assms(3,4) unfolding FindNamespace_view by (rule namespace_stays)
  then show ?thesis
    using assms(4) unfolding FindNamespace_view
    by (cases rule: Server_Apply_cases [OF assms(1,2), of env]) auto
qed

lemma safe_add_offset_commits:
  assumes "service_inv (cluster w)" "FindNamespace (cluster w) (ns_Name ns) \<noteq> None"
  shows "\<exists>w'. add_offset_commits env ns topic i cgs w = Ret w' \<and> service_inv (cluster w')"
  using assms
proof (induction cgs arbitrary: w)
  case (Cons cg cgs)
  let ?c = "UpdateConsumerGroupOffsetCommits (ns_Name ns) (group_Name cg) (OffsetCommits cg @ [\<lparr>oc_SegmentID = i, oc_Offset = 0\<rparr>])"
  have "runs ?c (cluster w)" using Cons.prems by (simp add: runs_def)
  from Server_Apply_stays [OF Cons.prems(1) this _ Cons.prems(2), of env] obtain r w' where
    "Server_Apply env ?c w = Ret (r, w')" "service_inv (cluster w')" "FindNamespace (cluster w') (ns_Name ns) \<noteq> None" by auto
  then show ?case using Cons.IH [of w'] Cons.IH [OF Cons.prems] by simp
qed simp

lemma GetTopic_namespace: "GetTopic s n t \<noteq> None \<Longrightarrow> FindNamespace s n \<noteq> None"
  by (auto simp: GetTopic_def split: option.splits)

text \<open>The creation of a segment for an owner that exists and may have one more.\<close>

lemma safe_create_segment:
  assumes inv: "service_inv (cluster w)" and room: "CurrentSegmentID (cluster w) \<noteq> - 1"
    and topic: "t = TOPIC \<Longrightarrow> FindNamespace (cluster w) n \<noteq> None"
    and commits: "t = CONSUMER_GROUP_OFFSET_COMMITS \<Longrightarrow> FindOpenSegmentsFor (cluster w) t n name = []"
  shows "safe (create_segment env (cluster w) node t n name shards rf w)"
proof -
  obtain g h where gs: "generation_and_shard (cluster w) node t n name shards = (g, h)" by fastforce
  define s where "s = snd (NextSegmentID (cluster w))"
  define i where "i = fst (NextSegmentID (cluster w))"
  have nid: "NextSegmentID (cluster w) = (i, s)" by (simp add: s_def i_def)
  have s: "service_inv s" using service_inv_NextSegmentID [OF inv room] by (simp add: s_def)
  have same: "segment_ids s = segment_ids (cluster w)" "FindNamespace s m = FindNamespace (cluster w) m"
    "FindOpenSegmentsFor s = FindOpenSegmentsFor (cluster w)" for m
    by (simp_all add: s_def NextSegmentID_def segment_ids_def FindNamespace_def FindOpenSegmentsFor_def fun_eq_iff)
  define c where "c = CreateSegment \<lparr>sc_ID = i, sc_Type = t, sc_OwnerNamespace = n, sc_OwnerName = name,
      sc_Generation = g, sc_Shard = h, sc_OpenedAt = clock env, sc_PrimaryNodeID = node,
      sc_ReplicatingNodeIDs = replicas_for (cluster w) node rf\<rparr>"
  have runs: "runs c s"
    using commits NextSegmentID_fresh [OF service_invD(1) [OF inv] room] by (auto simp: runs_def c_def same i_def)
  have eq: "create_segment env (cluster w) node t n name shards rf w =
      reply_bind (Server_Apply env c (w\<lparr>cluster := s\<rparr>)) (\<lambda>_ w'. if t = TOPIC then
        (case FindNamespace (cluster w) n of
           None \<Rightarrow> Panic nil_dereference
         | Some (namespace, _) \<Rightarrow> and_then (add_offset_commits env namespace name i (ConsumerGroups namespace) w') (\<lambda>w. Ret (Inr (i, node), w)))
        else Ret (Inr (i, node), w'))"
    by (simp add: create_segment_def gs nid c_def)
  show ?thesis
  proof (cases "t = TOPIC")
    case True
    then obtain ns k where ns: "FindNamespace (cluster w) n = Some (ns, k)" using topic by auto
    then have name: "ns_Name ns = n" using FindNamespace_Some by blast
    from Server_Apply_stays [of "w\<lparr>cluster := s\<rparr>" c n env] obtain r w' where
      w': "Server_Apply env c (w\<lparr>cluster := s\<rparr>) = Ret (r, w')" "service_inv (cluster w')" "FindNamespace (cluster w') n \<noteq> None"
      using s runs ns by (auto simp: same c_def)
    obtain w'' where "add_offset_commits env ns name i (ConsumerGroups ns) w' = Ret w''" "service_inv (cluster w'')"
      using safe_add_offset_commits [of w' ns env name i] w' name by blast
    then show ?thesis unfolding eq using w' ns True by (cases r) simp_all
  next
    case False
    then show ?thesis unfolding eq using safe_Apply [of "w\<lparr>cluster := s\<rparr>" c env] s runs
      by (auto intro!: safe_bind)
  qed
qed

lemma no_commits_segment:
  assumes "service_inv s" "owner_limits s t n name = Inr (shards, rf)" "t = CONSUMER_GROUP_OFFSET_COMMITS"
    "\<not> (shards > 0 \<and> of_nat (length (FindOpenSegmentsFor s t n name)) \<ge> shards)"
  shows "FindOpenSegmentsFor s t n name = []"
proof -
  have "shards = 1" using assms(2,3) by (auto simp: owner_limits_def split: if_splits)
  moreover have "length (FindOpenSegmentsFor s t n name) \<le> 1"
    using sole_open [OF service_invD(1)] assms(1,3) by (auto simp: service_inv_def)
  ultimately show ?thesis using assms(4) by (cases "FindOpenSegmentsFor s t n name") auto
qed

lemma safe_txSegmentOpen:
  assumes "service_inv (cluster w)" "CurrentSegmentID (cluster w) \<noteq> - 1"
  shows "safe (txSegmentOpen env (cluster w) node t n name w)"
proof (cases "owner_limits (cluster w) t n name")
  case (Inr lim)
  obtain shards rf where lim: "lim = (shards, rf)" by fastforce
  have "FindNamespace (cluster w) n \<noteq> None" if "t = TOPIC"
    using Inr that GetTopic_namespace [of "cluster w" n name] by (auto simp: owner_limits_def split: option.splits)
  then show ?thesis
    using assms safe_create_segment [of w t n name env node shards rf] no_commits_segment [OF assms(1), of t n name shards rf] Inr lim
    by (auto simp: txSegmentOpen_def Let_def split: option.split)
qed (use assms in \<open>simp add: txSegmentOpen_def\<close>)

lemma safe_SegmentOpen:
  "service_inv (cluster w) \<Longrightarrow> CurrentSegmentID (cluster w) \<noteq> - 1 \<Longrightarrow> safe (Server_SegmentOpen env answer r w)"
  unfolding Server_SegmentOpen_def by (intro safe_on_leader safe_transaction safe_txSegmentOpen) simp_all

lemma runs_CloseSegment [simp]: "runs (CloseSegment c) s"
  by (simp add: runs_def)

lemma safe_txSegmentClose: "service_inv (cluster w) \<Longrightarrow> safe (txSegmentClose env state r w)"
  by (auto simp: txSegmentClose_def intro!: safe_bind safe_Apply split: option.split)

lemma safe_SegmentClose: "service_inv (cluster w) \<Longrightarrow> safe (Server_SegmentClose env answer r w)"
  unfolding Server_SegmentClose_def by (intro safe_on_leader safe_transaction) (auto intro!: safe_txSegmentClose)

lemma txSegmentClose_counter:
  assumes "service_inv (cluster w)" "txSegmentClose env state r w = Ret (x, w')"
  shows "CurrentSegmentID (cluster w') = CurrentSegmentID (cluster w)"
proof (cases "GetOpenSegment state (sr_SegmentID r)")
  case (Some g)
  show ?thesis
    using assms(2) Some
    by (cases rule: Server_Apply_cases [OF assms(1) runs_CloseSegment, of env \<open>\<lparr>cl_ID = seg_ID g, cl_DoneNodeID = sr_NodeID r,
        cl_ClosedAt = (if clock env < CreatedAt g then CreatedAt g else clock env), cl_Size = sr_Size r, cl_Sha1 = sr_Sha1 r\<rparr>\<close>])
      (auto simp: txSegmentClose_def split: if_splits)
qed (use assms(2) in \<open>auto simp: txSegmentClose_def split: if_splits\<close>)

text \<open>
  A rotation may carry offset commits of a consumer group; their namespace must exist.
\<close>

definition commits_namespace_exists :: "SegmentCloseRequest \<Rightarrow> ClusterState \<Rightarrow> bool" where
  "commits_namespace_exists r s \<longleftrightarrow>
     (case sr_OffsetCommitsUpdate r of None \<Rightarrow> True | Some (n, _) \<Rightarrow> FindNamespace s n \<noteq> None)"

lemma commits_update_keeps:
  assumes "service_inv (cluster w)" "FindNamespace (cluster w) n \<noteq> None"
  shows "safe (Server_Apply env (UpdateConsumerGroupOffsetCommits n g cs) w)"
    and "Server_Apply env (UpdateConsumerGroupOffsetCommits n g cs) w = Ret (x, w') \<Longrightarrow> CurrentSegmentID (cluster w') = CurrentSegmentID (cluster w)"
proof -
  have runs: "runs (UpdateConsumerGroupOffsetCommits n g cs) (cluster w)" using assms(2) by (simp add: runs_def)
  then show "safe (Server_Apply env (UpdateConsumerGroupOffsetCommits n g cs) w)" using assms(1) by (intro safe_Apply)
  show "CurrentSegmentID (cluster w') = CurrentSegmentID (cluster w)" if "Server_Apply env (UpdateConsumerGroupOffsetCommits n g cs) w = Ret (x, w')"
    using that by (cases rule: Server_Apply_cases [OF assms(1) runs, of env]) auto
qed

lemma safe_close_and_open:
  assumes "service_inv (cluster w)" "CurrentSegmentID (cluster w) \<noteq> - 1"
  shows "safe (close_and_open env r w)"
  unfolding close_and_open_def
proof (intro safe_bind safe_txSegmentClose assms(1))
  fix u w1 v w2
  assume "txSegmentClose env (cluster w) r w = Ret (Inr u, w1)" and 1: "service_inv (cluster w1)"
    and "Barrier env BarrierFailed w1 = Ret (Inr v, w2)" and 2: "service_inv (cluster w2)"
  then have "CurrentSegmentID (cluster w2) \<noteq> - 1"
    using assms txSegmentClose_counter beginTransaction_cluster(2) by metis
  then show "safe (case GetClosedSegment (cluster w2) (sr_SegmentID r) of
         None \<Rightarrow> Ret (Inl SegmentDeletedInBetween, w2)
       | Some old \<Rightarrow> txSegmentOpen env (cluster w2) (sr_NodeID r) (seg_Type old) (OwnerNamespace old) (OwnerName old) w2)"
    using 2 by (auto intro!: safe_txSegmentOpen split: option.split)
qed simp

lemma safe_SegmentRotate:
  assumes "service_inv (cluster w)" "CurrentSegmentID (cluster w) \<noteq> - 1" "commits_namespace_exists r (cluster w)"
  shows "safe (Server_SegmentRotate env answer r w)"
  unfolding Server_SegmentRotate_def
proof (intro safe_on_leader safe_transaction assms(1))
 fix w' :: leader assume w': "cluster w' = cluster w" "service_inv (cluster w')"
  show "safe (case sr_OffsetCommitsUpdate r of
         None \<Rightarrow> close_and_open env r w'
       | Some (n, name, commits) \<Rightarrow>
           reply_bind (Server_Apply env (UpdateConsumerGroupOffsetCommits n name commits) w') (\<lambda>_. close_and_open env r))"
  proof (cases "sr_OffsetCommitsUpdate r")
    case None
    then show ?thesis using safe_close_and_open [OF w'(2)] assms(2) w'(1) by simp
  next
    case (Some u)
    obtain n g cs where u: "u = (n, g, cs)" by (cases u)
    have n: "FindNamespace (cluster w') n \<noteq> None" using assms(3) Some u w'(1) by (simp add: commits_namespace_exists_def)
    have "safe (reply_bind (Server_Apply env (UpdateConsumerGroupOffsetCommits n g cs) w') (\<lambda>_. close_and_open env r))"
      by (rule safe_bind [OF commits_update_keeps(1) [OF w'(2) n]])
        (use commits_update_keeps(2) [OF w'(2) n] assms(2) w'(1) in \<open>simp add: safe_close_and_open\<close>)
    then show ?thesis by (simp add: Some u)
  qed
qed

text \<open>
  A finished replica is reported for a segment that still has replicating nodes.
\<close>

definition replica_expected :: "SegmentCloseRequest \<Rightarrow> ClusterState \<Rightarrow> bool" where
  "replica_expected r s \<longleftrightarrow>
     (case GetClosedSegment s (sr_SegmentID r) of
        None \<Rightarrow> True
      | Some g \<Rightarrow> sr_Size r \<noteq> seg_Size g \<or> sr_Sha1 r \<noteq> Sha1 g \<or> ReplicatingNodeIDs (seg_Nodes g) \<noteq> [])"

lemma safe_SegmentReplicaClose:
  "service_inv (cluster w) \<Longrightarrow> replica_expected r (cluster w) \<Longrightarrow> safe (Server_SegmentReplicaClose env answer r w)"
  unfolding Server_SegmentReplicaClose_def
  by (intro safe_on_leader safe_transaction)
    (auto simp: replica_expected_def runs_def intro!: safe_bind safe_Apply split: option.splits)

subsection \<open>The creation of groups\<close>

lemma replay_append: "replay env (tr @ tr') w = and_then (replay env tr w) (replay env tr')"
proof (induction tr arbitrary: w)
  case (Cons e tr)
  show ?case
  proof (cases e)
    case (Applied c)
    then show ?thesis using Cons by (cases "Server_Apply env c w") auto
  qed (use Cons in simp_all)
qed simp

text \<open>
  The trace of the reconciler, replayed on the store, keeps the invariant, the namespaces and, but for their
  offset commits, the consumer groups.
\<close>

definition core_group :: "cluster_view \<Rightarrow> string \<Rightarrow> string \<Rightarrow> ClusterConsumerGroup option" where
  "core_group v n g = Option.bind (v_ns v n) (\<lambda>nv. map_option (\<lambda>cg. cg\<lparr>OffsetCommits := []\<rparr>) (nv_groups nv g))"

fun bookkeeping :: "ClusterCommand \<Rightarrow> bool" where
  "bookkeeping (CreateSegment _) \<longleftrightarrow> True"
| "bookkeeping (UpdateConsumerGroupOffsetCommits _ _ _) \<longleftrightarrow> True"
| "bookkeeping _ \<longleftrightarrow> False"

lemma bookkeeping_spec:
  assumes "bookkeeping c"
  shows "core_group (spec c v) = core_group v" "v_ns (spec c v) n = None \<longleftrightarrow> v_ns v n = None"
  using assms by (cases c; auto simp: core_group_def on_ns_def fun_eq_iff option.map_comp o_def split: Option.bind_split)+

definition replays :: "raft_env \<Rightarrow> string \<Rightarrow> trace \<Rightarrow> leader \<Rightarrow> bool" where
  "replays env n tr w \<longleftrightarrow> (\<exists>w'. replay env tr w = Ret w' \<and> service_inv (cluster w') \<and> FindNamespace (cluster w') n \<noteq> None \<and>
     core_group (abs_view (cluster w')) = core_group (abs_view (cluster w)))"

lemma replays_Applied:
  assumes "replays env n tr w" "\<And>w'. replay env tr w = Ret w' \<Longrightarrow> FindNamespace (cluster w') n \<noteq> None \<Longrightarrow> runs c (cluster w')"
    "bookkeeping c"
  shows "replays env n (tr @ [Applied c]) w"
proof -
  obtain w' where w': "replay env tr w = Ret w'" "service_inv (cluster w')" "FindNamespace (cluster w') n \<noteq> None"
    "core_group (abs_view (cluster w')) = core_group (abs_view (cluster w))"
    using assms(1) by (auto simp: replays_def)
  have "v_ns (spec c (abs_view (cluster w'))) n \<noteq> None"
    using w'(3) bookkeeping_spec(2) [OF assms(3)] by (simp only: FindNamespace_view not_False_eq_True)
  then show ?thesis using w' bookkeeping_spec(1) [OF assms(3)] unfolding replays_def replay_append FindNamespace_view
    by (cases rule: Server_Apply_cases [OF w'(2) assms(2) [OF w'(1,3)], of env]) auto
qed

lemma replays_commits_segment:
  assumes "service_inv (cluster w)" "CurrentSegmentID (cluster w) \<noteq> - 1" "FindNamespace (cluster w) (ns_Name ns) \<noteq> None"
  shows "\<exists>cnt' tr. reconcileConsumerGroupOffsetCommitsSegment (server_delegate env w) (cluster w) ns cg (cnt, []) = Ret (cnt', tr)
     \<and> replays env (ns_Name ns) tr w"
proof -
  let ?open = "FindOpenSegmentsFor (cluster w) CONSUMER_GROUP_OFFSET_COMMITS (ns_Name ns) (group_Name cg)"
  define s where "s = snd (NextSegmentID (cluster w))"
  have s: "service_inv s" "segment_ids s = segment_ids (cluster w)" "FindNamespace s = FindNamespace (cluster w)"
    "FindOpenSegmentsFor s = FindOpenSegmentsFor (cluster w)"
    using service_inv_NextSegmentID [OF assms(1,2)]
    by (simp_all add: s_def NextSegmentID_def segment_ids_def FindNamespace_def FindOpenSegmentsFor_def fun_eq_iff)
  have s_view: "abs_view s = abs_view (cluster w)" by (simp add: s_def NextSegmentID_def abs_view_def)
  have one: "length ?open \<le> 1" using sole_open [OF service_invD(1)] assms(1) by (auto simp: service_inv_def)
  have idle: "replays env (ns_Name ns) [] w" using assms(1,3) by (simp add: replays_def)
  have taken: "replay env [IDTaken, TimeAsked] w = Ret (w\<lparr>cluster := s\<rparr>)" by (simp add: s_def)
  have "replays env (ns_Name ns) [IDTaken, TimeAsked, Applied (CreateSegment c)] w"
    if "sc_ID c = fst (NextSegmentID (cluster w))" "sc_OwnerNamespace c = ns_Name ns" "sc_OwnerName c = group_Name cg"
      "?open = []" for c
    using replays_Applied [of env "ns_Name ns" "[IDTaken, TimeAsked]" w "CreateSegment c"] taken s that assms(3)
      NextSegmentID_fresh [OF service_invD(1) [OF assms(1)] assms(2)] s_view by (auto simp: replays_def runs_def simp flip: s_def)
  moreover have "?open = []" if "length ?open \<noteq> 1" using one that by (cases ?open) auto
  ultimately show ?thesis using one idle
    by (auto simp: reconcileConsumerGroupOffsetCommitsSegment_def Let_def Apply_def server_delegate_def
        split: sum.split)
qed

lemma replays_ReconcileConsumerGroup:
  assumes "service_inv (cluster w)" "CurrentSegmentID (cluster w) \<noteq> - 1" "FindNamespace (cluster w) (ns_Name ns) \<noteq> None"
  shows "\<exists>index tr. ReconcileConsumerGroup (server_delegate env w) (cluster w) ns cg [] = Ret (index, tr) \<and> replays env (ns_Name ns) tr w"
proof -
  obtain cnt tr where 1: "reconcileConsumerGroupOffsetCommitsSegment (server_delegate env w) (cluster w) ns cg
      (CountSegmentsPerNode (cluster w), []) = Ret (cnt, tr)" "replays env (ns_Name ns) tr w"
    using replays_commits_segment [OF assms] by blast
  have "replays env (ns_Name ns) (tr @ [Applied (UpdateConsumerGroupOffsetCommits (ns_Name ns) g cs)]) w" for g cs
    by (rule replays_Applied [OF 1(2)]) (simp_all add: runs_def)
  then show ?thesis using 1
    by (auto simp: ReconcileConsumerGroup_def reconcileConsumerGroupOffsetCommits_def Apply_def split: option.split sum.split)
qed

lemma typed_cluster_binding: "cluster_binding s n b = Inr c \<Longrightarrow> typed_binding c"
  by (auto simp: cluster_binding_def typed_binding_def Let_def split: if_splits BindingBy.splits)

lemma typed_cluster_bindings: "cluster_bindings s n bs = Inr cs \<Longrightarrow> list_all typed_binding cs"
  by (induction s n bs arbitrary: cs rule: cluster_bindings.induct) (auto split: sum.splits dest: typed_cluster_binding)

lemma typed_cluster_group:
  "cluster_bindings s n bs = Inr cs \<Longrightarrow> typed_group (cluster_group env old g cs)"
  by (auto simp: typed_group_def cluster_group_def defaultConsumerGroupSize_def word_gt_0 typed_cluster_bindings)

lemma group_created:
  assumes "service_inv (cluster w)" "FindNamespace (cluster w) n \<noteq> None" "typed_group g"
    "Server_Apply env (CreateConsumerGroup n g) w = Ret (Inr index, w')"
  shows "core_group (abs_view (cluster w')) n (group_Name g) = Some (g\<lparr>OffsetCommits := []\<rparr>)"
    "CurrentSegmentID (cluster w') = CurrentSegmentID (cluster w)"
proof -
  have runs: "runs (CreateConsumerGroup n g) (cluster w)" using assms(2,3) by (simp add: runs_def)
  have "abs_view (cluster w') = spec (CreateConsumerGroup n g) (abs_view (cluster w))"
    and "CurrentSegmentID (cluster w') = CurrentSegmentID (cluster w)"
    using assms(4) by (cases rule: Server_Apply_cases [OF assms(1) runs, of env]; simp)+
  then show "core_group (abs_view (cluster w')) n (group_Name g) = Some (g\<lparr>OffsetCommits := []\<rparr>)"
    "CurrentSegmentID (cluster w') = CurrentSegmentID (cluster w)"
    using assms(2) by (auto simp: core_group_def FindNamespace_view on_ns_def upsert_group_def)
qed

lemma core_group_found:
  assumes "core_group (abs_view s) n g = Some x"
  obtains ns i cg j where "FindNamespace s n = Some (ns, i)" "ns_Name ns = n" "FindConsumerGroup ns g = Some (cg, j)"
    "GetConsumerGroup s n g = Some cg" "cg\<lparr>OffsetCommits := []\<rparr> = x"
proof -
  obtain cg where cg: "GetConsumerGroup s n g = Some cg" "cg\<lparr>OffsetCommits := []\<rparr> = x"
    using assms by (auto simp: core_group_def GetConsumerGroup_view Option.bind_eq_Some_conv)
  then obtain ns i j where "FindNamespace s n = Some (ns, i)" "FindConsumerGroup ns g = Some (cg, j)"
    by (auto simp: GetConsumerGroup_def split: option.splits)
  then show ?thesis using that cg FindNamespace_Some by blast
qed

lemma reconcile_created_cases:
  assumes "service_inv (cluster w)" "CurrentSegmentID (cluster w) \<noteq> - 1" "core_group (abs_view (cluster w)) n g = Some x"
  obtains (failed) w' where "reconcile_created env n g index w = Ret (Inl BarrierFailed, w')" "cluster w' = cluster w"
  | (reconciled) index' w' where "reconcile_created env n g index w = Ret (Inr index', w')" "service_inv (cluster w')"
      "core_group (abs_view (cluster w')) n g = Some x"
proof (cases "barrier_ok env (calls w)")
  case True
  define w1 where "w1 = w\<lparr>calls := calls w + 1\<rparr>"
  have w1: "cluster w1 = cluster w" by (simp add: w1_def)
  from assms(3) obtain ns i cg j where ns: "FindNamespace (cluster w1) n = Some (ns, i)" "ns_Name ns = n"
    "FindConsumerGroup ns g = Some (cg, j)" unfolding w1 [symmetric] by (rule core_group_found)
  obtain index' tr where tr: "ReconcileConsumerGroup (server_delegate env w1) (cluster w1) ns cg [] = Ret (index', tr)" "replays env n tr w1"
    using replays_ReconcileConsumerGroup [of w1 ns env cg] assms(1,2) ns w1 by auto
  then obtain w' where w': "replay env tr w1 = Ret w'" "service_inv (cluster w')"
    "core_group (abs_view (cluster w')) = core_group (abs_view (cluster w))" unfolding replays_def w1 by blast
  have "Barrier env BarrierFailed w = Ret (Inr (), w1)" using True by (simp add: Barrier_def w1_def)
  then have "reconcile_created env n g index w = Ret (Inr (if index' > 0 then index' else index), w')"
    using ns tr(1) w'(1) by (simp add: reconcile_created_def)
  then show ?thesis using reconciled w'(2,3) assms(3) by simp
qed (use failed in \<open>simp add: reconcile_created_def Barrier_def\<close>)

lemma safe_CreateConsumerGroup:
  assumes inv: "service_inv (cluster w)" and room: "CurrentSegmentID (cluster w) \<noteq> - 1"
  shows "safe (Server_CreateConsumerGroup env answer r w)"
  unfolding Server_CreateConsumerGroup_def Let_def
proof (intro safe_on_leader safe_validated safe_transaction safe_with_namespace inv)
  let ?n = "ec_Namespace (gc_ConsumerGroup r)" and ?g = "ec_Name (gc_ConsumerGroup r)"
  fix w1 :: leader and ns i
  assume w1: "cluster w1 = cluster w" "service_inv (cluster w1)" and ns: "FindNamespace (cluster w1) ?n = Some (ns, i)"
  have "safe (reply_bind (Server_Apply env (CreateConsumerGroup ?n cg) w1) (reconcile_created env ?n (group_Name cg)))"
    if cg: "typed_group cg" for cg
  proof (intro safe_bind safe_Apply w1(2))
    fix index w2
    assume ap: "Server_Apply env (CreateConsumerGroup ?n cg) w1 = Ret (Inr index, w2)" "service_inv (cluster w2)"
    have some: "FindNamespace (cluster w1) ?n \<noteq> None" using ns by simp
    note made = group_created [OF w1(2) some cg ap(1)]
    have "CurrentSegmentID (cluster w2) \<noteq> - 1" using made(2) room w1(1) by simp
    from reconcile_created_cases [OF ap(2) this made(1), of env index]
    show "safe (reconcile_created env ?n (group_Name cg) index w2)" using ap(2) by (metis safe_Ret)
  qed (use ns cg in \<open>simp add: runs_def\<close>)
  then have "safe (reply_bind (Server_Apply env (CreateConsumerGroup ?n (cluster_group env old (gc_ConsumerGroup r) bs)) w1)
      (reconcile_created env ?n ?g))"
    if "cluster_bindings (cluster w1) ?n (ec_Bindings (gc_ConsumerGroup r)) = Inr bs" for old bs
    using typed_cluster_group [OF that] by (fastforce simp: cluster_group_def)
  then show "safe (case cluster_bindings (cluster w1) ?n (ec_Bindings (gc_ConsumerGroup r)) of
      Inl e \<Rightarrow> Ret (Inl e, w1)
    | Inr bs \<Rightarrow> reply_bind (Server_Apply env (CreateConsumerGroup ?n
               (cluster_group env (map_option fst (FindConsumerGroup ns ?g)) (gc_ConsumerGroup r) bs)) w1)
            (reconcile_created env ?n ?g))"
    using w1(2) by (simp split: sum.split)
qed

subsection \<open>Serving requests\<close>

text \<open>
  A request with the answer another leader would give, should this node not be the leader.
\<close>

datatype leader_request =
    ReqCreateNamespace "server_error + u64" NamespaceCreateRequest
  | ReqDeleteNamespace "server_error + u64" NamespaceDeleteRequest
  | ReqCreateTopic "server_error + u64" TopicCreateRequest
  | ReqDeleteTopic "server_error + u64" TopicDeleteRequest
  | ReqListTopics "server_error + u64 \<times> emq_Topic list" TopicListRequest
  | ReqCreateConsumerGroup "server_error + u64" ConsumerGroupCreateRequest
  | ReqDeleteConsumerGroup "server_error + u64" ConsumerGroupDeleteRequest
  | ReqListConsumerGroups "server_error + u64 \<times> emq_ConsumerGroup list" ConsumerGroupListRequest
  | ReqSegmentOpen "server_error + SegmentOpenResponse" SegmentOpenRequest
  | ReqSegmentClose "server_error + unit" SegmentCloseRequest
  | ReqSegmentRotate "server_error + SegmentOpenResponse" SegmentCloseRequest
  | ReqSegmentReplicaClose "server_error + unit" SegmentCloseRequest

definition state_after :: "'a reply \<Rightarrow> leader outcome" where
  "state_after m = and_then m (\<lambda>(_, w). Ret w)"

fun serve :: "raft_env \<Rightarrow> leader_request \<Rightarrow> leader \<Rightarrow> leader outcome" where
  "serve env (ReqCreateNamespace a r) w = state_after (Server_CreateNamespace env a r w)"
| "serve env (ReqDeleteNamespace a r) w = state_after (Server_DeleteNamespace env a r w)"
| "serve env (ReqCreateTopic a r) w = state_after (Server_CreateTopic env a r w)"
| "serve env (ReqDeleteTopic a r) w = state_after (Server_DeleteTopic env a r w)"
| "serve env (ReqListTopics a r) w = state_after (Server_ListTopics env a r w)"
| "serve env (ReqCreateConsumerGroup a r) w = state_after (Server_CreateConsumerGroup env a r w)"
| "serve env (ReqDeleteConsumerGroup a r) w = state_after (Server_DeleteConsumerGroup env a r w)"
| "serve env (ReqListConsumerGroups a r) w = state_after (Server_ListConsumerGroups env a r w)"
| "serve env (ReqSegmentOpen a r) w = state_after (Server_SegmentOpen env a r w)"
| "serve env (ReqSegmentClose a r) w = state_after (Server_SegmentClose env a r w)"
| "serve env (ReqSegmentRotate a r) w = state_after (Server_SegmentRotate env a r w)"
| "serve env (ReqSegmentReplicaClose a r) w = state_after (Server_SegmentReplicaClose env a r w)"

text \<open>
  What the leader relies on: the counter of segment IDs is not exhausted, a rotation does not commit
  offsets in a namespace that is gone, and a finished replica is reported while one is expected.
\<close>

fun acceptable :: "leader_request \<Rightarrow> leader \<Rightarrow> bool" where
  "acceptable (ReqCreateConsumerGroup a r) w \<longleftrightarrow> CurrentSegmentID (cluster w) \<noteq> - 1"
| "acceptable (ReqSegmentOpen a r) w \<longleftrightarrow> CurrentSegmentID (cluster w) \<noteq> - 1"
| "acceptable (ReqSegmentRotate a r) w \<longleftrightarrow> CurrentSegmentID (cluster w) \<noteq> - 1 \<and> commits_namespace_exists r (cluster w)"
| "acceptable (ReqSegmentReplicaClose a r) w \<longleftrightarrow> replica_expected r (cluster w)"
| "acceptable _ w \<longleftrightarrow> True"

lemma state_after_safe: "safe m \<Longrightarrow> \<exists>w'. state_after m = Ret w' \<and> service_inv (cluster w')"
  by (auto simp: safe_def state_after_def)

lemmas safe_handlers = safe_CreateNamespace safe_DeleteNamespace safe_CreateTopic safe_DeleteTopic safe_ListTopics
  safe_CreateConsumerGroup safe_DeleteConsumerGroup safe_ListConsumerGroups safe_SegmentOpen safe_SegmentClose
  safe_SegmentRotate safe_SegmentReplicaClose

lemma serve_safe:
  "service_inv (cluster w) \<Longrightarrow> acceptable r w \<Longrightarrow> \<exists>w'. serve env r w = Ret w' \<and> service_inv (cluster w')"
  by (cases r) (simp_all add: state_after_safe safe_handlers)

text \<open>The contract of a service: an acceptable request is served without a panic and keeps the invariant.\<close>

locale safe_service =
  fixes serve_request :: "'r \<Rightarrow> 's \<Rightarrow> 's outcome" and inv :: "'s \<Rightarrow> bool" and ok :: "'r \<Rightarrow> 's \<Rightarrow> bool"
  assumes request_safe: "inv s \<Longrightarrow> ok r s \<Longrightarrow> \<exists>s'. serve_request r s = Ret s' \<and> inv s'"
begin

lemma requests_safe: "inv s \<Longrightarrow> ok_log ok serve_request rs s \<Longrightarrow> \<exists>s'. fold_outcome serve_request rs s = Ret s' \<and> inv s'"
proof (induction rs arbitrary: s)
  case (Cons r rs)
  then obtain s1 where "serve_request r s = Ret s1" "inv s1" using request_safe [of s r] by auto
  then show ?case using Cons by simp
qed simp

text \<open>Whatever arrives, the requests before the first one that is not acceptable are served.\<close>

lemma requests_served:
  "inv s \<Longrightarrow> \<exists>k s'. k \<le> length rs \<and> fold_outcome serve_request (take k rs) s = Ret s' \<and> inv s' \<and> (k = length rs \<or> \<not> ok (rs ! k) s')"
proof (induction rs arbitrary: s)
  case (Cons r rs)
  show ?case
  proof (cases "ok r s")
    case True
    then obtain s1 where s1: "serve_request r s = Ret s1" "inv s1" using request_safe [OF Cons.prems] by blast
    from Cons.IH [OF s1(2)] obtain k s' where "k \<le> length rs" "fold_outcome serve_request (take k rs) s1 = Ret s'" "inv s'"
      "k = length rs \<or> \<not> ok (rs ! k) s'" by blast
    then show ?thesis using s1 by (intro exI [of _ "Suc k"] exI [of _ s']) simp
  qed (use Cons.prems in \<open>auto intro!: exI [of _ 0]\<close>)
qed simp

end

interpretation leader: safe_service "serve env" "\<lambda>w. service_inv (cluster w)" acceptable
  by unfold_locales (rule serve_safe)

end
