(* ===== verification/Leader_Properties.thy ===== *)
theory Leader_Properties
  imports Leader_Safety Routing_Properties
begin

text \<open>
  Properties of the requests that the leader serves: no panic and a well-typed state, what a client
  reads after it has created a topic or a consumer group, and the two requests that do panic.
\<close>

subsection \<open>A cluster for examples\<close>

definition demo_env :: raft_env where
  "demo_env = \<lparr>is_leader = True, leader_address = [], can_dial = True, barrier_ok = (\<lambda>_. True),
     apply_result = (\<lambda>n. if n = 9 then CommittedUnseen (of_nat n + 1) else Committed (of_nat n + 1)),
     clock = 50, random = 0, members = [], segment_size = (\<lambda>_ _ _. Inr 0)\<rparr>"

definition demo_leader :: leader where
  "demo_leader = \<lparr>cluster = empty_state\<lparr>Nodes := [\<lparr>node_ID = 7, Address = ''a'', node_State = ALIVE, LastSeenAlive = None\<rparr>,
     \<lparr>node_ID = 8, Address = ''b'', node_State = ALIVE, LastSeenAlive = None\<rparr>]\<rparr>, calls = 0\<rparr>"

definition demo_topic :: emq_Topic where
  "demo_topic = \<lparr>et_Namespace = ''shop'', et_Name = ''orders'', et_DefaultExchangeType = ''topic'',
     et_Shards = 1, et_ReplicationFactor = 0, et_Retention = 10\<rparr>"

definition demo_client_group :: emq_ConsumerGroup where
  "demo_client_group = \<lparr>ec_Namespace = ''shop'', ec_Name = ''billing'',
     ec_Bindings = [\<lparr>eb_TopicName = ''orders'', eb_ExchangeType = ''topic'', eb_By = ByRoutingKey ''a.#''\<rparr>], ec_Size = 0, ec_Since = 40\<rparr>"

definition demo_requests :: "leader_request list" where
  "demo_requests =
    [ReqCreateNamespace (Inr 0) \<lparr>nc_LeaderOnly = False, nc_Namespace = ''shop''\<rparr>,
     ReqCreateTopic (Inr 0) \<lparr>tc_LeaderOnly = False, tc_Topic = demo_topic\<rparr>,
     ReqCreateConsumerGroup (Inr 0) \<lparr>gc_LeaderOnly = False, gc_ConsumerGroup = demo_client_group\<rparr>,
     ReqSegmentOpen (Inr (0, 0)) \<lparr>so_LeaderOnly = False, so_NodeID = 7, so_Type = TOPIC, so_OwnerNamespace = ''shop'', so_OwnerName = ''orders''\<rparr>]"

lemma service_inv_empty: "wf_state s \<Longrightarrow> Namespaces s = [] \<Longrightarrow> OpenSegments s = [] \<Longrightarrow> service_inv s"
  by (simp add: service_inv_def sole_def typed_def abs_view_def klookup_def)

lemma demo_leader_inv [simp]: "service_inv (cluster demo_leader)"
proof (rule service_inv_empty)
  show "wf_state (cluster demo_leader)" by code_simp
qed (simp_all add: demo_leader_def empty_state_def)

lemma demo_acceptable: "ok_log acceptable (serve demo_env) demo_requests demo_leader"
  by code_simp

subsection \<open>Properties\<close>

lemma ok_log_nth:
  "ok_log ok step cs s \<Longrightarrow> fold_outcome step (take k cs) s = Ret s' \<Longrightarrow> k < length cs \<Longrightarrow> ok (cs ! k) s'"
proof (induction cs arbitrary: k s)
  case (Cons c cs)
  show ?case
  proof (cases k)
    case (Suc j)
    then obtain s1 where "step c s = Ret s1" "fold_outcome step (take j cs) s1 = Ret s'" using Cons.prems(2) by auto
    then show ?thesis using Cons.IH [of s1 j] Cons.prems Suc by simp
  qed (use Cons.prems in simp)
qed simp

text \<open>(C26) Types of the cluster state: from a state that has these types, whatever requests arrive, and whatever of their commands Raft commits, the leader serves them without a
  panic, either all of them or all those before a request of one of three kinds: one that needs a segment ID (for a consumer group, a segment or a
  rotation) when the counter of segment IDs is exhausted, a rotation with offset commits of a namespace that does not exist, and the report of a
  finished replica of a segment that has no replicating node left. The last two can panic, and nothing is said from such a
  request on. In the state reached names and IDs are unique, every topic has a known exchange type and at least one replica, every
  consumer group has a size and only bindings whose criterion fits their exchange type, and at most one open segment of offset commits.\<close>

theorem requests_keep_types:
  assumes "service_inv (cluster w)"
  shows "\<exists>k w'. k \<le> length rs \<and> fold_outcome (serve env) (take k rs) w = Ret w'
    \<and> (k = length rs \<or> \<not> acceptable (rs ! k) w') \<and> wf_state (cluster w')
    \<and> (\<forall>n t x. GetTopic (cluster w') n t = Some x \<longrightarrow> validExchangeTypes (DefaultExchangeType x) \<and> ReplicationFactor x > 0)
    \<and> (\<forall>n g x. GetConsumerGroup (cluster w') n g = Some x \<longrightarrow> group_Size x > 0 \<and> list_all typed_binding (Bindings x))
    \<and> (\<forall>n g. length (FindOpenSegmentsFor (cluster w') CONSUMER_GROUP_OFFSET_COMMITS n g) \<le> 1)"
proof -
  obtain k w' where w': "k \<le> length rs" "fold_outcome (serve env) (take k rs) w = Ret w'" "service_inv (cluster w')"
    "k = length rs \<or> \<not> acceptable (rs ! k) w'"
    using leader.requests_served [OF assms] by blast
  have "wf_state (cluster w')
    \<and> (\<forall>n t x. GetTopic (cluster w') n t = Some x \<longrightarrow> validExchangeTypes (DefaultExchangeType x) \<and> ReplicationFactor x > 0)
    \<and> (\<forall>n g x. GetConsumerGroup (cluster w') n g = Some x \<longrightarrow> group_Size x > 0 \<and> list_all typed_binding (Bindings x))
    \<and> (\<forall>n g. length (FindOpenSegmentsFor (cluster w') CONSUMER_GROUP_OFFSET_COMMITS n g) \<le> 1)"
    using service_invD [OF w'(3)] sole_open typed_states [OF w'(3)] by (fastforce simp: typed_topic_def typed_group_def)
  then show ?thesis using w' by blast
qed

theorem requests_keep_types_witness:
  "\<exists>w'. fold_outcome (serve demo_env) demo_requests demo_leader = Ret w' \<and> wf_state (cluster w') \<and> calls w' = 10
     \<and> length (OpenSegments (cluster w')) = 2"
proof -
  have "\<exists>w'. fold_outcome (serve demo_env) demo_requests demo_leader = Ret w' \<and> wf_state (cluster w')"
    using requests_keep_types [OF demo_leader_inv, of demo_requests demo_env] ok_log_nth [OF demo_acceptable]
    by (metis le_neq_implies_less take_all_iff order_refl)
  moreover have "case fold_outcome (serve demo_env) demo_requests demo_leader of Panic _ \<Rightarrow> False
    | Ret w' \<Rightarrow> calls w' = 10 \<and> length (OpenSegments (cluster w')) = 2" by code_simp
  ultimately show ?thesis by auto
qed


subsection \<open>What a handler did that returned a response\<close>

lemma name_errors_optional: "name_errors f s = [] \<Longrightarrow> optional_name_errors f' s = []"
  by (auto simp: name_errors_Nil optional_name_errors_def set_name_errors_def)

lemma name_errors_ne: "name_errors f s = [] \<Longrightarrow> s \<noteq> []"
  by (auto simp: name_errors_def)

lemma name_errors_any: "name_errors f s = [] \<longleftrightarrow> name_errors f' s = []"
  by (simp add: name_errors_Nil)

lemma reply_bind_Inr: "reply_bind m f = Ret (Inr b, w') \<longleftrightarrow> (\<exists>a w. m = Ret (Inr a, w) \<and> f a w = Ret (Inr b, w'))"
  by (cases m) (auto simp: reply_bind_def split: sum.splits)

lemma with_namespace_Inr:
  "with_namespace n body w = Ret (Inr b, w') \<longleftrightarrow> (\<exists>ns i. FindNamespace (cluster w) n = Some (ns, i) \<and> body ns w = Ret (Inr b, w'))"
  by (auto simp: with_namespace_def split: option.split)

lemma validated_Inr: "validated errs body w = Ret (Inr b, w') \<longleftrightarrow> errs = [] \<and> body w = Ret (Inr b, w')"
  by (simp add: validated_def)

lemma on_leader_leads: "is_leader env \<Longrightarrow> on_leader env lo answer body w = body w"
  by (simp add: on_leader_def)

lemmas handler_Inr = reply_bind_Inr with_namespace_Inr validated_Inr on_leader_leads

lemma created_topic:
  assumes "is_leader env" "Server_CreateTopic env a r w = Ret (Inr i, w')"
  obtains w1 where "TopicCreateRequest_Validate r = []" "cluster w1 = cluster w"
    "FindNamespace (cluster w) (et_Namespace (tc_Topic r)) \<noteq> None"
    "Server_Apply env (CreateTopic (et_Namespace (tc_Topic r)) (cluster_topic (tc_Topic r))) w1 = Ret (Inr i, w')"
proof -
  let ?n = "et_Namespace (tc_Topic r)"
  obtain u w1 ns k where *: "TopicCreateRequest_Validate r = []" "beginTransaction env w = Ret (Inr u, w1)" "FindNamespace (cluster w1) ?n = Some (ns, k)"
    and "(case GetTopic (cluster w1) ?n (et_Name (tc_Topic r)) of
       Some topic \<Rightarrow>
         if et_DefaultExchangeType (tc_Topic r) \<noteq> DefaultExchangeType topic
         then Ret (Inl (TypeCannotChange (et_DefaultExchangeType (tc_Topic r)) (DefaultExchangeType topic)), w1)
         else Server_Apply env (CreateTopic ?n (cluster_topic (tc_Topic r))) w1
     | None \<Rightarrow> Server_Apply env (CreateTopic ?n (cluster_topic (tc_Topic r))) w1) = Ret (Inr i, w')"
    using assms by (auto simp: Server_CreateTopic_def handler_Inr)
  then have "Server_Apply env (CreateTopic ?n (cluster_topic (tc_Topic r))) w1 = Ret (Inr i, w')"
    by (cases "GetTopic (cluster w1) ?n (et_Name (tc_Topic r))") (auto split: if_splits)
  then show ?thesis by (intro that [of w1]) (use * beginTransaction_cluster(1) [OF *(2)] in simp_all)
qed

lemma Server_Apply_Inr:
  assumes "service_inv (cluster w)" "runs c (cluster w)" "Server_Apply env c w = Ret (Inr i, w')"
  shows "service_inv (cluster w')" "abs_view (cluster w') = spec c (abs_view (cluster w))" "Index (cluster w') = i"
  using assms(3) by (cases rule: Server_Apply_cases [OF assms(1,2), of env]; simp)+

lemma ListTopics_view:
  "FindNamespace s n = Some (ns, i) \<Longrightarrow> GetTopic s n t = Some x \<Longrightarrow> t \<noteq> [] \<Longrightarrow> ListTopics ns t = [x]"
  by (auto simp: GetTopic_def ListTopics_def)

text \<open>A topic that the leader has created is listed: the list of topics by that name gives back the request, with three replicas where
  the client asked for none, and with the index the creation was committed at.\<close>

theorem created_topic_is_listed:
  assumes "is_leader env" and "service_inv (cluster w)" and "Server_CreateTopic env a r w = Ret (Inr i, w')"
  shows "Server_ListTopics env b \<lparr>tl_LeaderOnly = lo, tl_Namespace = et_Namespace (tc_Topic r), tl_Name = et_Name (tc_Topic r)\<rparr> w' =
    Ret (Inr (i, [(tc_Topic r)\<lparr>et_ReplicationFactor := if et_ReplicationFactor (tc_Topic r) = 0 then 3 else et_ReplicationFactor (tc_Topic r)\<rparr>]), w')"
proof -
  let ?n = "et_Namespace (tc_Topic r)" and ?t = "et_Name (tc_Topic r)"
  from created_topic [OF assms(1,3)] obtain w1 where
    v: "TopicCreateRequest_Validate r = []" and w1: "cluster w1 = cluster w" and ns: "FindNamespace (cluster w) ?n \<noteq> None"
    and ap: "Server_Apply env (CreateTopic ?n (cluster_topic (tc_Topic r))) w1 = Ret (Inr i, w')" .
  have names: "name_errors ''namespace'' ?n = []" "?t \<noteq> []" "optional_name_errors ''topic name'' ?t = []"
    using v name_errors_ne name_errors_optional by (auto simp: TopicCreateRequest_Validate_def)
  have "runs (CreateTopic ?n (cluster_topic (tc_Topic r))) (cluster w1)"
    using ns typed_cluster_topic [OF v] by (simp add: runs_def w1)
  note after = Server_Apply_Inr [OF assms(2) [folded w1] this ap]
  have t: "GetTopic (cluster w') ?n ?t = Some (cluster_topic (tc_Topic r))"
    using ns by (auto simp: GetTopic_view after(2) on_ns_def w1 FindNamespace_view cluster_topic_def)
  then obtain x k where x: "FindNamespace (cluster w') ?n = Some (x, k)" by (auto simp: GetTopic_def split: option.splits)
  then have "ns_Name x = ?n" using FindNamespace_Some by blast
  then show ?thesis using x ListTopics_view [OF x t names(2)] names assms(1) after(3)
    by (simp add: Server_ListTopics_def on_leader_leads validated_def TopicListRequest_Validate_def with_namespace_def
        client_topic_def cluster_topic_def defaultReplicationFactor_def)
qed


text \<open>What the cluster keeps of a binding: a fanout binding has no criterion.\<close>

definition stored_binding :: "emq_Binding \<Rightarrow> emq_Binding" where
  "stored_binding b = (if eb_ExchangeType b = ExchangeTypeFanout then b\<lparr>eb_By := ByNone\<rparr> else b)"

lemma convert_stored: "cluster_binding s n b = Inr c \<Longrightarrow> convertClusterBinding c = stored_binding b"
  by (auto simp: cluster_binding_def convertClusterBinding_def stored_binding_def Let_def exchange_types_differ exchange_types_differ [symmetric]
      split: if_splits BindingBy.splits)

lemma converts_stored: "cluster_bindings s n bs = Inr cs \<Longrightarrow> map convertClusterBinding cs = map stored_binding bs"
  by (induction s n bs arbitrary: cs rule: cluster_bindings.induct) (auto split: sum.splits dest: convert_stored)

lemma created_group:
  assumes "is_leader env" "Server_CreateConsumerGroup env a r w = Ret (Inr i, w')"
  obtains w1 ns k bs index w2 where "ConsumerGroupCreateRequest_Validate r = []" "cluster w1 = cluster w"
    "FindNamespace (cluster w) (ec_Namespace (gc_ConsumerGroup r)) = Some (ns, k)"
    "cluster_bindings (cluster w) (ec_Namespace (gc_ConsumerGroup r)) (ec_Bindings (gc_ConsumerGroup r)) = Inr bs"
    "Server_Apply env (CreateConsumerGroup (ec_Namespace (gc_ConsumerGroup r))
       (cluster_group env (map_option fst (FindConsumerGroup ns (ec_Name (gc_ConsumerGroup r)))) (gc_ConsumerGroup r) bs)) w1 = Ret (Inr index, w2)"
    "reconcile_created env (ec_Namespace (gc_ConsumerGroup r)) (ec_Name (gc_ConsumerGroup r)) index w2 = Ret (Inr i, w')"
proof -
  let ?n = "ec_Namespace (gc_ConsumerGroup r)" and ?bs = "ec_Bindings (gc_ConsumerGroup r)"
  obtain u w1 ns k where *: "ConsumerGroupCreateRequest_Validate r = []" "beginTransaction env w = Ret (Inr u, w1)"
    "FindNamespace (cluster w1) ?n = Some (ns, k)"
    and b: "(case cluster_bindings (cluster w1) ?n ?bs of
           Inl e \<Rightarrow> Ret (Inl e, w1)
         | Inr bs \<Rightarrow>
             reply_bind (Server_Apply env (CreateConsumerGroup ?n
               (cluster_group env (map_option fst (FindConsumerGroup ns (ec_Name (gc_ConsumerGroup r)))) (gc_ConsumerGroup r) bs)) w1)
               (reconcile_created env ?n (ec_Name (gc_ConsumerGroup r)))) = Ret (Inr i, w')"
    using assms by (auto simp: Server_CreateConsumerGroup_def Let_def handler_Inr)
  then obtain bs where bs: "cluster_bindings (cluster w1) ?n ?bs = Inr bs" by (auto split: sum.splits)
  then show ?thesis using that [of w1 ns k bs] b * beginTransaction_cluster(1) [OF *(2)] by (auto simp: reply_bind_Inr)
qed

text \<open>(C27) A consumer group that the leader has created is listed, after the reconciliation that follows its creation, with the bindings of the
  request (a fanout binding without its criterion), its size or the default size, and the start time of the request; without
  one a new group starts now and an existing group keeps its start.\<close>

theorem created_group_is_listed:
  assumes "is_leader env" and "service_inv (cluster w)" and "CurrentSegmentID (cluster w) \<noteq> - 1"
    and "Server_CreateConsumerGroup env a r w = Ret (Inr i, w')"
  shows "Server_ListConsumerGroups env b
      \<lparr>gl_LeaderOnly = lo, gl_Namespace = ec_Namespace (gc_ConsumerGroup r), gl_Name = ec_Name (gc_ConsumerGroup r)\<rparr> w' =
    Ret (Inr (Index (cluster w'), [\<lparr>ec_Namespace = ec_Namespace (gc_ConsumerGroup r), ec_Name = ec_Name (gc_ConsumerGroup r),
      ec_Bindings = map stored_binding (ec_Bindings (gc_ConsumerGroup r)),
      ec_Size = (if ec_Size (gc_ConsumerGroup r) = 0 then defaultConsumerGroupSize else ec_Size (gc_ConsumerGroup r)),
      ec_Since = (if IsZero (ec_Since (gc_ConsumerGroup r))
        then (case GetConsumerGroup (cluster w) (ec_Namespace (gc_ConsumerGroup r)) (ec_Name (gc_ConsumerGroup r)) of
                None \<Rightarrow> clock env | Some cg \<Rightarrow> Since cg)
        else ec_Since (gc_ConsumerGroup r))\<rparr>]), w')"
proof -
  let ?n = "ec_Namespace (gc_ConsumerGroup r)" and ?g = "ec_Name (gc_ConsumerGroup r)"
  from created_group [OF assms(1,4)] obtain w1 ns k bs index w2 where
    v: "ConsumerGroupCreateRequest_Validate r = []" and w1: "cluster w1 = cluster w" and ns: "FindNamespace (cluster w) ?n = Some (ns, k)"
    and bs: "cluster_bindings (cluster w) ?n (ec_Bindings (gc_ConsumerGroup r)) = Inr bs"
    and ap: "Server_Apply env (CreateConsumerGroup ?n
       (cluster_group env (map_option fst (FindConsumerGroup ns ?g)) (gc_ConsumerGroup r) bs)) w1 = Ret (Inr index, w2)"
    and rec: "reconcile_created env ?n ?g index w2 = Ret (Inr i, w')" .
  define cg where "cg = cluster_group env (map_option fst (FindConsumerGroup ns ?g)) (gc_ConsumerGroup r) bs"
  have cg: "typed_group cg" "group_Name cg = ?g" using typed_cluster_group [OF bs] by (simp_all add: cg_def cluster_group_def)
  have inv1: "service_inv (cluster w1)" and some: "FindNamespace (cluster w1) ?n \<noteq> None" using assms(2) w1 ns by simp_all
  note made = group_created [OF inv1 some cg(1) ap [folded cg_def]]
  have inv2: "service_inv (cluster w2)"
    using Server_Apply_Inr(1) [OF inv1 _ ap [folded cg_def]] some cg(1) by (simp add: runs_def)
  have room2: "CurrentSegmentID (cluster w2) \<noteq> - 1" using made(2) assms(3) w1 by simp
  have "core_group (abs_view (cluster w')) ?n ?g = Some (cg\<lparr>OffsetCommits := []\<rparr>)"
    using rec by (cases rule: reconcile_created_cases [OF inv2 room2 made(1), of env index]) (auto simp: cg(2))
  then obtain ns' i' cg' j where f: "FindNamespace (cluster w') ?n = Some (ns', i')" "ns_Name ns' = ?n"
    "FindConsumerGroup ns' ?g = Some (cg', j)" "cg'\<lparr>OffsetCommits := []\<rparr> = cg\<lparr>OffsetCommits := []\<rparr>" by (rule core_group_found)
  have names: "name_errors ''namespace'' ?n = []" "?g \<noteq> []" "optional_name_errors ''consumer group name'' ?g = []"
    using v name_errors_ne name_errors_optional by (auto simp: ConsumerGroupCreateRequest_Validate_def Let_def)
  have "client_group ?n cg' = client_group ?n cg" using f(4) by (cases cg'; cases cg) (simp add: client_group_def)
  then show ?thesis using f names assms(1) ns converts_stored [OF bs]
    by (auto simp: Server_ListConsumerGroups_def on_leader_leads validated_def ConsumerGroupListRequest_Validate_def with_namespace_def
        ListConsumerGroups_def client_group_def cg_def cluster_group_def GetConsumerGroup_def split: option.split)
qed

definition demo_shop :: leader where
  "demo_shop = \<lparr>cluster = (cluster demo_leader)\<lparr>Namespaces := [\<lparr>ns_Name = ''shop'', Topics = [cluster_topic demo_topic], ConsumerGroups = []\<rparr>]\<rparr>, calls = 0\<rparr>"

lemma demo_shop_inv [simp]: "service_inv (cluster demo_shop)"
proof -
  have "wf_state (cluster demo_shop)" by code_simp
  moreover have "typed_topic (cluster_topic demo_topic)" by code_simp
  moreover have "Namespaces (cluster demo_shop) = [\<lparr>ns_Name = ''shop'', Topics = [cluster_topic demo_topic], ConsumerGroups = []\<rparr>]"
    "OpenSegments (cluster demo_shop) = []" by (simp_all add: demo_shop_def demo_leader_def empty_state_def)
  ultimately show ?thesis
    by (auto simp: service_inv_def sole_def typed_def abs_view_def abs_ns_def klookup_def split: if_splits)
qed

theorem created_topic_is_listed_witness:
  "\<exists>w'. Server_CreateTopic demo_env (Inr 0) \<lparr>tc_LeaderOnly = False, tc_Topic = demo_topic\<rparr> demo_shop = Ret (Inr 2, w') \<and>
     Server_ListTopics demo_env (Inr (0, [])) \<lparr>tl_LeaderOnly = False, tl_Namespace = ''shop'', tl_Name = ''orders''\<rparr> w' =
       Ret (Inr (2, [demo_topic\<lparr>et_ReplicationFactor := 3\<rparr>]), w')"
proof -
  have "case Server_CreateTopic demo_env (Inr 0) \<lparr>tc_LeaderOnly = False, tc_Topic = demo_topic\<rparr> demo_shop of
      Ret (Inr i, _) \<Rightarrow> i = 2 | _ \<Rightarrow> False" by code_simp
  then obtain w' where w': "Server_CreateTopic demo_env (Inr 0) \<lparr>tc_LeaderOnly = False, tc_Topic = demo_topic\<rparr> demo_shop = Ret (Inr 2, w')"
    by (auto split: outcome.splits sum.splits)
  have "is_leader demo_env" by (simp add: demo_env_def)
  from created_topic_is_listed [OF this demo_shop_inv w', of "Inr (0, [])" False] w' show ?thesis
    by (auto simp: demo_topic_def)
qed

theorem created_group_is_listed_witness:
  "\<exists>w'. Server_CreateConsumerGroup demo_env (Inr 0) \<lparr>gc_LeaderOnly = False, gc_ConsumerGroup = demo_client_group\<rparr> demo_shop = Ret (Inr 2, w') \<and>
     Server_ListConsumerGroups demo_env (Inr (0, [])) \<lparr>gl_LeaderOnly = False, gl_Namespace = ''shop'', gl_Name = ''billing''\<rparr> w' =
       Ret (Inr (Index (cluster w'), [demo_client_group\<lparr>ec_Size := 10922\<rparr>]), w')"
proof -
  have "case Server_CreateConsumerGroup demo_env (Inr 0) \<lparr>gc_LeaderOnly = False, gc_ConsumerGroup = demo_client_group\<rparr> demo_shop of
      Ret (Inr i, _) \<Rightarrow> i = 2 | _ \<Rightarrow> False" by code_simp
  then obtain w' where w': "Server_CreateConsumerGroup demo_env (Inr 0) \<lparr>gc_LeaderOnly = False, gc_ConsumerGroup = demo_client_group\<rparr> demo_shop
      = Ret (Inr 2, w')"
    by (auto split: outcome.splits sum.splits)
  have "is_leader demo_env" "CurrentSegmentID (cluster demo_shop) \<noteq> - 1" "map stored_binding (ec_Bindings demo_client_group) = ec_Bindings demo_client_group"
    "\<not> IsZero (ec_Since demo_client_group)" by code_simp+
  with created_group_is_listed [OF _ demo_shop_inv _ w', of "Inr (0, [])" False] w' show ?thesis
    by (auto simp: demo_client_group_def defaultConsumerGroupSize_def)
qed

lemma safe_not_Panic: "safe m \<Longrightarrow> m \<noteq> Panic x"
  by (auto simp: safe_def)

lemma transaction_begun:
  "is_leader env \<Longrightarrow> barrier_ok env (calls w) \<Longrightarrow>
   on_leader env lo answer (\<lambda>w. reply_bind (beginTransaction env w) (\<lambda>_. body)) w = body (w\<lparr>calls := calls w + 1\<rparr>)"
  by (simp add: on_leader_def beginTransaction_def Barrier_def)

lemma replica_close_panics:
  assumes "is_leader env" "barrier_ok env (calls w)" "\<not> replica_expected r (cluster w)"
  shows "Server_SegmentReplicaClose env a r w = Panic negative_capacity"
  using assms by (auto simp: Server_SegmentReplicaClose_def transaction_begun replica_expected_def split: option.splits)

lemma rotate_panics:
  assumes "is_leader env" "barrier_ok env (calls w)" "apply_result env (calls w + 1) \<noteq> Rejected" "\<not> commits_namespace_exists r (cluster w)"
  shows "\<exists>m. Server_SegmentRotate env a r w = Panic m"
proof -
  from assms(4) obtain n g cs where u: "sr_OffsetCommitsUpdate r = Some (n, g, cs)" "FindNamespace (cluster w) n = None"
    by (auto simp: commits_namespace_exists_def simp del: not_None_eq split: option.splits)
  then obtain m where "apply_command (UpdateConsumerGroupOffsetCommits n g cs) (cluster w) = Panic m"
    using apply_command_panics [of "UpdateConsumerGroupOffsetCommits n g cs" "cluster w"] by auto
  then show ?thesis using assms(1-3) u(1)
    by (cases "apply_result env (Suc (calls w))") (simp_all add: Server_SegmentRotate_def transaction_begun Server_Apply_def Do_def Let_def)
qed

text \<open>(C28) Two requests of nodes make the leader panic: the report of a finished replica of a segment that has no replicating node left,
  as when the report is repeated, and a rotation with offset commits of a namespace that does not exist. No other such
  request does.\<close>

theorem segment_requests_panic_iff:
  assumes "is_leader env" and "service_inv (cluster w)" and "CurrentSegmentID (cluster w) \<noteq> - 1"
    and "barrier_ok env (calls w)" and "apply_result env (calls w + 1) \<noteq> Rejected"
  shows "((\<exists>m. Server_SegmentReplicaClose env a r w = Panic m) \<longleftrightarrow>
      (\<exists>g. GetClosedSegment (cluster w) (sr_SegmentID r) = Some g \<and> sr_Size r = seg_Size g \<and> sr_Sha1 r = Sha1 g \<and> ReplicatingNodeIDs (seg_Nodes g) = []))
    \<and> ((\<exists>m. Server_SegmentRotate env b r w = Panic m) \<longleftrightarrow>
      (\<exists>n g cs. sr_OffsetCommitsUpdate r = Some (n, g, cs) \<and> FindNamespace (cluster w) n = None))"
proof
  have "(\<exists>m. Server_SegmentReplicaClose env a r w = Panic m) \<longleftrightarrow> \<not> replica_expected r (cluster w)"
    using replica_close_panics [OF assms(1,4)] safe_SegmentReplicaClose [OF assms(2)] safe_not_Panic by blast
  then show "(\<exists>m. Server_SegmentReplicaClose env a r w = Panic m) \<longleftrightarrow>
      (\<exists>g. GetClosedSegment (cluster w) (sr_SegmentID r) = Some g \<and> sr_Size r = seg_Size g \<and> sr_Sha1 r = Sha1 g \<and> ReplicatingNodeIDs (seg_Nodes g) = [])"
    by (auto simp: replica_expected_def split: option.split)
  have "(\<exists>m. Server_SegmentRotate env b r w = Panic m) \<longleftrightarrow> \<not> commits_namespace_exists r (cluster w)"
    using rotate_panics [OF assms(1,4,5)] safe_SegmentRotate [OF assms(2,3)] safe_not_Panic by blast
  then show "(\<exists>m. Server_SegmentRotate env b r w = Panic m) \<longleftrightarrow>
      (\<exists>n g cs. sr_OffsetCommitsUpdate r = Some (n, g, cs) \<and> FindNamespace (cluster w) n = None)"
    by (auto simp: commits_namespace_exists_def simp del: not_None_eq split: option.split)
qed

text \<open>A report that arrives twice, after the last replica has finished.\<close>

definition demo_replicated :: leader where
  "demo_replicated = demo_leader\<lparr>cluster := (cluster demo_leader)\<lparr>CurrentSegmentID := 1, ClosedSegments :=
     [\<lparr>seg_ID = 1, seg_Type = TOPIC, OwnerNamespace = ''shop'', OwnerName = ''orders'', Generation = 1, Shard = 1,
       CreatedAt = 1, ClosedAt = 2, seg_Nodes = \<lparr>PrimaryNodeID = 0, DoneNodeIDs = [7, 8], ReplicatingNodeIDs = []\<rparr>, seg_Size = 5, Sha1 = [1]\<rparr>]\<rparr>\<rparr>"

definition demo_report :: SegmentCloseRequest where
  "demo_report = \<lparr>sr_LeaderOnly = False, sr_NodeID = 8, sr_SegmentID = 1, sr_Size = 5, sr_Sha1 = [1], sr_OffsetCommitsUpdate = Some (''gone'', ''g'', [])\<rparr>"

theorem segment_requests_panic_iff_witness:
  "(\<exists>m. Server_SegmentReplicaClose demo_env (Inr ()) demo_report demo_replicated = Panic m) \<and>
   (\<exists>m. Server_SegmentRotate demo_env (Inr (0, 0)) demo_report demo_replicated = Panic m)"
proof -
  have h: "is_leader demo_env" "CurrentSegmentID (cluster demo_replicated) \<noteq> - 1" "barrier_ok demo_env (calls demo_replicated)"
    "apply_result demo_env (calls demo_replicated + 1) \<noteq> Rejected" by code_simp+
  have "wf_state (cluster demo_replicated)" by code_simp
  then have i: "service_inv (cluster demo_replicated)"
    by (rule service_inv_empty) (simp_all add: demo_replicated_def demo_leader_def empty_state_def)
  have "case GetClosedSegment (cluster demo_replicated) 1 of None \<Rightarrow> False
    | Some g \<Rightarrow> 5 = seg_Size g \<and> [1] = Sha1 g \<and> ReplicatingNodeIDs (seg_Nodes g) = []"
    "FindNamespace (cluster demo_replicated) ''gone'' = None" by code_simp+
  then show ?thesis using segment_requests_panic_iff [OF h(1) i h(2-4), of _ demo_report]
    by (auto simp: demo_report_def split: option.splits)
qed


end
