(* ===== verification/Segment_Service_Properties.thy ===== *)
theory Segment_Service_Properties
  imports Leader_Properties Reconciler_Properties
begin

text \<open>
  Properties of the opening of segments: where the replicas of a new segment go, that the shards of
  a generation are not given twice, what the answer to a node stands for, and the rotation of a segment.
\<close>

subsection \<open>Replicas\<close>

lemma good_choice_bump:
  assumes "distinct cands" "k < length cands"
  shows "good_choice n (bump (cands ! k) cnt) (remove_at k cands) added \<longleftrightarrow> good_choice n cnt (remove_at k cands) added"
proof -
  have *: "bump (cands ! k) cnt a = cnt a" if "a \<in> set (remove_at k cands)" for a
    using that set_remove_at [OF assms] by (simp add: bump_def)
  have "(\<forall>a \<in> set added. \<forall>c \<in> set (remove_at k cands) - set added. bump (cands ! k) cnt a \<le> bump (cands ! k) cnt c) \<longleftrightarrow>
      (\<forall>a \<in> set added. \<forall>c \<in> set (remove_at k cands) - set added. cnt a \<le> cnt c)" if "set added \<subseteq> set (remove_at k cands)"
    using that by (intro ball_cong refl) (simp add: * subset_iff)
  then show ?thesis unfolding good_choice_def by blast
qed

lemma pick_replicas_good:
  assumes "distinct cands" and "length repl + length cands < 2 ^ 32"
  shows "\<exists>added. pick_replicas limit cnt cands repl = repl @ added \<and> good_choice (unat limit - length repl) cnt cands added"
  using assms
proof (induction limit cnt cands repl rule: pick_replicas.induct)
  case (1 limit cnt cands repl)
  have lt: "(of_nat (length repl) :: u32) < limit \<longleftrightarrow> length repl < unat limit"
    using 1(3) by (intro of_nat_less_u32) simp
  show ?case
  proof (cases "cands \<noteq> [] \<and> length repl < unat limit")
    case True
    then obtain k where k: "least_candidate cnt cands 0 None cands = Some k" "k < length cands"
        "\<forall>c \<in> set cands. cnt (cands ! k) \<le> cnt c" using least_candidate_min by blast
    obtain added where "pick_replicas limit cnt (remove_at k cands) (repl @ [cands ! k]) = (repl @ [cands ! k]) @ added"
      "good_choice (unat limit - length repl - 1) cnt (remove_at k cands) added"
      using 1(1) [OF _ k(1)] True lt 1(2,3) k(2) distinct_remove_at [of id cands k] by auto
    then show ?thesis using good_choice_step [OF 1(2) k(2,3)] good_choice_bump [OF 1(2) k(2)] True lt k(1)
      by (intro exI [of _ "cands ! k # added"]) (subst pick_replicas.simps, auto)
  qed (use lt in \<open>subst pick_replicas.simps, auto simp: good_choice_def\<close>)
qed

text \<open>The alive nodes other than the primary.\<close>

definition alive_others :: "ClusterState \<Rightarrow> u64 \<Rightarrow> u64 list" where
  "alive_others s i = map node_ID (filter (\<lambda>m. node_ID m \<noteq> i \<and> node_State m = ALIVE) (Nodes s))"

text \<open>(C29) Replicas of a new segment: the leader picks distinct alive nodes other than the primary, as many as the replication
  factor asks for or there are, and the least loaded ones: no node left out has fewer segments than one picked.\<close>

theorem new_segment_replicas:
  assumes "wf_state s" and "length (Nodes s) < 2 ^ 32" and "rf > 0"
  shows "distinct (replicas_for s i rf) \<and> set (replicas_for s i rf) \<subseteq> set (alive_others s i)
    \<and> length (replicas_for s i rf) = min (length (alive_others s i)) (unat rf - 1)
    \<and> (\<forall>a b. a \<in> set (replicas_for s i rf) \<and> b \<in> set (alive_others s i) - set (replicas_for s i rf) \<longrightarrow>
         CountSegmentsPerNode s a \<le> CountSegmentsPerNode s b)"
proof (cases "rf > 1")
  case True
  have "distinct (alive_others s i)" "length (alive_others s i) \<le> length (Nodes s)"
    using wf_idsD(2) [OF wf_stateD(7) [OF assms(1)]] by (auto simp: alive_others_def distinct_map_filter)
  then have "good_choice (unat (rf - 1)) (CountSegmentsPerNode s) (alive_others s i) (replicas_for s i rf)"
    using pick_replicas_good [of "alive_others s i" "[]" "rf - 1" "CountSegmentsPerNode s"] assms(2) True
    unfolding replicas_for_def alive_others_def [symmetric] by simp
  moreover have "unat (rf - 1) = unat rf - 1" using assms(3) by (intro unat_u32_minus_1) auto
  ultimately show ?thesis by (auto simp: good_choice_def)
next
  case False
  then have "unat rf \<le> 1" by (simp add: word_less_nat_alt)
  then show ?thesis using False by (simp add: replicas_for_def)
qed

theorem new_segment_replicas_witness:
  "distinct (replicas_for (cluster demo_leader) 7 3) \<and> set (replicas_for (cluster demo_leader) 7 3) \<subseteq> set (alive_others (cluster demo_leader) 7)
    \<and> length (replicas_for (cluster demo_leader) 7 3) = 1"
proof -
  have w: "wf_state (cluster demo_leader)" using demo_leader_inv by (rule service_invD)
  have n: "length (Nodes (cluster demo_leader)) < 2 ^ 32" by (simp add: demo_leader_def)
  have a: "length (alive_others (cluster demo_leader) 7) = 1" by code_simp
  show ?thesis using new_segment_replicas [OF w n, of 3 7] a by simp
qed


subsection \<open>Generations and shards\<close>

lemma latest_generation_spec:
  assumes "\<forall>a \<in> set found. Generation a = g0" and "latest_generation xs g0 found = (g, gs)"
  shows "g0 \<le> g \<and> (\<forall>x \<in> set xs. Generation x \<le> g) \<and> (g = g0 \<or> g \<in> Generation ` set xs)
    \<and> gs = filter (\<lambda>x. Generation x = g) (found @ xs)"
  using assms
proof (induction xs arbitrary: g0 found)
  case Nil
  then show ?case by (auto simp: filter_id_conv)
next
  case (Cons x xs)
  show ?case
  proof (cases "Generation x > g0")
    case True
    then have "latest_generation xs (Generation x) [x] = (g, gs)" using Cons.prems(2) by simp
    then have IH: "Generation x \<le> g" "\<forall>y \<in> set xs. Generation y \<le> g" "g = Generation x \<or> g \<in> Generation ` set xs"
      "gs = filter (\<lambda>y. Generation y = g) (x # xs)"
      using Cons.IH [of "[x]" "Generation x"] by simp_all
    have "g0 < g" using True IH(1) by (rule less_le_trans)
    then have "g0 \<noteq> g" by (rule less_imp_neq)
    then have "filter (\<lambda>y. Generation y = g) found = []" using Cons.prems(1) by (simp add: filter_empty_conv)
    then show ?thesis using IH \<open>g0 < g\<close> by (simp add: less_imp_le)
  next
    case False
    define found' where "found' = (if Generation x = g0 then found @ [x] else found)"
    have "latest_generation xs g0 found' = (g, gs)" using False Cons.prems(2) by (simp add: found'_def)
    moreover have "\<forall>a \<in> set found'. Generation a = g0" using Cons.prems(1) by (simp add: found'_def)
    ultimately have IH: "g0 \<le> g" "\<forall>y \<in> set xs. Generation y \<le> g" "g = g0 \<or> g \<in> Generation ` set xs"
      "gs = filter (\<lambda>y. Generation y = g) (found' @ xs)"
      using Cons.IH [of found' g0] by blast+
    have "Generation x \<le> g0" using False by (simp add: not_less)
    then have "Generation x \<le> g" "Generation x = g \<Longrightarrow> Generation x = g0" using IH(1) by (rule order_trans) (metis IH(1) \<open>Generation x \<le> g0\<close> antisym)
    then have "gs = filter (\<lambda>y. Generation y = g) (found @ x # xs)" unfolding IH(4) found'_def by auto
    then show ?thesis using IH \<open>Generation x \<le> g\<close> by auto
  qed
qed

lemma first_free_shard_free:
  assumes "unat i + fuel = Suc (unat shards)" and "i \<le> j" "j \<le> shards" "\<forall>g \<in> set gs. Shard g \<noteq> j"
  shows "i \<le> first_free_shard fuel i shards gs \<and> first_free_shard fuel i shards gs \<le> shards \<and>
    (\<forall>g \<in> set gs. Shard g \<noteq> first_free_shard fuel i shards gs)"
  using assms
proof (induction fuel i shards gs rule: first_free_shard.induct)
  case (1 i shards gs)
  then show ?case by (auto simp: word_le_nat_alt)
next
  case (2 fuel i shards gs)
  show ?case
  proof (cases "\<exists>g \<in> set gs. Shard g = i")
    case True
    then have "i < j" using 2(3,5) by (metis order_le_less)
    then have j: "i + 1 \<le> j" by (rule inc_le)
    have "i \<noteq> - 1" using \<open>i < j\<close> by (metis word_order.extremum_strict)
    then have suc: "unat (i + 1) = Suc (unat i)" by (metis add.commute eq_neg_iff_add_eq_0 unatSuc)
    have up: "i \<le> shards" "list_ex (\<lambda>g. Shard g = i) gs" using 2(3,4) True by (auto simp: list_ex_iff)
    have "unat (i + 1) + fuel = Suc (unat shards)" using suc 2(2) by simp
    note IH = 2(1) [OF up this j 2(4,5)]
    have "i \<le> first_free_shard fuel (i + 1) shards gs"
      using IH suc by (simp add: word_le_nat_alt)
    then show ?thesis using IH up by simp
  next
    case False
    then show ?thesis using 2(2-5) by (auto simp: list_ex_iff)
  qed
qed

lemma free_shard_exists:
  assumes "length gs < unat (shards :: u32)"
  shows "\<exists>j. 1 \<le> j \<and> j \<le> shards \<and> (\<forall>g \<in> set gs. Shard g \<noteq> j)"
proof -
  have "card ((\<lambda>g. unat (Shard g)) ` set gs) < card {1..unat shards}"
    using card_image_le [of "set gs" "\<lambda>g. unat (Shard g)"] card_length [of gs] assms by simp
  then obtain m where m: "m \<in> {1..unat shards}" "m \<notin> (\<lambda>g. unat (Shard g)) ` set gs"
    using card_mono [of "(\<lambda>g. unat (Shard g)) ` set gs" "{1..unat shards}"] by (meson List.finite_set finite_imageI linorder_not_less subsetI)
  have "unat (of_nat m :: u32) = m" using m(1) unsigned_less [of shards, where 'a = nat] by (intro unat_of_nat_u32) simp
  moreover from this have "Shard g \<noteq> of_nat m" if "g \<in> set gs" for g using m(2) that by (metis imageI)
  ultimately show ?thesis using m(1) by (intro exI [of _ "of_nat m"]) (auto simp: word_le_nat_alt)
qed

text \<open>(C30) A new segment never takes the place of another one: for a topic with a limited number of shards, the generation
  and shard chosen for a node are within the limit, no other segment of the owner, open or closed, has both of them, and the
  node holds no other segment of that generation, neither as its primary nor as a finished replica.\<close>

theorem shard_not_given_twice:
  assumes "shards > 0" and "length (ClosedSegments s @ OpenSegments s) < 2 ^ 32"
    and "list_all (\<lambda>g. Generation g \<noteq> - 1) (ClosedSegments s @ OpenSegments s)"
    and "generation_and_shard s node t n name shards = (g, h)"
  shows "1 \<le> h \<and> h \<le> shards \<and> (\<forall>x. x \<in> set (OpenSegments s) \<union> set (ClosedSegments s) \<and> owned_by t n name x \<and> Generation x = g \<longrightarrow>
    Shard x \<noteq> h \<and> PrimaryNodeID (seg_Nodes x) \<noteq> node \<and> node \<notin> set (DoneNodeIDs (seg_Nodes x)))"
proof -
  let ?own = "filter (owned_by t n name) (ClosedSegments s @ OpenSegments s)"
  obtain G gs where lg: "latest_generation ?own 1 [] = (G, gs)" by fastforce
  have spec: "\<forall>x \<in> set ?own. Generation x \<le> G" "G = 1 \<or> G \<in> Generation ` set ?own" "gs = filter (\<lambda>x. Generation x = G) ?own"
    using latest_generation_spec [of "[]" 1, OF _ lg] unfolding append_Nil list.set(1) by blast+
  have "G \<noteq> - 1" using spec(2) assms(3) by (auto simp: list_all_iff)
  then have "G < G + 1" by (rule word_less_inc)
  have fresh: "Generation x \<noteq> G + 1" if "x \<in> set ?own" for x
  proof -
    have "Generation x \<le> G" using spec(1) that by blast
    then show ?thesis using \<open>G < G + 1\<close> by (simp only: not_le [symmetric])
  qed
  have "length gs \<le> length ?own" unfolding spec(3) by (rule length_filter_le)
  also have "\<dots> \<le> length (ClosedSegments s @ OpenSegments s)" by (rule length_filter_le)
  finally have "length gs < 2 ^ 32" using assms(2) by linarith
  then have few: "length gs < unat shards" if "\<not> of_nat (length gs) \<ge> shards"
    using that of_nat_less_u32 [of "length gs" shards] by (simp add: not_le)
  have one: "1 \<le> shards" using assms(1) by (simp add: word_le_nat_alt word_less_nat_alt)
  show ?thesis
  proof (cases "of_nat (length gs) \<ge> shards \<or> node_in_generation node gs")
    case True
    then have "g = G + 1" "h = 1" using assms(1,4) lg by (auto simp: generation_and_shard_def split: if_splits)
    then show ?thesis using fresh one by auto
  next
    case False
    then have gh: "g = G" "h = first_free_shard (unat shards) 1 shards gs"
      using assms(4) lg by (auto simp: generation_and_shard_def split: if_splits)
    obtain j where "1 \<le> j" "j \<le> shards" "\<forall>x \<in> set gs. Shard x \<noteq> j" using free_shard_exists few False by blast
    moreover have "unat (1 :: u32) + unat shards = Suc (unat shards)" by simp
    ultimately have h: "1 \<le> h \<and> h \<le> shards \<and> (\<forall>x \<in> set gs. Shard x \<noteq> h)"
      using first_free_shard_free [of 1 "unat shards" shards j gs] unfolding gh(2) by blast
    have "x \<in> set gs" if "x \<in> set (OpenSegments s) \<union> set (ClosedSegments s)" "owned_by t n name x" "Generation x = g" for x
      unfolding spec(3) using that gh(1) by auto
    then show ?thesis using h False by (auto simp: node_in_generation_def list_ex_iff)
  qed
qed


theorem shard_not_given_twice_witness:
  "generation_and_shard (cluster demo_replicated) 9 TOPIC ''shop'' ''orders'' 2 = (1, 2) \<and>
   map Shard (ClosedSegments (cluster demo_replicated)) \<noteq> [2]"
proof -
  have e: "generation_and_shard (cluster demo_replicated) 9 TOPIC ''shop'' ''orders'' 2 = (1, 2)" by code_simp
  have "list_all (\<lambda>g. Generation g \<noteq> - 1) (ClosedSegments (cluster demo_replicated) @ OpenSegments (cluster demo_replicated))"
    "length (ClosedSegments (cluster demo_replicated) @ OpenSegments (cluster demo_replicated)) = 1"
    "list_all (\<lambda>x. owned_by TOPIC ''shop'' ''orders'' x \<and> Generation x = 1) (ClosedSegments (cluster demo_replicated))" by code_simp+
  then show ?thesis using shard_not_given_twice [of 2 "cluster demo_replicated" 9 TOPIC "''shop''" "''orders''", OF _ _ _ e] e
    by (auto simp: map_eq_Cons_conv)
qed

subsection \<open>Opening and rotating\<close>

lemma find_open_view:
  "wf_state s \<Longrightarrow> g \<in> set (FindOpenSegmentsFor s t n m) \<longleftrightarrow> v_open (abs_view s) (seg_ID g) = Some g \<and> owned_by t n m g"
  by (auto simp: FindOpenSegmentsFor_def open_view simp del: abs_view_simps)


lemma add_offset_commits_open:
  assumes "service_inv (cluster w)" "FindNamespace (cluster w) (ns_Name ns) \<noteq> None" "add_offset_commits env ns topic i cgs w = Ret w'"
  shows "v_open (abs_view (cluster w')) = v_open (abs_view (cluster w)) \<and> v_closed (abs_view (cluster w')) = v_closed (abs_view (cluster w))
    \<and> service_inv (cluster w')"
  using assms
proof (induction cgs arbitrary: w)
  case (Cons cg cgs)
  let ?c = "UpdateConsumerGroupOffsetCommits (ns_Name ns) (group_Name cg) (OffsetCommits cg @ [\<lparr>oc_SegmentID = i, oc_Offset = 0\<rparr>])"
  show ?case
  proof (cases "list_ex (\<lambda>b. bind_TopicName b = topic) (Bindings cg)")
    case True
    have runs: "runs ?c (cluster w)" using Cons.prems(2) by (simp add: runs_def)
    obtain r w1 where w1: "Server_Apply env ?c w = Ret (r, w1)" "service_inv (cluster w1)" "FindNamespace (cluster w1) (ns_Name ns) \<noteq> None"
      using Server_Apply_stays [OF Cons.prems(1) runs _ Cons.prems(2), of env] by auto
    have "v_open (abs_view (cluster w1)) = v_open (abs_view (cluster w)) \<and> v_closed (abs_view (cluster w1)) = v_closed (abs_view (cluster w))"
      using w1(1) by (cases rule: Server_Apply_cases [OF Cons.prems(1) runs, of env]) (auto simp: on_ns_def simp del: abs_view_simps)
    then show ?thesis using Cons.IH [OF w1(2,3)] Cons.prems(3) True w1(1) by auto
  qed (use Cons in auto)
qed simp

lemma create_segment_done:
  assumes "service_inv (cluster w)" "CurrentSegmentID (cluster w) \<noteq> - 1" "t = CONSUMER_GROUP_OFFSET_COMMITS \<Longrightarrow> FindOpenSegmentsFor (cluster w) t n name = []"
    "create_segment env (cluster w) node t n name shards rf w = Ret (Inr (i, k), w')"
  obtains g where "service_inv (cluster w')" "k = node" "v_open (abs_view (cluster w)) i = None"
    "v_open (abs_view (cluster w')) = (v_open (abs_view (cluster w)))(i \<mapsto> g)" "v_closed (abs_view (cluster w')) = v_closed (abs_view (cluster w))"
    "seg_ID g = i" "owned_by t n name g" "PrimaryNodeID (seg_Nodes g) = node" "ReplicatingNodeIDs (seg_Nodes g) = replicas_for (cluster w) node rf"
    "generation_and_shard (cluster w) node t n name shards = (Generation g, Shard g)"
proof -
  obtain gen sh where gs: "generation_and_shard (cluster w) node t n name shards = (gen, sh)" by fastforce
  define s where "s = snd (NextSegmentID (cluster w))"
  define j where "j = fst (NextSegmentID (cluster w))"
  define x where "x = \<lparr>sc_ID = j, sc_Type = t, sc_OwnerNamespace = n, sc_OwnerName = name,
      sc_Generation = gen, sc_Shard = sh, sc_OpenedAt = clock env, sc_PrimaryNodeID = node,
      sc_ReplicatingNodeIDs = replicas_for (cluster w) node rf\<rparr>"
  have nid: "NextSegmentID (cluster w) = (j, s)" by (simp add: s_def j_def)
  have same: "segment_ids s = segment_ids (cluster w)" "FindOpenSegmentsFor s = FindOpenSegmentsFor (cluster w)" "abs_view s = abs_view (cluster w)"
    "FindNamespace s = FindNamespace (cluster w)"
    by (simp_all add: s_def NextSegmentID_def segment_ids_def FindOpenSegmentsFor_def abs_view_def FindNamespace_def fun_eq_iff)
  have fresh: "j \<notin> set (segment_ids (cluster w))" unfolding j_def by (rule NextSegmentID_fresh [OF service_invD(1) [OF assms(1)] assms(2)])
  have inv: "service_inv (cluster (w\<lparr>cluster := s\<rparr>))" using service_inv_NextSegmentID [OF assms(1,2)] by (simp add: s_def)
  have runs: "runs (CreateSegment x) (cluster (w\<lparr>cluster := s\<rparr>))" using fresh assms(3) by (auto simp: runs_def x_def same)
  obtain b w1 where w1: "Server_Apply env (CreateSegment x) (w\<lparr>cluster := s\<rparr>) = Ret (Inr b, w1)"
    and rest: "(if t = TOPIC then (case FindNamespace (cluster w) n of
           None \<Rightarrow> Panic nil_dereference
         | Some (namespace, _) \<Rightarrow> and_then (add_offset_commits env namespace name j (ConsumerGroups namespace) w1) (\<lambda>w. Ret (Inr (j, node), w)))
        else Ret (Inr (j, node), w1)) = (Ret (Inr (i, k), w') :: SegmentOpenResponse reply)"
    using assms(4) unfolding create_segment_def gs nid prod.case reply_bind_Inr x_def by blast
  note after = Server_Apply_Inr [OF inv runs w1]
  have "v_open (abs_view (cluster w')) = v_open (abs_view (cluster w1)) \<and> v_closed (abs_view (cluster w')) = v_closed (abs_view (cluster w1))
      \<and> service_inv (cluster w') \<and> i = j \<and> k = node"
  proof (cases "t = TOPIC")
    case True
    then obtain ns l where ns: "FindNamespace (cluster w) n = Some (ns, l)" using rest by (auto split: option.splits)
    then have "ns_Name ns = n" using FindNamespace_Some by blast
    moreover have "v_ns (abs_view (cluster w1)) n \<noteq> None" unfolding after(2) by (rule namespace_stays) (simp_all add: same v_ns_Some [OF ns])
    ultimately have stays: "FindNamespace (cluster w1) (ns_Name ns) \<noteq> None" by (simp only: FindNamespace_view not_False_eq_True)
    have added: "add_offset_commits env ns name j (ConsumerGroups ns) w1 = Ret w'" "i = j" "k = node" using rest True ns by auto
    show ?thesis using add_offset_commits_open [OF after(1) stays added(1)] added(2,3) by blast
  qed (use rest after(1) in \<open>simp del: abs_view_simps\<close>)
  moreover have "v_open (abs_view (cluster w1)) = (v_open (abs_view (cluster w)))(j \<mapsto> opened x)"
    "v_closed (abs_view (cluster w1)) = v_closed (abs_view (cluster w))"
    unfolding after(2) by (simp_all add: same x_def)
  moreover have "v_open (abs_view (cluster w)) j = None"
  proof (rule ccontr)
    assume "v_open (abs_view (cluster w)) j \<noteq> None"
    then obtain g where "v_open (abs_view (cluster w)) j = Some g" by blast
    then show False using fresh unfolding open_view [OF service_invD(1) [OF assms(1)]] segment_ids_def by auto
  qed
  ultimately show ?thesis using that [of "opened x"] gs by (simp add: opened_def x_def owned_by_def del: abs_view_simps)
qed


text \<open>A segment of the owner that is open already, or a new one.\<close>

lemma txSegmentOpen_cases:
  assumes "txSegmentOpen env state node t n name w = Ret (Inr (i, k), w')"
  obtains (found) shards rf g where "owner_limits state t n name = Inr (shards, rf)" "w' = w" "g \<in> set (FindOpenSegmentsFor state t n name)"
      "seg_ID g = i" "PrimaryNodeID (seg_Nodes g) = k"
      "k = node \<or> shards > 0 \<and> of_nat (length (FindOpenSegmentsFor state t n name)) \<ge> shards"
  | (create) shards rf where "owner_limits state t n name = Inr (shards, rf)"
      "\<forall>g \<in> set (FindOpenSegmentsFor state t n name). PrimaryNodeID (seg_Nodes g) \<noteq> node"
      "\<not> (shards > 0 \<and> of_nat (length (FindOpenSegmentsFor state t n name)) \<ge> shards)"
      "create_segment env state node t n name shards rf w = Ret (Inr (i, k), w')"
proof -
  let ?open = "FindOpenSegmentsFor state t n name"
  obtain shards rf where l: "owner_limits state t n name = Inr (shards, rf)"
    using assms by (auto simp: txSegmentOpen_def split: if_splits sum.splits)
  show ?thesis
  proof (cases "find (\<lambda>g. PrimaryNodeID (seg_Nodes g) = node) ?open")
    case (Some g)
    then have "g \<in> set ?open" "PrimaryNodeID (seg_Nodes g) = node" by (auto simp: find_Some_iff)
    then show ?thesis using found [OF l] assms Some l by (auto simp: txSegmentOpen_def Let_def split: if_splits)
  next
    case None
    then have none: "\<forall>g \<in> set ?open. PrimaryNodeID (seg_Nodes g) \<noteq> node" by (auto simp: find_None_iff)
    show ?thesis
    proof (cases "shards > 0 \<and> of_nat (length ?open) \<ge> shards")
      case True
      then have "?open \<noteq> []" by auto
      then have "?open ! (random env mod length ?open) \<in> set ?open" by (intro nth_mem mod_less_divisor) simp
      then show ?thesis using found [OF l] assms None True l by (auto simp: txSegmentOpen_def Let_def split: if_splits)
    next
      case False
      then show ?thesis using create [OF l none] assms None l by (auto simp: txSegmentOpen_def Let_def split: if_splits)
    qed
  qed
qed

lemma tx_open_answer:
  assumes inv: "service_inv (cluster w)" and room: "CurrentSegmentID (cluster w) \<noteq> - 1"
    and r: "txSegmentOpen env (cluster w) node t n name w = Ret (Inr (i, k), w')"
  shows "service_inv (cluster w') \<and> v_closed (abs_view (cluster w')) = v_closed (abs_view (cluster w)) \<and> (k = node \<or> cluster w' = cluster w)
    \<and> (\<exists>g. GetOpenSegment (cluster w') i = Some g \<and> owned_by t n name g \<and> PrimaryNodeID (seg_Nodes g) = k)"
  using r
proof (cases rule: txSegmentOpen_cases)
  case (found shards rf g)
  then show ?thesis using find_open_view [OF service_invD(1) [OF inv]] inv
    by (auto simp: GetOpenSegment_view [OF service_invD(1) [OF inv]] simp del: abs_view_simps)
next
  case (create shards rf)
  from create_segment_done [OF inv room no_commits_segment [OF inv create(1) _ create(3)] create(4)] obtain g where
    g: "service_inv (cluster w')" "k = node" "v_open (abs_view (cluster w')) = (v_open (abs_view (cluster w)))(i \<mapsto> g)"
    "v_closed (abs_view (cluster w')) = v_closed (abs_view (cluster w))" "owned_by t n name g" "PrimaryNodeID (seg_Nodes g) = node" by metis
  then show ?thesis by (simp add: GetOpenSegment_view [OF service_invD(1) [OF g(1)]] del: abs_view_simps)
qed





lemma tx_close_done:
  assumes inv: "service_inv (cluster w)" and r: "txSegmentClose env (cluster w) r w = Ret (Inr u, w')"
  shows "\<exists>old. v_closed (abs_view (cluster w')) (sr_SegmentID r) = Some old \<and>
    (case GetOpenSegment (cluster w) (sr_SegmentID r) of
       None \<Rightarrow> GetClosedSegment (cluster w) (sr_SegmentID r) = Some old
     | Some g \<Rightarrow> PrimaryNodeID (seg_Nodes g) = sr_NodeID r \<and> seg_Size old = sr_Size r \<and> Sha1 old = sr_Sha1 r \<and>
         seg_Type old = seg_Type g \<and> OwnerNamespace old = OwnerNamespace g \<and> OwnerName old = OwnerName g)"
proof (cases "GetOpenSegment (cluster w) (sr_SegmentID r)")
  case None
  then have "w' = w" "GetClosedSegment (cluster w) (sr_SegmentID r) \<noteq> None"
    using r by (auto simp: txSegmentClose_def split: if_splits)
  then show ?thesis using None by (auto simp: GetClosedSegment_view [OF service_invD(1) [OF inv]] simp del: abs_view_simps)
next
  case (Some g)
  let ?c = "\<lparr>cl_ID = seg_ID g, cl_DoneNodeID = sr_NodeID r, cl_ClosedAt = (if clock env < CreatedAt g then CreatedAt g else clock env),
    cl_Size = sr_Size r, cl_Sha1 = sr_Sha1 r\<rparr>"
  obtain b where p: "PrimaryNodeID (seg_Nodes g) = sr_NodeID r" and ap: "Server_Apply env (CloseSegment ?c) w = Ret (Inr b, w')"
    using r Some by (auto simp: txSegmentClose_def reply_bind_Inr split: if_splits)
  note after = Server_Apply_Inr [OF inv runs_CloseSegment ap]
  have g: "v_open (abs_view (cluster w)) (sr_SegmentID r) = Some g" using Some GetOpenSegment_view [OF service_invD(1) [OF inv]] by simp
  then have "seg_ID g = sr_SegmentID r" unfolding open_view [OF service_invD(1) [OF inv]] by simp
  then show ?thesis using g p Some unfolding after(2) by (simp add: close_segment_def del: abs_view_simps)
qed

lemma open_not_closed:
  assumes "wf_state s" "GetOpenSegment s i = Some x" "GetClosedSegment s i = Some y"
  shows False
proof -
  have "x \<in> set (OpenSegments s)" "y \<in> set (ClosedSegments s)" "seg_ID x = seg_ID y"
    using assms(2,3) by (auto simp: GetOpenSegment_view [OF assms(1)] GetClosedSegment_view [OF assms(1)] dest!: klookup_SomeD)
  then show False using wf_stateD(5) [OF assms(1)] by (metis IntI empty_iff imageI)
qed

lemma rotate_steps:
  assumes "is_leader env" "service_inv (cluster w)" "CurrentSegmentID (cluster w) \<noteq> - 1" "commits_namespace_exists r (cluster w)"
    "Server_SegmentRotate env a r w = Ret (Inr (i, k), w')"
  obtains w1 where "service_inv (cluster w1)" "CurrentSegmentID (cluster w1) \<noteq> - 1"
    "v_open (abs_view (cluster w1)) = v_open (abs_view (cluster w))" "v_closed (abs_view (cluster w1)) = v_closed (abs_view (cluster w))"
    "close_and_open env r w1 = Ret (Inr (i, k), w')"
proof -
  obtain u w0 where w0: "beginTransaction env w = Ret (Inr u, w0)"
    and c: "(case sr_OffsetCommitsUpdate r of None \<Rightarrow> close_and_open env r w0
         | Some (n, name, commits) \<Rightarrow>
             reply_bind (Server_Apply env (UpdateConsumerGroupOffsetCommits n name commits) w0) (\<lambda>_. close_and_open env r)) = Ret (Inr (i, k), w')"
    using assms(1,5) by (auto simp: Server_SegmentRotate_def on_leader_leads reply_bind_Inr)
  have same: "cluster w0 = cluster w" by (rule beginTransaction_cluster(1) [OF w0])
  show ?thesis
  proof (cases "sr_OffsetCommitsUpdate r")
    case None
    then show ?thesis using that [of w0] c assms(2,3) same by simp
  next
    case (Some p)
    obtain n g cs where p: "p = (n, g, cs)" by (cases p)
    have runs: "runs (UpdateConsumerGroupOffsetCommits n g cs) (cluster w0)"
      using assms(4) Some p same by (simp add: commits_namespace_exists_def runs_def)
    obtain b w1 where w1: "Server_Apply env (UpdateConsumerGroupOffsetCommits n g cs) w0 = Ret (Inr b, w1)" "close_and_open env r w1 = Ret (Inr (i, k), w')"
      using c Some p by (auto simp: reply_bind_Inr)
    have inv: "service_inv (cluster w0)" using assms(2) same by simp
    have "CurrentSegmentID (cluster w1) = CurrentSegmentID (cluster w0)"
      using w1(1) by (cases rule: Server_Apply_cases [OF inv runs, of env]) auto
    then show ?thesis using that [of w1] Server_Apply_Inr [OF inv runs w1(1)] w1(2) same assms(3)
      by (simp add: on_ns_def del: abs_view_simps)
  qed
qed

text \<open>(C32) Rotation: after the primary of a segment has rotated it, the segment is closed with the size and checksum that the primary
  reported, and the answer names another, open segment of the same owner and its primary.\<close>

theorem rotate_closes_and_opens:
  assumes "is_leader env" and "service_inv (cluster w)" and "CurrentSegmentID (cluster w) \<noteq> - 1" and "commits_namespace_exists r (cluster w)"
    and "GetOpenSegment (cluster w) (sr_SegmentID r) = Some g" and "Server_SegmentRotate env a r w = Ret (Inr (i, k), w')"
  shows "PrimaryNodeID (seg_Nodes g) = sr_NodeID r
    \<and> (\<exists>old. GetClosedSegment (cluster w') (sr_SegmentID r) = Some old \<and> seg_Size old = sr_Size r \<and> Sha1 old = sr_Sha1 r)
    \<and> i \<noteq> sr_SegmentID r
    \<and> (\<exists>x. GetOpenSegment (cluster w') i = Some x \<and> owned_by (seg_Type g) (OwnerNamespace g) (OwnerName g) x \<and> PrimaryNodeID (seg_Nodes x) = k)"
proof -
  from rotate_steps [OF assms(1-4,6)] obtain w1 where w1: "service_inv (cluster w1)" "CurrentSegmentID (cluster w1) \<noteq> - 1"
    "v_open (abs_view (cluster w1)) = v_open (abs_view (cluster w))" and co: "close_and_open env r w1 = Ret (Inr (i, k), w')" by metis
  obtain u w2 v w3 old where cl: "txSegmentClose env (cluster w1) r w1 = Ret (Inr u, w2)" and "Barrier env BarrierFailed w2 = Ret (Inr v, w3)"
    and old: "GetClosedSegment (cluster w3) (sr_SegmentID r) = Some old"
    and tx: "txSegmentOpen env (cluster w3) (sr_NodeID r) (seg_Type old) (OwnerNamespace old) (OwnerName old) w3 = Ret (Inr (i, k), w')"
    using co unfolding close_and_open_def reply_bind_Inr by (fastforce split: option.splits)
  then have w3: "cluster w3 = cluster w2" using beginTransaction_cluster(2) by blast
  have inv2: "service_inv (cluster w2)" using safe_txSegmentClose [OF w1(1), of env "cluster w1" r] cl by simp
  have room2: "CurrentSegmentID (cluster w2) \<noteq> - 1" using txSegmentClose_counter [OF w1(1) cl] w1(2) by simp
  have g: "GetOpenSegment (cluster w1) (sr_SegmentID r) = Some g"
    using assms(5) w1(3) unfolding GetOpenSegment_view [OF service_invD(1) [OF w1(1)]] GetOpenSegment_view [OF service_invD(1) [OF assms(2)]] by simp
  have c2: "v_closed (abs_view (cluster w2)) (sr_SegmentID r) = Some old"
    using old unfolding w3 GetClosedSegment_view [OF service_invD(1) [OF inv2]] .
  have o: "PrimaryNodeID (seg_Nodes g) = sr_NodeID r" "seg_Size old = sr_Size r" "Sha1 old = sr_Sha1 r"
    "seg_Type old = seg_Type g" "OwnerNamespace old = OwnerNamespace g" "OwnerName old = OwnerName g"
    using tx_close_done [OF w1(1) cl] c2 g by (auto simp del: abs_view_simps)
  have fin: "service_inv (cluster w')" "v_closed (abs_view (cluster w')) = v_closed (abs_view (cluster w2))"
    "\<exists>x. GetOpenSegment (cluster w') i = Some x \<and> owned_by (seg_Type g) (OwnerNamespace g) (OwnerName g) x \<and> PrimaryNodeID (seg_Nodes x) = k"
    using tx_open_answer [of w3, OF _ _ tx] inv2 room2 w3 o(4-6) by simp_all
  have closed: "GetClosedSegment (cluster w') (sr_SegmentID r) = Some old"
    unfolding GetClosedSegment_view [OF service_invD(1) [OF fin(1)]] fin(2) by (rule c2)
  then show ?thesis using o fin(3) open_not_closed [OF service_invD(1) [OF fin(1)]] by blast
qed

definition demo_rotate :: SegmentCloseRequest where
  "demo_rotate = \<lparr>sr_LeaderOnly = False, sr_NodeID = 7, sr_SegmentID = 1, sr_Size = 5, sr_Sha1 = [1], sr_OffsetCommitsUpdate = None\<rparr>"

definition demo_open :: SegmentOpenRequest where
  "demo_open = \<lparr>so_LeaderOnly = False, so_NodeID = 7, so_Type = TOPIC, so_OwnerNamespace = ''shop'', so_OwnerName = ''orders''\<rparr>"

definition returns :: "'a reply \<Rightarrow> (server_error + 'a \<Rightarrow> leader \<Rightarrow> bool) \<Rightarrow> bool" where
  "returns m P \<longleftrightarrow> (case m of Panic _ \<Rightarrow> False | Ret (r, w) \<Rightarrow> P r w)"

lemma returnsD: "returns m P \<Longrightarrow> \<exists>r w. m = Ret (r, w) \<and> P r w"
  by (auto simp: returns_def split: outcome.splits)

theorem rotate_closes_and_opens_witness:
  "\<exists>w w'. Server_SegmentOpen demo_env (Inr (0, 0)) demo_open demo_shop = Ret (Inr (1, 7), w) \<and>
     Server_SegmentRotate demo_env (Inr (0, 0)) demo_rotate w = Ret (Inr (2, 7), w') \<and> GetClosedSegment (cluster w') 1 \<noteq> None"
proof -
  have "returns (Server_SegmentOpen demo_env (Inr (0, 0)) demo_open demo_shop) (\<lambda>r w. r = Inr (1, 7) \<and> CurrentSegmentID (cluster w) \<noteq> - 1 \<and>
      GetOpenSegment (cluster w) (sr_SegmentID demo_rotate) \<noteq> None \<and>
      returns (Server_SegmentRotate demo_env (Inr (0, 0)) demo_rotate w) (\<lambda>r w. r = Inr (2, 7)))" by code_simp
  then obtain w w' g where w: "Server_SegmentOpen demo_env (Inr (0, 0)) demo_open demo_shop = Ret (Inr (1, 7), w)" "CurrentSegmentID (cluster w) \<noteq> - 1"
    "GetOpenSegment (cluster w) (sr_SegmentID demo_rotate) = Some g" "Server_SegmentRotate demo_env (Inr (0, 0)) demo_rotate w = Ret (Inr (2, 7), w')"
    by (blast dest: returnsD)
  have c: "is_leader demo_env" "CurrentSegmentID (cluster demo_shop) \<noteq> - 1" "commits_namespace_exists demo_rotate (cluster w)"
    by (code_simp, code_simp, simp add: commits_namespace_exists_def demo_rotate_def)
  have i: "service_inv (cluster w)"
    using safe_SegmentOpen [OF demo_shop_inv c(2), of demo_env "Inr (0, 0)" demo_open] w(1) by simp
  show ?thesis using rotate_closes_and_opens [OF c(1) i w(2) c(3) w(3,4)] w(1,4) by (auto simp: demo_rotate_def)
qed

end
