(* ===== verification/Float_Values.thy ===== *)
theory Float_Values
  imports Struct_Values Byte_Codec
begin

text \<open>
  The conversions between Go's \<^verbatim>\<open>float64\<close>, held as its IEEE 754 bits, and integers that the AMQP codecs
  use: whether a number is integral, its conversion to \<^verbatim>\<open>int64\<close>, and the rounding of an integer to the nearest
  \<^verbatim>\<open>float64\<close>. The main lemma is that an integral number of the range of \<^verbatim>\<open>int64\<close> survives both conversions.
\<close>

subsection \<open>The parts of a number\<close>

definition f64_neg :: "u64 \<Rightarrow> bool" where "f64_neg b = bit b 63"
definition f64_exp :: "u64 \<Rightarrow> int" where "f64_exp b = uint (take_bit 11 (drop_bit 52 b))"
definition f64_frac :: "u64 \<Rightarrow> int" where "f64_frac b = uint (take_bit 52 b)"

definition f64_is_inf :: "u64 \<Rightarrow> bool" where
  "f64_is_inf b \<longleftrightarrow> f64_exp b = 2047 \<and> f64_frac b = 0"

text \<open>A finite number is its mantissa times two to its scale.\<close>

definition f64_mant :: "u64 \<Rightarrow> int" where
  "f64_mant b = (if f64_exp b = 0 then f64_frac b else f64_frac b + 2 ^ 52)"

definition f64_scale :: "u64 \<Rightarrow> int" where
  "f64_scale b = max 1 (f64_exp b) - 1075"

subsection \<open>Conversions\<close>

text \<open>\<^verbatim>\<open>x == math.Round(x)\<close>; an infinity is its own rounding, a NaN equals nothing.\<close>

definition f64_integral :: "u64 \<Rightarrow> bool" where
  "f64_integral b \<longleftrightarrow> \<not> f64_is_nan b \<and>
     (f64_is_inf b \<or> f64_scale b \<ge> 0 \<or> f64_mant b mod 2 ^ nat (- f64_scale b) = 0)"

definition f64_magnitude :: "u64 \<Rightarrow> int" where
  "f64_magnitude b = (if f64_scale b \<ge> 0 then f64_mant b * 2 ^ nat (f64_scale b) else f64_mant b div 2 ^ nat (- f64_scale b))"

definition f64_trunc :: "u64 \<Rightarrow> int" where
  "f64_trunc b = (if f64_neg b then - f64_magnitude b else f64_magnitude b)"

text \<open>\<^verbatim>\<open>int64(x)\<close>: out of range the result depends on the machine; this is the one of amd64.\<close>

definition f64_to_i64 :: "u64 \<Rightarrow> int" where
  "f64_to_i64 b =
     (if f64_exp b = 2047 \<or> f64_trunc b < - (2 ^ 63) \<or> f64_trunc b \<ge> 2 ^ 63 then - (2 ^ 63) else f64_trunc b)"

function bit_len :: "int \<Rightarrow> nat" where
  "bit_len a = (if a \<le> 0 then 0 else Suc (bit_len (a div 2)))"
  by auto
termination by (relation "measure nat") auto

declare bit_len.simps [simp del]

definition round_even :: "int \<Rightarrow> nat \<Rightarrow> int" where
  "round_even a k = (let q = a div 2 ^ k; r = a mod 2 ^ k in if 2 * r > 2 ^ k \<or> 2 * r = 2 ^ k \<and> odd q then q + 1 else q)"

text \<open>\<^verbatim>\<open>float64(n)\<close>: to the nearest number, ties to even; a carry out of the mantissa raises the exponent.\<close>

definition f64_of_int :: "int \<Rightarrow> u64" where
  "f64_of_int n =
     (if n = 0 then 0
      else let a = \<bar>n\<bar>; l = bit_len a; q = (if l \<le> 53 then a * 2 ^ (53 - l) else round_even a (l - 53))
           in word_of_int ((if n < 0 then 2 ^ 63 else 0) + (int l + 1022) * 2 ^ 52 + (q - 2 ^ 52)))"

text \<open>\<^verbatim>\<open>float64(f)\<close> of a \<^verbatim>\<open>float32\<close> is exact; a NaN is made quiet.\<close>

definition f64_of_f32 :: "u32 \<Rightarrow> u64" where
  "f64_of_f32 b =
     (let s = (if bit b 31 then 2 ^ 63 else 0); e = uint (take_bit 8 (drop_bit 23 b)); f = uint (take_bit 23 b); l = bit_len f
      in word_of_int (
        if e = 255 then s + 2047 * 2 ^ 52 + (if f = 0 then 0 else (if f < 2 ^ 22 then f + 2 ^ 22 else f) * 2 ^ 29)
        else if e \<noteq> 0 then s + (e + 896) * 2 ^ 52 + f * 2 ^ 29
        else if f = 0 then s
        else s + (int l + 873) * 2 ^ 52 + (f * 2 ^ (53 - l) - 2 ^ 52)))"

subsection \<open>Integral numbers survive\<close>

lemma f64_parts: "uint b = (if f64_neg b then 2 ^ 63 else 0) + f64_exp b * 2 ^ 52 + f64_frac b"
proof -
  have "uint b = uint b div 2 ^ 63 * 2 ^ 63 + uint b mod 2 ^ 63" by (simp add: div_mult_mod_eq)
  also have "uint b mod 2 ^ 63 = f64_exp b * 2 ^ 52 + f64_frac b"
  proof -
    have e: "f64_exp b = uint b mod 2 ^ 63 div 2 ^ 52"
    proof -
      have "f64_exp b = drop_bit 52 (take_bit 63 (uint b))"
        by (simp add: f64_exp_def unsigned_take_bit_eq unsigned_drop_bit_eq drop_bit_take_bit)
      then show ?thesis by (simp only: take_bit_eq_mod drop_bit_eq_div)
    qed
    have f: "f64_frac b = uint b mod 2 ^ 63 mod 2 ^ 52"
    proof -
      have "f64_frac b = take_bit 52 (take_bit 63 (uint b))" by (simp add: f64_frac_def unsigned_take_bit_eq)
      then show ?thesis by (simp only: take_bit_eq_mod)
    qed
    show ?thesis unfolding e f by (simp only: div_mult_mod_eq)
  qed
  also have "uint b div 2 ^ 63 = (if f64_neg b then 1 else 0)"
  proof -
    have "uint b < 2 ^ 64" by (rule order_less_le_trans [OF unsigned_less]) simp
    then have "uint b div 2 ^ 63 < 2" by (simp add: div_less_iff_less_mult)
    moreover have "f64_neg b \<longleftrightarrow> odd (uint b div 2 ^ 63)" 
      unfolding f64_neg_def bit_iff_odd [of "uint b", symmetric] bit_uint_iff by simp
    moreover have "0 \<le> uint b div 2 ^ 63" by (simp add: pos_imp_zdiv_nonneg_iff)
    ultimately show ?thesis by (auto elim: oddE evenE)
  qed
  finally show ?thesis by (simp split: if_splits)
qed


lemma f64_bounds: "0 \<le> f64_frac b" "f64_frac b < 2 ^ 52" "0 \<le> f64_exp b" "f64_exp b < 2 ^ 11"
  using take_bit_int_less_exp [of 52 "uint b"] take_bit_int_less_exp [of 11 "uint (drop_bit 52 b)"]
  unfolding f64_frac_def f64_exp_def by (simp_all add: unsigned_take_bit_eq)

lemma bit_len_eq: "2 ^ k \<le> a \<Longrightarrow> a < 2 ^ Suc k \<Longrightarrow> bit_len a = Suc k"
proof (induction k arbitrary: a)
  case 0
  then have "a = 1" by simp
  then show ?case by (simp add: bit_len.simps)
next
  case (Suc k)
  then have "2 ^ k \<le> a div 2" "a div 2 < 2 ^ Suc k" by auto
  moreover have "0 < a" using Suc.prems(1) by (rule less_le_trans [rotated]) simp
  ultimately show ?case using Suc.IH [of "a div 2"] by (simp add: bit_len.simps [of a])
qed

lemma f64_of_int_eq:
  assumes "0 < a" "bit_len a = l" "(if l \<le> 53 then a * 2 ^ (53 - l) else round_even a (l - 53)) = q"
  shows "f64_of_int (if neg then - a else a) = word_of_int ((if neg then 2 ^ 63 else 0) + (int l + 1022) * 2 ^ 52 + (q - 2 ^ 52))"
proof -
  define n where "n = (if neg then - a else a)"
  have n: "\<bar>n\<bar> = a" "n \<noteq> 0" "n < 0 \<longleftrightarrow> neg" using assms(1) by (simp_all add: n_def)
  show ?thesis unfolding n_def [symmetric] f64_of_int_def Let_def n(1,3) assms(2,3) using n(2) by (simp only: if_False)
qed

text \<open>The integer that a normal number stands for has its mantissa, shifted.\<close>

lemma f64_of_int_normal:
  assumes m: "2 ^ 52 \<le> m" "m < 2 ^ 53" and a: "0 < a"
    and s: "s \<ge> 0 \<and> a = m * 2 ^ nat s \<or> s < 0 \<and> m = a * 2 ^ nat (- s)"
  shows "f64_of_int (if neg then - a else a) = word_of_int ((if neg then 2 ^ 63 else 0) + (s + 1075) * 2 ^ 52 + (m - 2 ^ 52))"
  using s
proof
  assume s: "s \<ge> 0 \<and> a = m * 2 ^ nat s"
  have "2 ^ 52 * 2 ^ nat s \<le> a" "a < 2 ^ 53 * 2 ^ nat s" using s m by simp_all
  then have "2 ^ (52 + nat s) \<le> a" "a < 2 ^ Suc (52 + nat s)" by (simp_all add: power_add)
  then have l: "bit_len a = Suc (52 + nat s)" by (rule bit_len_eq)
  have "f64_of_int (if neg then - a else a) = word_of_int ((if neg then 2 ^ 63 else 0) + (int (Suc (52 + nat s)) + 1022) * 2 ^ 52 + (m - 2 ^ 52))"
    by (rule f64_of_int_eq [OF a l]) (use s in \<open>auto simp: round_even_def Let_def\<close>)
  moreover have "int (Suc (52 + nat s)) + 1022 = s + 1075" using s by simp
  ultimately show ?thesis by (simp only:)
next
  assume s: "s < 0 \<and> m = a * 2 ^ nat (- s)"
  define t where "t = nat (- s)"
  have mt: "m = a * 2 ^ t" using s by (simp add: t_def)
  have "2 ^ t \<le> m" using a mt by (simp add: mult_le_cancel_right1)
  then have "(2 :: int) ^ t < 2 ^ 53" using m(2) by linarith
  then have t: "t < 53" by (rule power_less_imp_less_exp [rotated]) simp
  have "2 ^ t * 2 ^ (52 - t) = (2 :: int) ^ 52" "2 ^ t * 2 ^ Suc (52 - t) = (2 :: int) ^ 53"
    unfolding power_add [symmetric] using t by simp_all
  then have "2 ^ t * 2 ^ (52 - t) \<le> 2 ^ t * a" "2 ^ t * a < 2 ^ t * 2 ^ Suc (52 - t)" using m mt by (simp_all only: mult.commute)
  then have "2 ^ (52 - t) \<le> a" "a < 2 ^ Suc (52 - t)" by (simp_all only: mult_le_cancel_left_pos mult_less_cancel_left_pos zero_less_power zero_less_numeral)
  then have l: "bit_len a = Suc (52 - t)" by (rule bit_len_eq)
  have "f64_of_int (if neg then - a else a) = word_of_int ((if neg then 2 ^ 63 else 0) + (int (Suc (52 - t)) + 1022) * 2 ^ 52 + (m - 2 ^ 52))"
    by (rule f64_of_int_eq [OF a l]) (use t mt in simp)
  moreover have "int (Suc (52 - t)) + 1022 = s + 1075" using t s by (simp add: t_def)
  ultimately show ?thesis by (simp only:)
qed

lemma f64_round_trip:
  assumes "f64_integral b" and "f64_exp b \<noteq> 2047"
  shows "f64_eq (f64_of_int (f64_trunc b)) b"
proof -
  have finite: "\<not> f64_is_nan b" using assms(1) by (simp add: f64_integral_def)
  have int: "f64_scale b \<ge> 0 \<or> f64_mant b mod 2 ^ nat (- f64_scale b) = 0"
    using assms by (auto simp: f64_integral_def f64_is_inf_def)
  show ?thesis
  proof (cases "f64_exp b = 0")
    case True
    then have s: "f64_scale b = - 1074" by (simp add: f64_scale_def)
    have "f64_frac b < 2 ^ 1074" using f64_bounds(2) [of b] by (rule less_le_trans) (rule power_increasing, simp_all)
    then have "f64_frac b = 0" using int True f64_bounds(1) [of b] unfolding s f64_mant_def
      by (simp add: mod_pos_pos_trivial del: power_numeral)
    then have "f64_trunc b = 0" and b: "uint b = (if f64_neg b then 2 ^ 63 else 0)" using True f64_parts [of b] s
      by (simp_all add: f64_trunc_def f64_magnitude_def f64_mant_def)
    have "uint (take_bit 63 b) = 0" unfolding unsigned_take_bit_eq b by simp
    then have "take_bit 63 b = 0" by (simp only: uint_0_iff)
    then show ?thesis using finite \<open>f64_trunc b = 0\<close> by (simp add: f64_eq_def f64_of_int_def f64_is_zero_def f64_is_nan_def)
  next
    case False
    define m where "m = f64_mant b"
    have m: "2 ^ 52 \<le> m" "m < 2 ^ 53" "f64_frac b = m - 2 ^ 52"
      using f64_bounds [of b] False by (simp_all add: m_def f64_mant_def)
    have e: "f64_scale b + 1075 = f64_exp b" using False f64_bounds(3) [of b] by (simp add: f64_scale_def)
    have a: "0 < f64_magnitude b" "f64_scale b \<ge> 0 \<and> f64_magnitude b = m * 2 ^ nat (f64_scale b) \<or>
        f64_scale b < 0 \<and> m = f64_magnitude b * 2 ^ nat (- f64_scale b)"
    proof -
      have "m mod 2 ^ nat (- f64_scale b) = 0" if "f64_scale b < 0" using int that by (simp add: m_def)
      then have "m = m div 2 ^ nat (- f64_scale b) * 2 ^ nat (- f64_scale b)" if "f64_scale b < 0"
        using that div_mult_mod_eq [of m "2 ^ nat (- f64_scale b)"] by simp
      then show *: "f64_scale b \<ge> 0 \<and> f64_magnitude b = m * 2 ^ nat (f64_scale b) \<or>
          f64_scale b < 0 \<and> m = f64_magnitude b * 2 ^ nat (- f64_scale b)"
        by (auto simp: f64_magnitude_def not_le simp flip: m_def)
      have "0 < m" using m(1) by (rule less_le_trans [rotated]) simp
      then show "0 < f64_magnitude b" using * by (auto simp: zero_less_mult_iff)
    qed
    have "f64_of_int (f64_trunc b) = word_of_int (uint b)"
      unfolding f64_trunc_def f64_of_int_normal [OF m(1,2) a] e f64_parts [of b] m(3) ..
    then show ?thesis using finite by (simp add: f64_eq_def)
  qed
qed

end
