(* ===== verification/Amqp_Values.thy ===== *)
theory Amqp_Values
  imports Float_Values
begin

text \<open>
  What the two AMQP codecs share: the bytes of strings, reading from a buffer, signed numbers in
  two's complement, and when two values are the same but for the sign of zero and for empty tables.
\<close>

datatype codec_error =
    NameTooLong | ValueTooLong | Underflow | NotImplemented | UnexpectedConstructor u8 | OddCount | NonStringKey | UnhandledDescriptor | IsNull | FieldFailed codec_error | Stuck | Remains | UnexpectedClass | UnhandledMethod | UnhandledClass

subsection \<open>Bytes\<close>

definition string_bytes :: "string \<Rightarrow> bytes" where
  "string_bytes s = map (\<lambda>c. of_nat (of_char c)) s"

definition bytes_string :: "bytes \<Rightarrow> string" where
  "bytes_string bs = map (\<lambda>b. char_of (unat b)) bs"

definition chb :: "char \<Rightarrow> u8" where
  "chb c = of_nat (of_char c)"

lemma length_string_bytes [simp]: "length (string_bytes s) = length s" "length (bytes_string bs) = length bs"
  by (simp_all add: string_bytes_def bytes_string_def)

lemma bytes_string_bytes [simp]: "bytes_string (string_bytes s) = s"
proof -
  have "unat (of_nat (of_char c) :: u8) = of_char c" for c :: char
    by (simp add: unat_of_nat_u8 of_char_mod_256)
  then show ?thesis by (simp add: bytes_string_def string_bytes_def o_def)
qed

text \<open>The next \<open>k\<close> bytes of a buffer and what is left, where it has as many.\<close>

definition split_next :: "nat \<Rightarrow> bytes \<Rightarrow> (bytes \<times> bytes) option" where
  "split_next k buf = (if length buf < k then None else Some (take k buf, drop k buf))"

lemma split_next_append [simp]: "length x = k \<Longrightarrow> split_next k (x @ rest) = Some (x, rest)"
  by (auto simp: split_next_def)

lemma split_next_length: "split_next k buf = Some (x, rest) \<Longrightarrow> length x = k \<and> length buf = k + length rest"
  by (auto simp: split_next_def split: if_splits)

definition signed_value :: "nat \<Rightarrow> nat \<Rightarrow> int" where
  "signed_value k n = (if 2 * n \<ge> 256 ^ k then int n - 256 ^ k else int n)"

definition twos :: "nat \<Rightarrow> int \<Rightarrow> nat" where
  "twos k n = nat (n mod 256 ^ k)"

lemma twos_less: "twos k n < 256 ^ k"
proof -
  have "n mod 256 ^ k < 256 ^ k" "0 \<le> n mod 256 ^ k" by simp_all
  then show ?thesis by (simp add: twos_def nat_less_iff)
qed

lemma signed_twos:
  assumes "- (256 ^ k) \<le> 2 * n" and "2 * n < 256 ^ k"
  shows "signed_value k (twos k n) = n"
proof -
  define M :: int where "M = 256 ^ k"
  have pos: "0 < M" by (simp add: M_def)
  have r: "- M \<le> 2 * n" "2 * n < M" using assms by (simp_all add: M_def)
  have N: "(2 * twos k n \<ge> 256 ^ k) = (M \<le> 2 * (n mod M))"
  proof -
    have "(2 * twos k n \<ge> 256 ^ k) = (int (256 ^ k) \<le> int (2 * twos k n))" by (simp only: of_nat_le_iff)
    then show ?thesis using pos by (simp add: twos_def M_def)
  qed
  have I: "int (twos k n) = n mod M" using pos by (simp add: twos_def M_def)
  show ?thesis
  proof (cases "n < 0")
    case True
    have "n mod M = (n + M) mod M" by simp
    also have "\<dots> = n + M" using r True by (intro mod_pos_pos_trivial) auto
    finally show ?thesis using N I r by (simp add: signed_value_def M_def [symmetric])
  next
    case False
    then have "n mod M = n" using r by (intro mod_pos_pos_trivial) auto
    then show ?thesis using N I r by (simp add: signed_value_def M_def [symmetric])
  qed
qed

lemma unat_bound: "unat (x :: u16) < 256 ^ 2" "unat (y :: u32) < 256 ^ 4" "unat (z :: u64) < 256 ^ 8"
  using unsigned_less [of x, where ?'a = nat] unsigned_less [of y, where ?'a = nat] unsigned_less [of z, where ?'a = nat]
  by simp_all

subsection \<open>Fields of a table\<close>

text \<open>\<^verbatim>\<open>fields[name] = value\<close>.\<close>

fun put_field :: "string \<Rightarrow> pvalue \<Rightarrow> pfields \<Rightarrow> pfields" where
  "put_field k v [] = [(k, v)]"
| "put_field k v (e # es) = (if fst e = k then (k, v) # es else e # put_field k v es)"

lemma put_field_new: "k \<notin> fst ` set fs \<Longrightarrow> put_field k v fs = fs @ [(k, v)]"
  by (induction fs) auto

subsection \<open>Times\<close>

text \<open>The first of January 1970, where Unix times count from.\<close>

definition unix_epoch :: gotime where
  "unix_epoch = 62135596800 * 1000000000"

subsection \<open>Numbers\<close>

text \<open>Integral numbers are sent as integers; they must be finite and fit \<^verbatim>\<open>int64\<close>.\<close>

definition number_fits :: "u64 \<Rightarrow> bool" where
  "number_fits b \<longleftrightarrow> (f64_integral b \<longrightarrow> f64_exp b \<noteq> 2047 \<and> - (2 ^ 63) \<le> f64_trunc b \<and> f64_trunc b < 2 ^ 63)"

fun numbers_fit :: "pvalue \<Rightarrow> bool" where
  "numbers_fit (NumberValue b) = number_fits b"
| "numbers_fit (StructValue (Some m)) = list_all (\<lambda>e. numbers_fit (snd e)) m"
| "numbers_fit (ListValue vs) = list_all numbers_fit vs"
| "numbers_fit _ = True"

definition sent_number :: "u64 \<Rightarrow> u64" where
  "sent_number b = (if f64_integral b then f64_of_int (f64_to_i64 b) else b)"

lemma sent_number_same: "number_fits b \<Longrightarrow> sent_number b = b \<or> f64_eq (sent_number b) b"
  using f64_round_trip [of b] by (auto simp: number_fits_def sent_number_def f64_to_i64_def)

lemma f64_to_i64_range: "- (2 ^ 63) \<le> f64_to_i64 b" "f64_to_i64 b < 2 ^ 63"
  by (auto simp: f64_to_i64_def)

text \<open>Equal but for the sign of a zero and for an empty table being nil.\<close>

fun same_value :: "pvalue \<Rightarrow> pvalue \<Rightarrow> bool" where
  "same_value NullValue NullValue = True"
| "same_value (NumberValue a) (NumberValue b) = (a = b \<or> f64_eq a b)"
| "same_value (StringValue a) (StringValue b) = (a = b)"
| "same_value (BoolValue a) (BoolValue b) = (a = b)"
| "same_value (StructValue None) (StructValue None) = True"
| "same_value (StructValue None) (StructValue (Some m)) = (m = [])"
| "same_value (StructValue (Some m)) (StructValue None) = (m = [])"
| "same_value (StructValue (Some m)) (StructValue (Some m')) =
     list_all2 (\<lambda>e e'. fst e = fst e' \<and> same_value (snd e) (snd e')) m m'"
| "same_value (ListValue vs) (ListValue vs') = list_all2 same_value vs vs'"
| "same_value _ _ = False"

end
