(* ===== verification/Amqp_V0_Codec.thy ===== *)
theory Amqp_V0_Codec
  imports Amqp_Values
begin

text \<open>
  The table codec of AMQP 0.9.1, \<^verbatim>\<open>amqp/v0/marshal.go\<close>: how the fields of a
  \<^verbatim>\<open>google.protobuf.Struct\<close> are written to and read from a field table. The map of a table is
  written in the order of its entries. The loops that read a buffer to its end are recursive
  functions; that a value takes at least one byte is what makes them total, and the branch that
  says otherwise is shown never to be taken.
\<close>

subsection \<open>Writing\<close>

definition marshalNumber0 :: "u64 \<Rightarrow> bytes" where
  "marshalNumber0 b =
     (if f64_integral b then
        let n = f64_to_i64 b in
        if -128 \<le> n \<and> n \<le> 127 then chb CHR ''b'' # be_bytes 1 (twos 1 n)
        else if -32768 \<le> n \<and> n \<le> 32767 then chb CHR ''s'' # be_bytes 2 (twos 2 n)
        else if -2147483648 \<le> n \<and> n \<le> 2147483647 then chb CHR ''I'' # be_bytes 4 (twos 4 n)
        else chb CHR ''l'' # be_bytes 8 (twos 8 n)
      else chb CHR ''d'' # be_bytes 8 (unat b))"

definition marshalBlock0 :: "char \<Rightarrow> bytes \<Rightarrow> codec_error + bytes" where
  "marshalBlock0 c data =
     (if int (length data) \<le> 4294967295 then Inr (chb c # be_bytes 4 (length data) @ data) else Inl ValueTooLong)"

fun marshalValue0 :: "pvalue \<Rightarrow> codec_error + bytes"
and marshalArray0 :: "pvalue list \<Rightarrow> codec_error + bytes"
and MarshalTable0 :: "pfields \<Rightarrow> codec_error + bytes" where
  "marshalValue0 NullValue = Inr [chb CHR ''V'']"
| "marshalValue0 (NumberValue b) = Inr (marshalNumber0 b)"
| "marshalValue0 (StringValue s) = marshalBlock0 CHR ''S'' (string_bytes s)"
| "marshalValue0 (BoolValue b) = Inr [chb CHR ''t'', if b then 1 else 0]"
| "marshalValue0 (StructValue None) = marshalBlock0 CHR ''F'' []"
| "marshalValue0 (StructValue (Some m)) =
     (case MarshalTable0 m of Inl e \<Rightarrow> Inl e | Inr data \<Rightarrow> marshalBlock0 CHR ''F'' data)"
| "marshalValue0 (ListValue vs) =
     (case marshalArray0 vs of Inl e \<Rightarrow> Inl e | Inr data \<Rightarrow> marshalBlock0 CHR ''A'' data)"
| "marshalArray0 [] = Inr []"
| "marshalArray0 (v # vs) =
     (case marshalValue0 v of Inl e \<Rightarrow> Inl e | Inr bs \<Rightarrow>
      case marshalArray0 vs of Inl e \<Rightarrow> Inl e | Inr bs' \<Rightarrow> Inr (bs @ bs'))"
| "MarshalTable0 [] = Inr []"
| "MarshalTable0 ((name, v) # m) =
     (if int (length name) > 255 then Inl NameTooLong
      else case marshalValue0 v of Inl e \<Rightarrow> Inl e | Inr bs \<Rightarrow>
           case MarshalTable0 m of Inl e \<Rightarrow> Inl e | Inr bs' \<Rightarrow>
             Inr (of_nat (length name) # string_bytes name @ bs @ bs'))"

text \<open>\<^verbatim>\<open>MarshalTable\<close> of a struct that may be nil.\<close>

definition MarshalTable :: "pstruct \<Rightarrow> codec_error + bytes" where
  "MarshalTable t = (case t of None \<Rightarrow> Inr [] | Some m \<Rightarrow> MarshalTable0 m)"

subsection \<open>Reading\<close>

definition read_number0 :: "nat \<Rightarrow> (nat \<Rightarrow> u64) \<Rightarrow> bytes \<Rightarrow> codec_error + pvalue \<times> bytes" where
  "read_number0 k f buf =
     (case split_next k buf of None \<Rightarrow> Inl Underflow
      | Some (x, rest) \<Rightarrow> Inr (NumberValue (f (be_value x)), rest))"

definition read_block0 :: "bytes \<Rightarrow> (bytes \<times> bytes) option" where
  "read_block0 buf =
     (case split_next 4 buf of None \<Rightarrow> None | Some (x, rest) \<Rightarrow> split_next (be_value x) rest)"

lemma read_block0_length:
  "read_block0 buf = Some (data, rest) \<Longrightarrow> length data < length buf \<and> length rest < length buf"
  by (auto simp: read_block0_def split: option.splits prod.splits dest!: split_next_length)

definition read_scalar0 :: "u8 \<Rightarrow> bytes \<Rightarrow> codec_error + pvalue \<times> bytes" where
  "read_scalar0 tb buf =
     (if tb = chb CHR ''t'' then
        (case buf of [] \<Rightarrow> Inl Underflow | bb # rest \<Rightarrow> Inr (BoolValue (bb \<noteq> 0), rest))
      else if tb = chb CHR ''b'' then read_number0 1 (\<lambda>n. f64_of_int (signed_value 1 n)) buf
      else if tb = chb CHR ''B'' then read_number0 1 (\<lambda>n. f64_of_int (int n)) buf
      else if tb = chb CHR ''U'' \<or> tb = chb CHR ''s'' then
        read_number0 2 (\<lambda>n. f64_of_int (signed_value 2 n)) buf
      else if tb = chb CHR ''u'' then read_number0 2 (\<lambda>n. f64_of_int (int n)) buf
      else if tb = chb CHR ''I'' then read_number0 4 (\<lambda>n. f64_of_int (signed_value 4 n)) buf
      else if tb = chb CHR ''i'' then read_number0 4 (\<lambda>n. f64_of_int (int n)) buf
      else if tb = chb CHR ''l'' then read_number0 8 (\<lambda>n. f64_of_int (signed_value 8 n)) buf
      else if tb = chb CHR ''L'' then read_number0 8 (\<lambda>n. f64_of_int (int n)) buf
      else if tb = chb CHR ''f'' then read_number0 4 (\<lambda>n. f64_of_f32 (of_nat n)) buf
      else if tb = chb CHR ''d'' then read_number0 8 of_nat buf
      else if tb = chb CHR ''D'' then Inl NotImplemented
      else if tb = chb CHR ''x'' \<or> tb = chb CHR ''S'' then
        (case read_block0 buf of None \<Rightarrow> Inl Underflow
         | Some (s, rest) \<Rightarrow> Inr (StringValue (bytes_string s), rest))
      else if tb = chb CHR ''T'' then Inl NotImplemented
      else if tb = chb CHR ''V'' then Inr (NullValue, buf)
      else Inl (UnexpectedConstructor tb))"

function unmarshalValue0 :: "bytes \<Rightarrow> codec_error + pvalue \<times> bytes"
and unmarshalArray0 :: "bytes \<Rightarrow> pvalue list \<Rightarrow> codec_error + pvalue list"
and UnmarshalTable0 :: "bytes \<Rightarrow> pfields \<Rightarrow> codec_error + pfields" where
  "unmarshalValue0 all =
     (case all of [] \<Rightarrow> Inl Underflow
      | tb # buf \<Rightarrow>
        if tb = chb CHR ''A'' then
          (case read_block0 buf of None \<Rightarrow> Inl Underflow
           | Some (data, rest) \<Rightarrow>
             (case unmarshalArray0 data [] of Inl e \<Rightarrow> Inl e | Inr vs \<Rightarrow> Inr (ListValue vs, rest)))
        else if tb = chb CHR ''F'' then
          (case read_block0 buf of None \<Rightarrow> Inl Underflow
           | Some (data, rest) \<Rightarrow>
             if data = [] then Inr (StructValue None, rest)
             else (case UnmarshalTable0 data [] of Inl e \<Rightarrow> Inl e | Inr m \<Rightarrow> Inr (StructValue (Some m), rest)))
        else read_scalar0 tb buf)"
| "unmarshalArray0 buf vs =
     (if buf = [] then Inr vs
      else case unmarshalValue0 buf of Inl e \<Rightarrow> Inl e
           | Inr (v, rest) \<Rightarrow>
             if length rest < length buf then unmarshalArray0 rest (vs @ [v]) else Inl Stuck)"
| "UnmarshalTable0 all fs =
     (case all of [] \<Rightarrow> Inr fs
      | lb # buf \<Rightarrow>
        (case split_next (unat lb) buf of None \<Rightarrow> Inl Underflow
         | Some (name, buf') \<Rightarrow>
           (case unmarshalValue0 buf' of Inl e \<Rightarrow> Inl e
            | Inr (v, rest) \<Rightarrow>
              if length rest < length all then UnmarshalTable0 rest (put_field (bytes_string name) v fs)
              else Inl Stuck)))"
  by pat_completeness auto
termination
  by (relation "measure (\<lambda>x. case x of Inl b \<Rightarrow> 2 * length b
                                  | Inr (Inl (b, _)) \<Rightarrow> 2 * length b + 1
                                  | Inr (Inr (b, _)) \<Rightarrow> 2 * length b + 1)")
    (auto dest: read_block0_length split_next_length)

declare unmarshalValue0.simps [simp del] unmarshalArray0.simps [simp del] UnmarshalTable0.simps [simp del]

definition UnmarshalTable :: "bytes \<Rightarrow> codec_error + pstruct" where
  "UnmarshalTable data =
     (if data = [] then Inr None
      else case UnmarshalTable0 data [] of Inl e \<Rightarrow> Inl e | Inr m \<Rightarrow> Inr (Some m))"

subsection \<open>A table read back\<close>

lemma chb_codes [simp]:
  "chb CHR ''t'' = 116" "chb CHR ''b'' = 98" "chb CHR ''B'' = 66" "chb CHR ''U'' = 85" "chb CHR ''s'' = 115"
  "chb CHR ''u'' = 117" "chb CHR ''I'' = 73" "chb CHR ''i'' = 105" "chb CHR ''l'' = 108" "chb CHR ''L'' = 76"
  "chb CHR ''f'' = 102" "chb CHR ''d'' = 100" "chb CHR ''D'' = 68" "chb CHR ''x'' = 120" "chb CHR ''S'' = 83"
  "chb CHR ''A'' = 65" "chb CHR ''T'' = 84" "chb CHR ''F'' = 70" "chb CHR ''V'' = 86"
  by (simp_all add: chb_def)

text \<open>A value takes at least one byte, so the loops never get stuck.\<close>

lemma read_scalar0_shorter: "read_scalar0 tb buf = Inr (v, rest) \<Longrightarrow> length rest \<le> length buf"
  by (auto simp: read_scalar0_def read_number0_def split: if_splits option.splits list.splits
      dest!: read_block0_length split_next_length)

lemma unmarshalValue0_shorter: "unmarshalValue0 buf = Inr (v, rest) \<Longrightarrow> length rest < length buf"
  by (auto simp: unmarshalValue0.simps [of buf] split: list.splits if_splits option.splits sum.splits
      dest!: read_block0_length read_scalar0_shorter)

lemma unmarshalArray0_loop:
  "unmarshalArray0 buf vs =
     (if buf = [] then Inr vs
      else case unmarshalValue0 buf of Inl e \<Rightarrow> Inl e | Inr (v, rest) \<Rightarrow> unmarshalArray0 rest (vs @ [v]))"
  by (auto simp: unmarshalArray0.simps [of buf] split: sum.splits dest: unmarshalValue0_shorter)

lemma UnmarshalTable0_loop:
  "UnmarshalTable0 (lb # buf) fs =
     (case split_next (unat lb) buf of None \<Rightarrow> Inl Underflow
      | Some (name, buf') \<Rightarrow>
        (case unmarshalValue0 buf' of Inl e \<Rightarrow> Inl e
         | Inr (v, rest) \<Rightarrow> UnmarshalTable0 rest (put_field (bytes_string name) v fs)))"
  by (auto simp: UnmarshalTable0.simps [of "lb # buf"] split: sum.splits option.splits
      dest!: unmarshalValue0_shorter split_next_length)

lemma read_number0_bytes [simp]:
  "n < 256 ^ k \<Longrightarrow> read_number0 k f (be_bytes k n @ rest) = Inr (NumberValue (f n), rest)"
  by (simp add: read_number0_def)

lemma read_block0_bytes:
  "length data = n \<Longrightarrow> n \<le> 4294967295 \<Longrightarrow> read_block0 (be_bytes 4 n @ data @ rest) = Some (data, rest)"
  by (auto simp: read_block0_def)

lemma read_block0_empty: "read_block0 (be_bytes 4 0 @ rest) = Some ([], rest)"
  using read_block0_bytes [of "[]" 0 rest] by simp

lemma unmarshal_number0: "unmarshalValue0 (marshalNumber0 b @ rest) = Inr (NumberValue (sent_number b), rest)"
proof (cases "f64_integral b")
  case True
  define n where "n = f64_to_i64 b"
  have r: "- (2 ^ 63) \<le> n" "n < 2 ^ 63" unfolding n_def by (rule f64_to_i64_range)+
  have s: "signed_value k (twos k n) = n" if "- (256 ^ k) \<le> 2 * n" "2 * n < 256 ^ k" for k
    using that by (rule signed_twos)
  show ?thesis
    using True r twos_less [of 1 n] twos_less [of 2 n] twos_less [of 4 n] twos_less [of 8 n]
    by (auto simp: marshalNumber0_def Let_def n_def [symmetric] unmarshalValue0.simps read_scalar0_def
        sent_number_def s simp del: be_bytes.simps)
next
  case False
  have "unat b < 256 ^ 8" using unsigned_less [of b, where ?'a = nat] by simp
  then show ?thesis
    using False by (simp add: marshalNumber0_def unmarshalValue0.simps read_scalar0_def sent_number_def)
qed

text \<open>What a value is after it was written and read back: an integral number went through
  \<^verbatim>\<open>int64\<close>, and an empty table is a nil one.\<close>

fun table_value :: "pvalue \<Rightarrow> pvalue" where
  "table_value (NumberValue b) = NumberValue (sent_number b)"
| "table_value (StructValue (Some m)) =
     (if m = [] then StructValue None else StructValue (Some (map (\<lambda>e. (fst e, table_value (snd e))) m)))"
| "table_value (ListValue vs) = ListValue (map table_value vs)"
| "table_value v = v"

lemma marshal_round_trip0:
  "\<And>bs rest. marshalValue0 v = Inr bs \<Longrightarrow> wf_value v \<Longrightarrow> unmarshalValue0 (bs @ rest) = Inr (table_value v, rest)"
  "\<And>bs acc. marshalArray0 vs = Inr bs \<Longrightarrow> list_all wf_value vs \<Longrightarrow>
     unmarshalArray0 bs acc = Inr (acc @ map table_value vs)"
  "\<And>bs fs. MarshalTable0 m = Inr bs \<Longrightarrow> list_all (\<lambda>e. wf_value (snd e)) m \<Longrightarrow> distinct (map fst (fs @ m)) \<Longrightarrow>
     UnmarshalTable0 bs fs = Inr (fs @ map (\<lambda>e. (fst e, table_value (snd e))) m)"
proof (induction v and vs and m rule: marshalValue0_marshalArray0_MarshalTable0.induct)
  case (2 b)
  then show ?case using unmarshal_number0 by auto
next
  case (6 m)
  obtain data where d: "MarshalTable0 m = Inr data" "int (length data) \<le> 4294967295"
      "bs = 70 # be_bytes 4 (length data) @ data"
    using 6(2) by (auto simp: marshalBlock0_def split: sum.splits if_splits)
  have e: "data = [] \<longleftrightarrow> m = []"
    using d(1) by (cases m) (auto split: sum.splits if_splits)
  have "UnmarshalTable0 data [] = Inr (map (\<lambda>e. (fst e, table_value (snd e))) m)"
    using 6(1) [OF d(1), of "[]"] 6(3) by simp
  then show ?case using d e by (simp add: unmarshalValue0.simps read_block0_bytes del: be_bytes.simps)
next
  case (7 vs)
  obtain data where d: "marshalArray0 vs = Inr data" "int (length data) \<le> 4294967295"
      "bs = 65 # be_bytes 4 (length data) @ data"
    using 7(2) by (auto simp: marshalBlock0_def split: sum.splits if_splits)
  then show ?case using 7(1) [OF d(1), of "[]"] 7(3)
    by (simp add: unmarshalValue0.simps read_block0_bytes del: be_bytes.simps)
next
  case (9 v vs)
  then obtain b b' where b: "marshalValue0 v = Inr b" "marshalArray0 vs = Inr b'" "bs = b @ b'"
    by (auto split: sum.splits)
  have u: "unmarshalValue0 (b @ b') = Inr (table_value v, b')" using 9 b by simp
  then have "b @ b' \<noteq> []" by (auto simp: unmarshalValue0.simps)
  then show ?case using 9 b u by (simp add: unmarshalArray0_loop [of "b @ b'"])
next
  case (11 name v m)
  then obtain b b' where b: "int (length name) \<le> 255" "marshalValue0 v = Inr b" "MarshalTable0 m = Inr b'"
      "bs = of_nat (length name) # string_bytes name @ b @ b'"
    by (auto split: sum.splits if_splits)
  have u: "unmarshalValue0 (b @ b') = Inr (table_value v, b')" using 11 b by simp
  have l: "unat (of_nat (length name) :: u8) = length name" using b(1) by (simp add: unat_of_nat_u8)
  have "UnmarshalTable0 b' (fs @ [(name, table_value v)]) =
      Inr (fs @ [(name, table_value v)] @ map (\<lambda>e. (fst e, table_value (snd e))) m)"
    using 11 b by simp
  then show ?case using 11(5) b u l by (simp add: UnmarshalTable0_loop put_field_new)
qed (auto simp: marshalBlock0_def unmarshalValue0.simps read_scalar0_def read_block0_bytes read_block0_empty
      unmarshalArray0.simps UnmarshalTable0.simps simp del: be_bytes.simps split: if_splits)

lemma table_value_same: "numbers_fit v \<Longrightarrow> same_value v (table_value v)"
proof (induction v rule: table_value.induct)
  case (1 b)
  then show ?case using sent_number_same [of b] by (auto simp: f64_eq_def)
next
  case (2 m)
  then show ?case by (auto simp: list_all_iff list.rel_map intro!: list.rel_refl_strong)
next
  case (3 vs)
  then show ?case by (auto simp: list_all_iff list.rel_map intro!: list.rel_refl_strong)
qed auto

text \<open>An integral number from \<open>2\<^sup>6\<^sup>3\<close> on does not survive: \<open>2\<^sup>6\<^sup>3\<close> itself comes back as \<open>- 2\<^sup>6\<^sup>3\<close>.\<close>

lemma huge_number_changes_sign:
  "unmarshalValue0 (marshalNumber0 4890909195324358656) = Inr (NumberValue 14114281232179134464, [])"
proof -
  have "sent_number 4890909195324358656 = 14114281232179134464" by code_simp
  then show ?thesis using unmarshal_number0 [of 4890909195324358656 "[]"] by simp
qed

subsection \<open>Properties\<close>

text \<open>(C34) A field table that can be written is read back with the same entries in the same order:
  when its integral numbers are finite and fit 64 bits, every value is the one that was
  written, but for the sign of a zero and for empty tables, which become nil.\<close>

theorem table_round_trip:
  assumes "MarshalTable t = Inr bs" and "wf_value (StructValue t)" and "numbers_fit (StructValue t)"
  shows "\<exists>t'. UnmarshalTable bs = Inr t' \<and> same_value (StructValue t) (StructValue t')"
proof (cases t)
  case None
  then show ?thesis using assms by (auto simp: MarshalTable_def UnmarshalTable_def)
next
  case (Some m)
  have m: "MarshalTable0 m = Inr bs" using assms(1) Some by (simp add: MarshalTable_def)
  have e: "bs = [] \<longleftrightarrow> m = []" using m by (cases m) (auto split: sum.splits if_splits)
  have "UnmarshalTable0 bs [] = Inr (map (\<lambda>e. (fst e, table_value (snd e))) m)"
    using marshal_round_trip0(3) [OF m, of "[]"] assms(2) Some by simp
  then show ?thesis
    using table_value_same [OF assms(3)] Some e by (cases "m = []") (auto simp: UnmarshalTable_def)
qed

definition demo_table :: pstruct where
  "demo_table = Some [(''ttl'', NumberValue 4617315517961601024), (''l'', ListValue [NullValue, BoolValue True]), (''k'', StructValue (Some [(''n'', StringValue ''v'')])), (''e'', StructValue None)]"

lemma demo_number_fits [simp]: "number_fits 4617315517961601024"
  by code_simp

theorem table_round_trip_witness:
  "MarshalTable demo_table \<noteq> Inl NameTooLong \<and>
   (\<exists>t'. UnmarshalTable (projr (MarshalTable demo_table)) = Inr t' \<and> same_value (StructValue demo_table) (StructValue t'))"
proof
  show "MarshalTable demo_table \<noteq> Inl NameTooLong"
    by (simp add: demo_table_def MarshalTable_def marshalBlock0_def)
  show "\<exists>t'. UnmarshalTable (projr (MarshalTable demo_table)) = Inr t' \<and> same_value (StructValue demo_table) (StructValue t')"
    by (rule table_round_trip) (simp_all add: demo_table_def MarshalTable_def marshalBlock0_def)
qed

end
