(* ===== verification/Amqp_V0_Fields.thy ===== *)
theory Amqp_V0_Fields
  imports Amqp_V0_Codec
begin

text \<open>
  The fields of AMQP 0.9.1 methods. The generated methods \<^verbatim>\<open>MarshalBuffer\<close> of
  \<^verbatim>\<open>amqp0-9-1.go\<close> write one field after the other; \<^verbatim>\<open>Unmarshal\<close> reads them into a new struct
  and refuses what is left over. Each kind of field is one definition for writing and one for
  reading. A method type is an instance of the locale \<open>method_codec\<close>.
\<close>

subsection \<open>Writing\<close>

definition write_octet :: "u8 \<Rightarrow> codec_error + bytes" where
  "write_octet v = Inr [v]"

definition write_uint :: "nat \<Rightarrow> 'a::len word \<Rightarrow> codec_error + bytes" where
  "write_uint k v = Inr (be_bytes k (unat v))"

definition write_shortstr :: "string \<Rightarrow> codec_error + bytes" where
  "write_shortstr s = (if length s > 255 then Inl ValueTooLong else Inr (of_nat (length s) # string_bytes s))"

definition write_longstr :: "string \<Rightarrow> codec_error + bytes" where
  "write_longstr s =
     (if int (length s) > 4294967295 then Inl ValueTooLong else Inr (be_bytes 4 (length s) @ string_bytes s))"

definition write_table :: "pstruct \<Rightarrow> codec_error + bytes" where
  "write_table t = (case MarshalTable t of Inl e \<Rightarrow> Inl e | Inr b \<Rightarrow> Inr (be_bytes 4 (length b) @ b))"

text \<open>Consecutive bits share a byte.\<close>

definition write_bits :: "(u8 \<times> bool) list \<Rightarrow> codec_error + bytes" where
  "write_bits fs = Inr [foldl (\<lambda>bits (m, v). if v then bits OR m else bits) 0 fs]"

fun write_fields :: "(codec_error + bytes) list \<Rightarrow> codec_error + bytes" where
  "write_fields [] = Inr []"
| "write_fields (w # ws) =
     (case w of Inl e \<Rightarrow> Inl e | Inr b \<Rightarrow> case write_fields ws of Inl e \<Rightarrow> Inl e | Inr bs \<Rightarrow> Inr (b @ bs))"

subsection \<open>Reading\<close>

definition read_octet :: "bytes \<Rightarrow> codec_error + u8 \<times> bytes" where
  "read_octet buf = (case buf of [] \<Rightarrow> Inl Underflow | b # rest \<Rightarrow> Inr (b, rest))"

definition read_uint :: "nat \<Rightarrow> bytes \<Rightarrow> codec_error + 'a::len word \<times> bytes" where
  "read_uint k buf =
     (case split_next k buf of None \<Rightarrow> Inl Underflow | Some (x, rest) \<Rightarrow> Inr (of_nat (be_value x), rest))"

definition read_shortstr :: "bytes \<Rightarrow> codec_error + string \<times> bytes" where
  "read_shortstr buf =
     (case buf of [] \<Rightarrow> Inl Underflow
      | b # buf' \<Rightarrow> (case split_next (unat b) buf' of None \<Rightarrow> Inl Underflow
        | Some (s, rest) \<Rightarrow> Inr (bytes_string s, rest)))"

definition read_longstr :: "bytes \<Rightarrow> codec_error + string \<times> bytes" where
  "read_longstr buf =
     (case read_block0 buf of None \<Rightarrow> Inl Underflow | Some (s, rest) \<Rightarrow> Inr (bytes_string s, rest))"

definition read_table :: "bytes \<Rightarrow> codec_error + pstruct \<times> bytes" where
  "read_table buf =
     (case read_block0 buf of None \<Rightarrow> Inl Underflow
      | Some (b, rest) \<Rightarrow> (case UnmarshalTable b of Inl e \<Rightarrow> Inl e | Inr t \<Rightarrow> Inr (t, rest)))"

text \<open>A reader of one or more fields stores what it reads; the record's update function says where.\<close>

type_synonym 'r storing = "'r \<Rightarrow> bytes \<Rightarrow> codec_error + 'r \<times> bytes"

definition store :: "(bytes \<Rightarrow> codec_error + 'a \<times> bytes) \<Rightarrow> (('a \<Rightarrow> 'a) \<Rightarrow> 'r \<Rightarrow> 'r) \<Rightarrow> 'r storing" where
  "store r upd t buf = (case r buf of Inl e \<Rightarrow> Inl e | Inr (v, rest) \<Rightarrow> Inr (upd (\<lambda>_. v) t, rest))"

definition read_bits :: "(u8 \<times> ((bool \<Rightarrow> bool) \<Rightarrow> 'r \<Rightarrow> 'r)) list \<Rightarrow> 'r storing" where
  "read_bits fs t buf =
     (case buf of [] \<Rightarrow> Inl Underflow
      | bits # rest \<Rightarrow> Inr (foldl (\<lambda>t (m, upd). upd (\<lambda>_. bits AND m = m) t) t fs, rest))"

fun read_all :: "'r storing list \<Rightarrow> 'r storing" where
  "read_all [] t buf = Inr (t, buf)"
| "read_all (f # fs) t buf = (case f t buf of Inl e \<Rightarrow> Inl e | Inr (t', rest) \<Rightarrow> read_all fs t' rest)"

definition read_method :: "'r storing list \<Rightarrow> 'r \<Rightarrow> bytes \<Rightarrow> codec_error + 'r" where
  "read_method fs zero data =
     (case read_all fs zero data of Inl e \<Rightarrow> Inl e
      | Inr (t, rest) \<Rightarrow> if rest \<noteq> [] then Inl Remains else Inr t)"

subsection \<open>Fields read back\<close>

named_theorems takes_intros \<open>what is written for a field is what is read\<close>

text \<open>From the state \<open>s\<close> the reader takes what was written and goes on with \<open>s'\<close>.\<close>

definition takes :: "codec_error + bytes \<Rightarrow> (bytes \<Rightarrow> codec_error + 'r \<times> bytes) \<Rightarrow> 'r \<Rightarrow> bool" where
  "takes w f s' \<longleftrightarrow> (\<forall>b rest. w = Inr b \<longrightarrow> length b < 4294967296 \<longrightarrow> f (b @ rest) = Inr (s', rest))"

fun all_take :: "'r \<Rightarrow> (codec_error + bytes) list \<Rightarrow> 'r storing list \<Rightarrow> 'r \<Rightarrow> bool" where
  "all_take t [] fs s \<longleftrightarrow> fs = [] \<and> s = t"
| "all_take t (w # ws) fs s \<longleftrightarrow> fs \<noteq> [] \<and> (\<exists>s'. takes w (hd fs s) s' \<and> all_take t ws (tl fs) s')"

lemma all_take_Cons: "takes w (f s) s' \<Longrightarrow> all_take t ws fs s' \<Longrightarrow> all_take t (w # ws) (f # fs) s"
  by auto

lemma read_all_written:
  "all_take t ws fs s \<Longrightarrow> write_fields ws = Inr bs \<Longrightarrow> length bs < 4294967296 \<Longrightarrow> read_all fs s (bs @ rest) = Inr (t, rest)"
proof (induction ws arbitrary: fs s bs)
  case (Cons w ws)
  then obtain f fs' s' where f: "fs = f # fs'" "takes w (f s) s'" "all_take t ws fs' s'"
    by (cases fs) auto
  from Cons.prems(2) obtain b bs' where b: "w = Inr b" "write_fields ws = Inr bs'" "bs = b @ bs'"
    by (auto split: sum.splits)
  then show ?case using Cons.IH [OF f(3) b(2)] f Cons.prems(3) by (simp add: takes_def)
qed simp

lemma read_method_written:
  "all_take t ws fs zero \<Longrightarrow> write_fields ws = Inr bs \<Longrightarrow> length bs < 4294967296 \<Longrightarrow> read_method fs zero bs = Inr t"
  using read_all_written [of t ws fs zero bs "[]"] by (simp add: read_method_def)

lemma takes_store:
  assumes "\<And>b rest. w = Inr b \<Longrightarrow> length b < 4294967296 \<Longrightarrow> r (b @ rest) = Inr (v, rest)"
  shows "takes w (store r upd s) (upd (\<lambda>_. v) s)"
  using assms by (auto simp: takes_def store_def)

lemma takes_octet [takes_intros]: "takes (write_octet v) (store read_octet upd s) (upd (\<lambda>_. v) s)"
  by (rule takes_store) (auto simp: write_octet_def read_octet_def)

lemma takes_uint [takes_intros]:
  "takes (write_uint 2 x) (store (read_uint 2) upd2 s) (upd2 (\<lambda>_. x) s)"
  "takes (write_uint 4 y) (store (read_uint 4) upd4 s) (upd4 (\<lambda>_. y) s)"
  "takes (write_uint 8 z) (store (read_uint 8) upd8 s) (upd8 (\<lambda>_. z) s)" for x :: u16 and y :: u32 and z :: u64
  by (rule takes_store; use unat_bound in \<open>auto simp: write_uint_def read_uint_def simp del: be_bytes.simps\<close>)+

lemma takes_shortstr [takes_intros]: "takes (write_shortstr v) (store read_shortstr upd s) (upd (\<lambda>_. v) s)"
  by (rule takes_store) (auto simp: write_shortstr_def read_shortstr_def unat_of_nat_u8 split: if_splits)

lemma takes_longstr [takes_intros]: "takes (write_longstr v) (store read_longstr upd s) (upd (\<lambda>_. v) s)"
  by (rule takes_store)
    (auto simp: write_longstr_def read_longstr_def read_block0_bytes split: if_splits simp del: be_bytes.simps)

text \<open>A table that is read back as it is: well formed, not empty unless nil, with numbers that survive.\<close>

definition plain_table :: "pstruct \<Rightarrow> bool" where
  "plain_table t \<longleftrightarrow> wf_value (StructValue t) \<and> table_value (StructValue t) = StructValue t"

lemma plain_table_None [simp]: "plain_table None"
  by (simp add: plain_table_def)

lemma plain_table_read:
  assumes "plain_table t" and "MarshalTable t = Inr b"
  shows "UnmarshalTable b = Inr t"
proof (cases t)
  case None
  then show ?thesis using assms by (simp add: MarshalTable_def UnmarshalTable_def)
next
  case (Some m)
  have m: "MarshalTable0 m = Inr b" using assms(2) Some by (simp add: MarshalTable_def)
  have v: "m \<noteq> []" "map (\<lambda>e. (fst e, table_value (snd e))) m = m"
    using assms(1) Some by (auto simp: plain_table_def split: if_splits)
  have "b \<noteq> []" using m v(1) by (cases m) (auto split: sum.splits if_splits)
  then show ?thesis
    using marshal_round_trip0(3) [OF m, of "[]"] assms(1) v Some by (simp add: UnmarshalTable_def plain_table_def)
qed

lemma takes_table [takes_intros]: "plain_table v \<Longrightarrow> takes (write_table v) (store read_table upd s) (upd (\<lambda>_. v) s)"
  by (rule takes_store)
    (auto simp: write_table_def read_table_def read_block0_bytes plain_table_read split: sum.splits simp del: be_bytes.simps)

lemma takes_bits [takes_intros]:
  "takes (write_bits [(1, a)]) (read_bits [(1, ua)] s) (ua (\<lambda>_. a) s)"
  "takes (write_bits [(1, a), (2, b)]) (read_bits [(1, ua), (2, ub)] s) (ub (\<lambda>_. b) (ua (\<lambda>_. a) s))"
  "takes (write_bits [(1, a), (2, b), (4, c)]) (read_bits [(1, ua), (2, ub), (4, uc)] s)
     (uc (\<lambda>_. c) (ub (\<lambda>_. b) (ua (\<lambda>_. a) s)))"
  "takes (write_bits [(1, a), (2, b), (4, c), (8, d)]) (read_bits [(1, ua), (2, ub), (4, uc), (8, ud)] s)
     (ud (\<lambda>_. d) (uc (\<lambda>_. c) (ub (\<lambda>_. b) (ua (\<lambda>_. a) s))))"
  "takes (write_bits [(1, a), (2, b), (4, c), (8, d), (16, e)])
     (read_bits [(1, ua), (2, ub), (4, uc), (8, ud), (16, ue)] s)
     (ue (\<lambda>_. e) (ud (\<lambda>_. d) (uc (\<lambda>_. c) (ub (\<lambda>_. b) (ua (\<lambda>_. a) s)))))"
  by (cases a; cases b; cases c; cases d; cases e; simp add: takes_def write_bits_def read_bits_def)+

subsection \<open>The interface of a method type\<close>

locale method_codec =
  fixes Marshal :: "'r \<Rightarrow> codec_error + bytes"
    and Unmarshal :: "bytes \<Rightarrow> codec_error + 'r"
    and valid :: "'r \<Rightarrow> bool"
  assumes read_back: "valid t \<Longrightarrow> Marshal t = Inr bs \<Longrightarrow> length bs < 4294967296 \<Longrightarrow> Unmarshal bs = Inr t"
begin

text \<open>As an argument of the frame that \<^verbatim>\<open>decodeMethodFrame\<close> returns.\<close>

lemma read_back_as:
  "valid t \<Longrightarrow> Marshal t = Inr bs \<Longrightarrow> length bs < 4294967296 \<Longrightarrow> map_sum id frame (Unmarshal bs) = Inr (frame t)"
  using read_back by simp

lemma same_bytes_same_method:
  "valid t \<Longrightarrow> valid u \<Longrightarrow> Marshal t = Inr bs \<Longrightarrow> Marshal u = Inr bs \<Longrightarrow> length bs < 4294967296 \<Longrightarrow> t = u"
  using read_back [of t bs] read_back [of u bs] by simp

end

lemma method_codecI:
  assumes "\<And>t. valid t \<Longrightarrow> all_take t (ws t) fs zero"
  shows "method_codec (\<lambda>t. write_fields (ws t)) (read_method fs zero) valid"
  by unfold_locales (rule read_method_written [OF assms])

end
