(* ===== verification/Amqp_V0_Connection.thy ===== *)
theory Amqp_V0_Connection
  imports Amqp_V0_Fields
begin

text \<open>
  The methods of the classes connection, channel and tx of AMQP 0.9.1: a record for each method with
  fields, its \<^verbatim>\<open>MarshalBuffer\<close> and \<^verbatim>\<open>Unmarshal\<close>, the frames of a class, the method
  identifiers of \<^verbatim>\<open>FixMethodMeta\<close>, and the part of \<^verbatim>\<open>decodeMethodFrame\<close> for the class.
\<close>

subsection \<open>Class connection\<close>

record ConnectionStart =
  ConnectionStart_VersionMajor :: u8
  ConnectionStart_VersionMinor :: u8
  ConnectionStart_ServerProperties :: pstruct
  ConnectionStart_Mechanisms :: string
  ConnectionStart_Locales :: string

definition ConnectionStart_MarshalBuffer :: "ConnectionStart \<Rightarrow> codec_error + bytes" where
  "ConnectionStart_MarshalBuffer f = write_fields
     [write_octet (ConnectionStart_VersionMajor f), write_octet (ConnectionStart_VersionMinor f),
      write_table (ConnectionStart_ServerProperties f), write_longstr (ConnectionStart_Mechanisms f),
      write_longstr (ConnectionStart_Locales f)]"

definition ConnectionStart_Unmarshal :: "bytes \<Rightarrow> codec_error + ConnectionStart" where
  "ConnectionStart_Unmarshal = read_method
     [store read_octet ConnectionStart_VersionMajor_update, store read_octet ConnectionStart_VersionMinor_update,
      store read_table ConnectionStart_ServerProperties_update, store read_longstr ConnectionStart_Mechanisms_update,
      store read_longstr ConnectionStart_Locales_update]
     \<lparr>ConnectionStart_VersionMajor = 0, ConnectionStart_VersionMinor = 0, ConnectionStart_ServerProperties = None,
      ConnectionStart_Mechanisms = [], ConnectionStart_Locales = []\<rparr>"

interpretation ConnectionStart_codec: method_codec ConnectionStart_MarshalBuffer ConnectionStart_Unmarshal "\<lambda>f. plain_table (ConnectionStart_ServerProperties f)"
  unfolding ConnectionStart_MarshalBuffer_def [abs_def] ConnectionStart_Unmarshal_def
  by (rule method_codecI, (rule all_take_Cons takes_intros | simp; fail)+)

record ConnectionStartOk =
  ConnectionStartOk_ClientProperties :: pstruct
  ConnectionStartOk_Mechanism :: string
  ConnectionStartOk_Response :: string
  ConnectionStartOk_Locale :: string

definition ConnectionStartOk_MarshalBuffer :: "ConnectionStartOk \<Rightarrow> codec_error + bytes" where
  "ConnectionStartOk_MarshalBuffer f = write_fields
     [write_table (ConnectionStartOk_ClientProperties f), write_shortstr (ConnectionStartOk_Mechanism f),
      write_longstr (ConnectionStartOk_Response f), write_shortstr (ConnectionStartOk_Locale f)]"

definition ConnectionStartOk_Unmarshal :: "bytes \<Rightarrow> codec_error + ConnectionStartOk" where
  "ConnectionStartOk_Unmarshal = read_method
     [store read_table ConnectionStartOk_ClientProperties_update,
      store read_shortstr ConnectionStartOk_Mechanism_update, store read_longstr ConnectionStartOk_Response_update,
      store read_shortstr ConnectionStartOk_Locale_update]
     \<lparr>ConnectionStartOk_ClientProperties = None, ConnectionStartOk_Mechanism = [], ConnectionStartOk_Response = [],
      ConnectionStartOk_Locale = []\<rparr>"

interpretation ConnectionStartOk_codec: method_codec ConnectionStartOk_MarshalBuffer ConnectionStartOk_Unmarshal "\<lambda>f. plain_table (ConnectionStartOk_ClientProperties f)"
  unfolding ConnectionStartOk_MarshalBuffer_def [abs_def] ConnectionStartOk_Unmarshal_def
  by (rule method_codecI, (rule all_take_Cons takes_intros | simp; fail)+)

record ConnectionSecure =
  ConnectionSecure_Challenge :: string

definition ConnectionSecure_MarshalBuffer :: "ConnectionSecure \<Rightarrow> codec_error + bytes" where
  "ConnectionSecure_MarshalBuffer f = write_fields
     [write_longstr (ConnectionSecure_Challenge f)]"

definition ConnectionSecure_Unmarshal :: "bytes \<Rightarrow> codec_error + ConnectionSecure" where
  "ConnectionSecure_Unmarshal = read_method
     [store read_longstr ConnectionSecure_Challenge_update]
     \<lparr>ConnectionSecure_Challenge = []\<rparr>"

interpretation ConnectionSecure_codec: method_codec ConnectionSecure_MarshalBuffer ConnectionSecure_Unmarshal "\<lambda>_. True"
  unfolding ConnectionSecure_MarshalBuffer_def [abs_def] ConnectionSecure_Unmarshal_def
  by (rule method_codecI, (rule all_take_Cons takes_intros | simp; fail)+)

record ConnectionSecureOk =
  ConnectionSecureOk_Response :: string

definition ConnectionSecureOk_MarshalBuffer :: "ConnectionSecureOk \<Rightarrow> codec_error + bytes" where
  "ConnectionSecureOk_MarshalBuffer f = write_fields
     [write_longstr (ConnectionSecureOk_Response f)]"

definition ConnectionSecureOk_Unmarshal :: "bytes \<Rightarrow> codec_error + ConnectionSecureOk" where
  "ConnectionSecureOk_Unmarshal = read_method
     [store read_longstr ConnectionSecureOk_Response_update]
     \<lparr>ConnectionSecureOk_Response = []\<rparr>"

interpretation ConnectionSecureOk_codec: method_codec ConnectionSecureOk_MarshalBuffer ConnectionSecureOk_Unmarshal "\<lambda>_. True"
  unfolding ConnectionSecureOk_MarshalBuffer_def [abs_def] ConnectionSecureOk_Unmarshal_def
  by (rule method_codecI, (rule all_take_Cons takes_intros | simp; fail)+)

record ConnectionTune =
  ConnectionTune_ChannelMax :: u16
  ConnectionTune_FrameMax :: u32
  ConnectionTune_Heartbeat :: u16

definition ConnectionTune_MarshalBuffer :: "ConnectionTune \<Rightarrow> codec_error + bytes" where
  "ConnectionTune_MarshalBuffer f = write_fields
     [write_uint 2 (ConnectionTune_ChannelMax f), write_uint 4 (ConnectionTune_FrameMax f),
      write_uint 2 (ConnectionTune_Heartbeat f)]"

definition ConnectionTune_Unmarshal :: "bytes \<Rightarrow> codec_error + ConnectionTune" where
  "ConnectionTune_Unmarshal = read_method
     [store (read_uint 2) ConnectionTune_ChannelMax_update, store (read_uint 4) ConnectionTune_FrameMax_update,
      store (read_uint 2) ConnectionTune_Heartbeat_update]
     \<lparr>ConnectionTune_ChannelMax = 0, ConnectionTune_FrameMax = 0, ConnectionTune_Heartbeat = 0\<rparr>"

interpretation ConnectionTune_codec: method_codec ConnectionTune_MarshalBuffer ConnectionTune_Unmarshal "\<lambda>_. True"
  unfolding ConnectionTune_MarshalBuffer_def [abs_def] ConnectionTune_Unmarshal_def
  by (rule method_codecI, (rule all_take_Cons takes_intros | simp; fail)+)

record ConnectionTuneOk =
  ConnectionTuneOk_ChannelMax :: u16
  ConnectionTuneOk_FrameMax :: u32
  ConnectionTuneOk_Heartbeat :: u16

definition ConnectionTuneOk_MarshalBuffer :: "ConnectionTuneOk \<Rightarrow> codec_error + bytes" where
  "ConnectionTuneOk_MarshalBuffer f = write_fields
     [write_uint 2 (ConnectionTuneOk_ChannelMax f), write_uint 4 (ConnectionTuneOk_FrameMax f),
      write_uint 2 (ConnectionTuneOk_Heartbeat f)]"

definition ConnectionTuneOk_Unmarshal :: "bytes \<Rightarrow> codec_error + ConnectionTuneOk" where
  "ConnectionTuneOk_Unmarshal = read_method
     [store (read_uint 2) ConnectionTuneOk_ChannelMax_update, store (read_uint 4) ConnectionTuneOk_FrameMax_update,
      store (read_uint 2) ConnectionTuneOk_Heartbeat_update]
     \<lparr>ConnectionTuneOk_ChannelMax = 0, ConnectionTuneOk_FrameMax = 0, ConnectionTuneOk_Heartbeat = 0\<rparr>"

interpretation ConnectionTuneOk_codec: method_codec ConnectionTuneOk_MarshalBuffer ConnectionTuneOk_Unmarshal "\<lambda>_. True"
  unfolding ConnectionTuneOk_MarshalBuffer_def [abs_def] ConnectionTuneOk_Unmarshal_def
  by (rule method_codecI, (rule all_take_Cons takes_intros | simp; fail)+)

record ConnectionOpen =
  ConnectionOpen_VirtualHost :: string
  ConnectionOpen_Reserved1 :: string
  ConnectionOpen_Reserved2 :: bool

definition ConnectionOpen_MarshalBuffer :: "ConnectionOpen \<Rightarrow> codec_error + bytes" where
  "ConnectionOpen_MarshalBuffer f = write_fields
     [write_shortstr (ConnectionOpen_VirtualHost f), write_shortstr (ConnectionOpen_Reserved1 f),
      write_bits [(1, ConnectionOpen_Reserved2 f)]]"

definition ConnectionOpen_Unmarshal :: "bytes \<Rightarrow> codec_error + ConnectionOpen" where
  "ConnectionOpen_Unmarshal = read_method
     [store read_shortstr ConnectionOpen_VirtualHost_update, store read_shortstr ConnectionOpen_Reserved1_update,
      read_bits [(1, ConnectionOpen_Reserved2_update)]]
     \<lparr>ConnectionOpen_VirtualHost = [], ConnectionOpen_Reserved1 = [], ConnectionOpen_Reserved2 = False\<rparr>"

interpretation ConnectionOpen_codec: method_codec ConnectionOpen_MarshalBuffer ConnectionOpen_Unmarshal "\<lambda>_. True"
  unfolding ConnectionOpen_MarshalBuffer_def [abs_def] ConnectionOpen_Unmarshal_def
  by (rule method_codecI, (rule all_take_Cons takes_intros | simp; fail)+)

record ConnectionOpenOk =
  ConnectionOpenOk_Reserved1 :: string

definition ConnectionOpenOk_MarshalBuffer :: "ConnectionOpenOk \<Rightarrow> codec_error + bytes" where
  "ConnectionOpenOk_MarshalBuffer f = write_fields
     [write_shortstr (ConnectionOpenOk_Reserved1 f)]"

definition ConnectionOpenOk_Unmarshal :: "bytes \<Rightarrow> codec_error + ConnectionOpenOk" where
  "ConnectionOpenOk_Unmarshal = read_method
     [store read_shortstr ConnectionOpenOk_Reserved1_update]
     \<lparr>ConnectionOpenOk_Reserved1 = []\<rparr>"

interpretation ConnectionOpenOk_codec: method_codec ConnectionOpenOk_MarshalBuffer ConnectionOpenOk_Unmarshal "\<lambda>_. True"
  unfolding ConnectionOpenOk_MarshalBuffer_def [abs_def] ConnectionOpenOk_Unmarshal_def
  by (rule method_codecI, (rule all_take_Cons takes_intros | simp; fail)+)

record ConnectionClose =
  ConnectionClose_ReplyCode :: u16
  ConnectionClose_ReplyText :: string
  ConnectionClose_ClassID :: u16
  ConnectionClose_MethodID :: u16

definition ConnectionClose_MarshalBuffer :: "ConnectionClose \<Rightarrow> codec_error + bytes" where
  "ConnectionClose_MarshalBuffer f = write_fields
     [write_uint 2 (ConnectionClose_ReplyCode f), write_shortstr (ConnectionClose_ReplyText f),
      write_uint 2 (ConnectionClose_ClassID f), write_uint 2 (ConnectionClose_MethodID f)]"

definition ConnectionClose_Unmarshal :: "bytes \<Rightarrow> codec_error + ConnectionClose" where
  "ConnectionClose_Unmarshal = read_method
     [store (read_uint 2) ConnectionClose_ReplyCode_update, store read_shortstr ConnectionClose_ReplyText_update,
      store (read_uint 2) ConnectionClose_ClassID_update, store (read_uint 2) ConnectionClose_MethodID_update]
     \<lparr>ConnectionClose_ReplyCode = 0, ConnectionClose_ReplyText = [], ConnectionClose_ClassID = 0,
      ConnectionClose_MethodID = 0\<rparr>"

interpretation ConnectionClose_codec: method_codec ConnectionClose_MarshalBuffer ConnectionClose_Unmarshal "\<lambda>_. True"
  unfolding ConnectionClose_MarshalBuffer_def [abs_def] ConnectionClose_Unmarshal_def
  by (rule method_codecI, (rule all_take_Cons takes_intros | simp; fail)+)

datatype ConnectionFrame =
    ConnectionStartFrame ConnectionStart
  | ConnectionStartOkFrame ConnectionStartOk
  | ConnectionSecureFrame ConnectionSecure
  | ConnectionSecureOkFrame ConnectionSecureOk
  | ConnectionTuneFrame ConnectionTune
  | ConnectionTuneOkFrame ConnectionTuneOk
  | ConnectionOpenFrame ConnectionOpen
  | ConnectionOpenOkFrame ConnectionOpenOk
  | ConnectionCloseFrame ConnectionClose
  | ConnectionCloseOkFrame

fun Connection_MethodID :: "ConnectionFrame \<Rightarrow> u16" where
  "Connection_MethodID (ConnectionStartFrame _) = 10"
| "Connection_MethodID (ConnectionStartOkFrame _) = 11"
| "Connection_MethodID (ConnectionSecureFrame _) = 20"
| "Connection_MethodID (ConnectionSecureOkFrame _) = 21"
| "Connection_MethodID (ConnectionTuneFrame _) = 30"
| "Connection_MethodID (ConnectionTuneOkFrame _) = 31"
| "Connection_MethodID (ConnectionOpenFrame _) = 40"
| "Connection_MethodID (ConnectionOpenOkFrame _) = 41"
| "Connection_MethodID (ConnectionCloseFrame _) = 50"
| "Connection_MethodID ConnectionCloseOkFrame = 51"

fun Connection_MarshalBuffer :: "ConnectionFrame \<Rightarrow> codec_error + bytes" where
  "Connection_MarshalBuffer (ConnectionStartFrame f) = ConnectionStart_MarshalBuffer f"
| "Connection_MarshalBuffer (ConnectionStartOkFrame f) = ConnectionStartOk_MarshalBuffer f"
| "Connection_MarshalBuffer (ConnectionSecureFrame f) = ConnectionSecure_MarshalBuffer f"
| "Connection_MarshalBuffer (ConnectionSecureOkFrame f) = ConnectionSecureOk_MarshalBuffer f"
| "Connection_MarshalBuffer (ConnectionTuneFrame f) = ConnectionTune_MarshalBuffer f"
| "Connection_MarshalBuffer (ConnectionTuneOkFrame f) = ConnectionTuneOk_MarshalBuffer f"
| "Connection_MarshalBuffer (ConnectionOpenFrame f) = ConnectionOpen_MarshalBuffer f"
| "Connection_MarshalBuffer (ConnectionOpenOkFrame f) = ConnectionOpenOk_MarshalBuffer f"
| "Connection_MarshalBuffer (ConnectionCloseFrame f) = ConnectionClose_MarshalBuffer f"
| "Connection_MarshalBuffer ConnectionCloseOkFrame = Inr []"

definition Connection_decode :: "u16 \<Rightarrow> bytes \<Rightarrow> codec_error + ConnectionFrame" where
  "Connection_decode method data =
     (if method = 10 then map_sum id ConnectionStartFrame (ConnectionStart_Unmarshal data)
      else if method = 11 then map_sum id ConnectionStartOkFrame (ConnectionStartOk_Unmarshal data)
      else if method = 20 then map_sum id ConnectionSecureFrame (ConnectionSecure_Unmarshal data)
      else if method = 21 then map_sum id ConnectionSecureOkFrame (ConnectionSecureOk_Unmarshal data)
      else if method = 30 then map_sum id ConnectionTuneFrame (ConnectionTune_Unmarshal data)
      else if method = 31 then map_sum id ConnectionTuneOkFrame (ConnectionTuneOk_Unmarshal data)
      else if method = 40 then map_sum id ConnectionOpenFrame (ConnectionOpen_Unmarshal data)
      else if method = 41 then map_sum id ConnectionOpenOkFrame (ConnectionOpenOk_Unmarshal data)
      else if method = 50 then map_sum id ConnectionCloseFrame (ConnectionClose_Unmarshal data)
      else if method = 51 then (if data = [] then Inr ConnectionCloseOkFrame else Inl Remains)
      else Inl UnhandledMethod)"

fun valid_Connection :: "ConnectionFrame \<Rightarrow> bool" where
  "valid_Connection (ConnectionStartFrame f) \<longleftrightarrow> plain_table (ConnectionStart_ServerProperties f)"
| "valid_Connection (ConnectionStartOkFrame f) \<longleftrightarrow> plain_table (ConnectionStartOk_ClientProperties f)"
| "valid_Connection _ \<longleftrightarrow> True"

lemmas Connection_read_back =
  ConnectionStart_codec.read_back_as ConnectionStartOk_codec.read_back_as ConnectionSecure_codec.read_back_as
  ConnectionSecureOk_codec.read_back_as ConnectionTune_codec.read_back_as ConnectionTuneOk_codec.read_back_as
  ConnectionOpen_codec.read_back_as ConnectionOpenOk_codec.read_back_as ConnectionClose_codec.read_back_as

lemma Connection_decoded:
  "valid_Connection f \<Longrightarrow> Connection_MarshalBuffer f = Inr bs \<Longrightarrow> length bs < 4294967296 \<Longrightarrow> Connection_decode (Connection_MethodID f) bs = Inr f"
  by (cases f) (simp_all add: Connection_decode_def Connection_read_back)

subsection \<open>Class channel\<close>

record ChannelOpen =
  ChannelOpen_Reserved1 :: string

definition ChannelOpen_MarshalBuffer :: "ChannelOpen \<Rightarrow> codec_error + bytes" where
  "ChannelOpen_MarshalBuffer f = write_fields
     [write_shortstr (ChannelOpen_Reserved1 f)]"

definition ChannelOpen_Unmarshal :: "bytes \<Rightarrow> codec_error + ChannelOpen" where
  "ChannelOpen_Unmarshal = read_method
     [store read_shortstr ChannelOpen_Reserved1_update]
     \<lparr>ChannelOpen_Reserved1 = []\<rparr>"

interpretation ChannelOpen_codec: method_codec ChannelOpen_MarshalBuffer ChannelOpen_Unmarshal "\<lambda>_. True"
  unfolding ChannelOpen_MarshalBuffer_def [abs_def] ChannelOpen_Unmarshal_def
  by (rule method_codecI, (rule all_take_Cons takes_intros | simp; fail)+)

record ChannelOpenOk =
  ChannelOpenOk_Reserved1 :: string

definition ChannelOpenOk_MarshalBuffer :: "ChannelOpenOk \<Rightarrow> codec_error + bytes" where
  "ChannelOpenOk_MarshalBuffer f = write_fields
     [write_longstr (ChannelOpenOk_Reserved1 f)]"

definition ChannelOpenOk_Unmarshal :: "bytes \<Rightarrow> codec_error + ChannelOpenOk" where
  "ChannelOpenOk_Unmarshal = read_method
     [store read_longstr ChannelOpenOk_Reserved1_update]
     \<lparr>ChannelOpenOk_Reserved1 = []\<rparr>"

interpretation ChannelOpenOk_codec: method_codec ChannelOpenOk_MarshalBuffer ChannelOpenOk_Unmarshal "\<lambda>_. True"
  unfolding ChannelOpenOk_MarshalBuffer_def [abs_def] ChannelOpenOk_Unmarshal_def
  by (rule method_codecI, (rule all_take_Cons takes_intros | simp; fail)+)

record ChannelFlow =
  ChannelFlow_Active :: bool

definition ChannelFlow_MarshalBuffer :: "ChannelFlow \<Rightarrow> codec_error + bytes" where
  "ChannelFlow_MarshalBuffer f = write_fields
     [write_bits [(1, ChannelFlow_Active f)]]"

definition ChannelFlow_Unmarshal :: "bytes \<Rightarrow> codec_error + ChannelFlow" where
  "ChannelFlow_Unmarshal = read_method
     [read_bits [(1, ChannelFlow_Active_update)]]
     \<lparr>ChannelFlow_Active = False\<rparr>"

interpretation ChannelFlow_codec: method_codec ChannelFlow_MarshalBuffer ChannelFlow_Unmarshal "\<lambda>_. True"
  unfolding ChannelFlow_MarshalBuffer_def [abs_def] ChannelFlow_Unmarshal_def
  by (rule method_codecI, (rule all_take_Cons takes_intros | simp; fail)+)

record ChannelFlowOk =
  ChannelFlowOk_Active :: bool

definition ChannelFlowOk_MarshalBuffer :: "ChannelFlowOk \<Rightarrow> codec_error + bytes" where
  "ChannelFlowOk_MarshalBuffer f = write_fields
     [write_bits [(1, ChannelFlowOk_Active f)]]"

definition ChannelFlowOk_Unmarshal :: "bytes \<Rightarrow> codec_error + ChannelFlowOk" where
  "ChannelFlowOk_Unmarshal = read_method
     [read_bits [(1, ChannelFlowOk_Active_update)]]
     \<lparr>ChannelFlowOk_Active = False\<rparr>"

interpretation ChannelFlowOk_codec: method_codec ChannelFlowOk_MarshalBuffer ChannelFlowOk_Unmarshal "\<lambda>_. True"
  unfolding ChannelFlowOk_MarshalBuffer_def [abs_def] ChannelFlowOk_Unmarshal_def
  by (rule method_codecI, (rule all_take_Cons takes_intros | simp; fail)+)

record ChannelClose =
  ChannelClose_ReplyCode :: u16
  ChannelClose_ReplyText :: string
  ChannelClose_ClassID :: u16
  ChannelClose_MethodID :: u16

definition ChannelClose_MarshalBuffer :: "ChannelClose \<Rightarrow> codec_error + bytes" where
  "ChannelClose_MarshalBuffer f = write_fields
     [write_uint 2 (ChannelClose_ReplyCode f), write_shortstr (ChannelClose_ReplyText f),
      write_uint 2 (ChannelClose_ClassID f), write_uint 2 (ChannelClose_MethodID f)]"

definition ChannelClose_Unmarshal :: "bytes \<Rightarrow> codec_error + ChannelClose" where
  "ChannelClose_Unmarshal = read_method
     [store (read_uint 2) ChannelClose_ReplyCode_update, store read_shortstr ChannelClose_ReplyText_update,
      store (read_uint 2) ChannelClose_ClassID_update, store (read_uint 2) ChannelClose_MethodID_update]
     \<lparr>ChannelClose_ReplyCode = 0, ChannelClose_ReplyText = [], ChannelClose_ClassID = 0, ChannelClose_MethodID = 0\<rparr>"

interpretation ChannelClose_codec: method_codec ChannelClose_MarshalBuffer ChannelClose_Unmarshal "\<lambda>_. True"
  unfolding ChannelClose_MarshalBuffer_def [abs_def] ChannelClose_Unmarshal_def
  by (rule method_codecI, (rule all_take_Cons takes_intros | simp; fail)+)

datatype ChannelFrame =
    ChannelOpenFrame ChannelOpen
  | ChannelOpenOkFrame ChannelOpenOk
  | ChannelFlowFrame ChannelFlow
  | ChannelFlowOkFrame ChannelFlowOk
  | ChannelCloseFrame ChannelClose
  | ChannelCloseOkFrame

fun Channel_MethodID :: "ChannelFrame \<Rightarrow> u16" where
  "Channel_MethodID (ChannelOpenFrame _) = 10"
| "Channel_MethodID (ChannelOpenOkFrame _) = 11"
| "Channel_MethodID (ChannelFlowFrame _) = 20"
| "Channel_MethodID (ChannelFlowOkFrame _) = 21"
| "Channel_MethodID (ChannelCloseFrame _) = 40"
| "Channel_MethodID ChannelCloseOkFrame = 41"

fun Channel_MarshalBuffer :: "ChannelFrame \<Rightarrow> codec_error + bytes" where
  "Channel_MarshalBuffer (ChannelOpenFrame f) = ChannelOpen_MarshalBuffer f"
| "Channel_MarshalBuffer (ChannelOpenOkFrame f) = ChannelOpenOk_MarshalBuffer f"
| "Channel_MarshalBuffer (ChannelFlowFrame f) = ChannelFlow_MarshalBuffer f"
| "Channel_MarshalBuffer (ChannelFlowOkFrame f) = ChannelFlowOk_MarshalBuffer f"
| "Channel_MarshalBuffer (ChannelCloseFrame f) = ChannelClose_MarshalBuffer f"
| "Channel_MarshalBuffer ChannelCloseOkFrame = Inr []"

definition Channel_decode :: "u16 \<Rightarrow> bytes \<Rightarrow> codec_error + ChannelFrame" where
  "Channel_decode method data =
     (if method = 10 then map_sum id ChannelOpenFrame (ChannelOpen_Unmarshal data)
      else if method = 11 then map_sum id ChannelOpenOkFrame (ChannelOpenOk_Unmarshal data)
      else if method = 20 then map_sum id ChannelFlowFrame (ChannelFlow_Unmarshal data)
      else if method = 21 then map_sum id ChannelFlowOkFrame (ChannelFlowOk_Unmarshal data)
      else if method = 40 then map_sum id ChannelCloseFrame (ChannelClose_Unmarshal data)
      else if method = 41 then (if data = [] then Inr ChannelCloseOkFrame else Inl Remains)
      else Inl UnhandledMethod)"

lemmas Channel_read_back =
  ChannelOpen_codec.read_back_as ChannelOpenOk_codec.read_back_as ChannelFlow_codec.read_back_as
  ChannelFlowOk_codec.read_back_as ChannelClose_codec.read_back_as

lemma Channel_decoded:
  "Channel_MarshalBuffer f = Inr bs \<Longrightarrow> length bs < 4294967296 \<Longrightarrow> Channel_decode (Channel_MethodID f) bs = Inr f"
  by (cases f) (simp_all add: Channel_decode_def Channel_read_back)

subsection \<open>Class tx\<close>

datatype TxFrame =
    TxSelectFrame
  | TxSelectOkFrame
  | TxCommitFrame
  | TxCommitOkFrame
  | TxRollbackFrame
  | TxRollbackOkFrame

fun Tx_MethodID :: "TxFrame \<Rightarrow> u16" where
  "Tx_MethodID TxSelectFrame = 10"
| "Tx_MethodID TxSelectOkFrame = 11"
| "Tx_MethodID TxCommitFrame = 20"
| "Tx_MethodID TxCommitOkFrame = 21"
| "Tx_MethodID TxRollbackFrame = 30"
| "Tx_MethodID TxRollbackOkFrame = 31"

fun Tx_MarshalBuffer :: "TxFrame \<Rightarrow> codec_error + bytes" where
  "Tx_MarshalBuffer TxSelectFrame = Inr []"
| "Tx_MarshalBuffer TxSelectOkFrame = Inr []"
| "Tx_MarshalBuffer TxCommitFrame = Inr []"
| "Tx_MarshalBuffer TxCommitOkFrame = Inr []"
| "Tx_MarshalBuffer TxRollbackFrame = Inr []"
| "Tx_MarshalBuffer TxRollbackOkFrame = Inr []"

definition Tx_decode :: "u16 \<Rightarrow> bytes \<Rightarrow> codec_error + TxFrame" where
  "Tx_decode method data =
     (if method = 10 then (if data = [] then Inr TxSelectFrame else Inl Remains)
      else if method = 11 then (if data = [] then Inr TxSelectOkFrame else Inl Remains)
      else if method = 20 then (if data = [] then Inr TxCommitFrame else Inl Remains)
      else if method = 21 then (if data = [] then Inr TxCommitOkFrame else Inl Remains)
      else if method = 30 then (if data = [] then Inr TxRollbackFrame else Inl Remains)
      else if method = 31 then (if data = [] then Inr TxRollbackOkFrame else Inl Remains)
      else Inl UnhandledMethod)"

lemma Tx_decoded:
  "Tx_MarshalBuffer f = Inr bs \<Longrightarrow> length bs < 4294967296 \<Longrightarrow> Tx_decode (Tx_MethodID f) bs = Inr f"
  by (cases f) (simp_all add: Tx_decode_def)

end
