(* ===== verification/Amqp_V0_Queue.thy ===== *)
theory Amqp_V0_Queue
  imports Amqp_V0_Fields
begin

text \<open>
  The methods of the classes exchange and queue of AMQP 0.9.1.
\<close>

subsection \<open>Class exchange\<close>

record ExchangeDeclare =
  ExchangeDeclare_Reserved1 :: u16
  ExchangeDeclare_Exchange :: string
  ExchangeDeclare_Type :: string
  ExchangeDeclare_Passive :: bool
  ExchangeDeclare_Durable :: bool
  ExchangeDeclare_AutoDelete :: bool
  ExchangeDeclare_Internal :: bool
  ExchangeDeclare_NoWait :: bool
  ExchangeDeclare_Arguments :: pstruct

definition ExchangeDeclare_MarshalBuffer :: "ExchangeDeclare \<Rightarrow> codec_error + bytes" where
  "ExchangeDeclare_MarshalBuffer f = write_fields
     [write_uint 2 (ExchangeDeclare_Reserved1 f), write_shortstr (ExchangeDeclare_Exchange f),
      write_shortstr (ExchangeDeclare_Type f),
      write_bits [(1, ExchangeDeclare_Passive f), (2, ExchangeDeclare_Durable f), (4, ExchangeDeclare_AutoDelete f), (8, ExchangeDeclare_Internal f), (16, ExchangeDeclare_NoWait f)],
      write_table (ExchangeDeclare_Arguments f)]"

definition ExchangeDeclare_Unmarshal :: "bytes \<Rightarrow> codec_error + ExchangeDeclare" where
  "ExchangeDeclare_Unmarshal = read_method
     [store (read_uint 2) ExchangeDeclare_Reserved1_update, store read_shortstr ExchangeDeclare_Exchange_update,
      store read_shortstr ExchangeDeclare_Type_update,
      read_bits [(1, ExchangeDeclare_Passive_update), (2, ExchangeDeclare_Durable_update), (4, ExchangeDeclare_AutoDelete_update), (8, ExchangeDeclare_Internal_update), (16, ExchangeDeclare_NoWait_update)],
      store read_table ExchangeDeclare_Arguments_update]
     \<lparr>ExchangeDeclare_Reserved1 = 0, ExchangeDeclare_Exchange = [], ExchangeDeclare_Type = [],
      ExchangeDeclare_Passive = False, ExchangeDeclare_Durable = False, ExchangeDeclare_AutoDelete = False,
      ExchangeDeclare_Internal = False, ExchangeDeclare_NoWait = False, ExchangeDeclare_Arguments = None\<rparr>"

interpretation ExchangeDeclare_codec: method_codec ExchangeDeclare_MarshalBuffer ExchangeDeclare_Unmarshal "\<lambda>f. plain_table (ExchangeDeclare_Arguments f)"
  unfolding ExchangeDeclare_MarshalBuffer_def [abs_def] ExchangeDeclare_Unmarshal_def
  by (rule method_codecI, (rule all_take_Cons takes_intros | simp; fail)+)

record ExchangeDelete =
  ExchangeDelete_Reserved1 :: u16
  ExchangeDelete_Exchange :: string
  ExchangeDelete_IfUnused :: bool
  ExchangeDelete_NoWait :: bool

definition ExchangeDelete_MarshalBuffer :: "ExchangeDelete \<Rightarrow> codec_error + bytes" where
  "ExchangeDelete_MarshalBuffer f = write_fields
     [write_uint 2 (ExchangeDelete_Reserved1 f), write_shortstr (ExchangeDelete_Exchange f),
      write_bits [(1, ExchangeDelete_IfUnused f), (2, ExchangeDelete_NoWait f)]]"

definition ExchangeDelete_Unmarshal :: "bytes \<Rightarrow> codec_error + ExchangeDelete" where
  "ExchangeDelete_Unmarshal = read_method
     [store (read_uint 2) ExchangeDelete_Reserved1_update, store read_shortstr ExchangeDelete_Exchange_update,
      read_bits [(1, ExchangeDelete_IfUnused_update), (2, ExchangeDelete_NoWait_update)]]
     \<lparr>ExchangeDelete_Reserved1 = 0, ExchangeDelete_Exchange = [], ExchangeDelete_IfUnused = False,
      ExchangeDelete_NoWait = False\<rparr>"

interpretation ExchangeDelete_codec: method_codec ExchangeDelete_MarshalBuffer ExchangeDelete_Unmarshal "\<lambda>_. True"
  unfolding ExchangeDelete_MarshalBuffer_def [abs_def] ExchangeDelete_Unmarshal_def
  by (rule method_codecI, (rule all_take_Cons takes_intros | simp; fail)+)

datatype ExchangeFrame =
    ExchangeDeclareFrame ExchangeDeclare
  | ExchangeDeclareOkFrame
  | ExchangeDeleteFrame ExchangeDelete
  | ExchangeDeleteOkFrame

fun Exchange_MethodID :: "ExchangeFrame \<Rightarrow> u16" where
  "Exchange_MethodID (ExchangeDeclareFrame _) = 10"
| "Exchange_MethodID ExchangeDeclareOkFrame = 11"
| "Exchange_MethodID (ExchangeDeleteFrame _) = 20"
| "Exchange_MethodID ExchangeDeleteOkFrame = 21"

fun Exchange_MarshalBuffer :: "ExchangeFrame \<Rightarrow> codec_error + bytes" where
  "Exchange_MarshalBuffer (ExchangeDeclareFrame f) = ExchangeDeclare_MarshalBuffer f"
| "Exchange_MarshalBuffer ExchangeDeclareOkFrame = Inr []"
| "Exchange_MarshalBuffer (ExchangeDeleteFrame f) = ExchangeDelete_MarshalBuffer f"
| "Exchange_MarshalBuffer ExchangeDeleteOkFrame = Inr []"

definition Exchange_decode :: "u16 \<Rightarrow> bytes \<Rightarrow> codec_error + ExchangeFrame" where
  "Exchange_decode method data =
     (if method = 10 then map_sum id ExchangeDeclareFrame (ExchangeDeclare_Unmarshal data)
      else if method = 11 then (if data = [] then Inr ExchangeDeclareOkFrame else Inl Remains)
      else if method = 20 then map_sum id ExchangeDeleteFrame (ExchangeDelete_Unmarshal data)
      else if method = 21 then (if data = [] then Inr ExchangeDeleteOkFrame else Inl Remains)
      else Inl UnhandledMethod)"

fun valid_Exchange :: "ExchangeFrame \<Rightarrow> bool" where
  "valid_Exchange (ExchangeDeclareFrame f) \<longleftrightarrow> plain_table (ExchangeDeclare_Arguments f)"
| "valid_Exchange _ \<longleftrightarrow> True"

lemmas Exchange_read_back =
  ExchangeDeclare_codec.read_back_as ExchangeDelete_codec.read_back_as

lemma Exchange_decoded:
  "valid_Exchange f \<Longrightarrow> Exchange_MarshalBuffer f = Inr bs \<Longrightarrow> length bs < 4294967296 \<Longrightarrow> Exchange_decode (Exchange_MethodID f) bs = Inr f"
  by (cases f) (simp_all add: Exchange_decode_def Exchange_read_back)

subsection \<open>Class queue\<close>

record QueueDeclare =
  QueueDeclare_Reserved1 :: u16
  QueueDeclare_Queue :: string
  QueueDeclare_Passive :: bool
  QueueDeclare_Durable :: bool
  QueueDeclare_Exclusive :: bool
  QueueDeclare_AutoDelete :: bool
  QueueDeclare_NoWait :: bool
  QueueDeclare_Arguments :: pstruct

definition QueueDeclare_MarshalBuffer :: "QueueDeclare \<Rightarrow> codec_error + bytes" where
  "QueueDeclare_MarshalBuffer f = write_fields
     [write_uint 2 (QueueDeclare_Reserved1 f), write_shortstr (QueueDeclare_Queue f),
      write_bits [(1, QueueDeclare_Passive f), (2, QueueDeclare_Durable f), (4, QueueDeclare_Exclusive f), (8, QueueDeclare_AutoDelete f), (16, QueueDeclare_NoWait f)],
      write_table (QueueDeclare_Arguments f)]"

definition QueueDeclare_Unmarshal :: "bytes \<Rightarrow> codec_error + QueueDeclare" where
  "QueueDeclare_Unmarshal = read_method
     [store (read_uint 2) QueueDeclare_Reserved1_update, store read_shortstr QueueDeclare_Queue_update,
      read_bits [(1, QueueDeclare_Passive_update), (2, QueueDeclare_Durable_update), (4, QueueDeclare_Exclusive_update), (8, QueueDeclare_AutoDelete_update), (16, QueueDeclare_NoWait_update)],
      store read_table QueueDeclare_Arguments_update]
     \<lparr>QueueDeclare_Reserved1 = 0, QueueDeclare_Queue = [], QueueDeclare_Passive = False,
      QueueDeclare_Durable = False, QueueDeclare_Exclusive = False, QueueDeclare_AutoDelete = False,
      QueueDeclare_NoWait = False, QueueDeclare_Arguments = None\<rparr>"

interpretation QueueDeclare_codec: method_codec QueueDeclare_MarshalBuffer QueueDeclare_Unmarshal "\<lambda>f. plain_table (QueueDeclare_Arguments f)"
  unfolding QueueDeclare_MarshalBuffer_def [abs_def] QueueDeclare_Unmarshal_def
  by (rule method_codecI, (rule all_take_Cons takes_intros | simp; fail)+)

record QueueDeclareOk =
  QueueDeclareOk_Queue :: string
  QueueDeclareOk_MessageCount :: u32
  QueueDeclareOk_ConsumerCount :: u32

definition QueueDeclareOk_MarshalBuffer :: "QueueDeclareOk \<Rightarrow> codec_error + bytes" where
  "QueueDeclareOk_MarshalBuffer f = write_fields
     [write_shortstr (QueueDeclareOk_Queue f), write_uint 4 (QueueDeclareOk_MessageCount f),
      write_uint 4 (QueueDeclareOk_ConsumerCount f)]"

definition QueueDeclareOk_Unmarshal :: "bytes \<Rightarrow> codec_error + QueueDeclareOk" where
  "QueueDeclareOk_Unmarshal = read_method
     [store read_shortstr QueueDeclareOk_Queue_update, store (read_uint 4) QueueDeclareOk_MessageCount_update,
      store (read_uint 4) QueueDeclareOk_ConsumerCount_update]
     \<lparr>QueueDeclareOk_Queue = [], QueueDeclareOk_MessageCount = 0, QueueDeclareOk_ConsumerCount = 0\<rparr>"

interpretation QueueDeclareOk_codec: method_codec QueueDeclareOk_MarshalBuffer QueueDeclareOk_Unmarshal "\<lambda>_. True"
  unfolding QueueDeclareOk_MarshalBuffer_def [abs_def] QueueDeclareOk_Unmarshal_def
  by (rule method_codecI, (rule all_take_Cons takes_intros | simp; fail)+)

record QueueBind =
  QueueBind_Reserved1 :: u16
  QueueBind_Queue :: string
  QueueBind_Exchange :: string
  QueueBind_RoutingKey :: string
  QueueBind_NoWait :: bool
  QueueBind_Arguments :: pstruct

definition QueueBind_MarshalBuffer :: "QueueBind \<Rightarrow> codec_error + bytes" where
  "QueueBind_MarshalBuffer f = write_fields
     [write_uint 2 (QueueBind_Reserved1 f), write_shortstr (QueueBind_Queue f),
      write_shortstr (QueueBind_Exchange f), write_shortstr (QueueBind_RoutingKey f),
      write_bits [(1, QueueBind_NoWait f)], write_table (QueueBind_Arguments f)]"

definition QueueBind_Unmarshal :: "bytes \<Rightarrow> codec_error + QueueBind" where
  "QueueBind_Unmarshal = read_method
     [store (read_uint 2) QueueBind_Reserved1_update, store read_shortstr QueueBind_Queue_update,
      store read_shortstr QueueBind_Exchange_update, store read_shortstr QueueBind_RoutingKey_update,
      read_bits [(1, QueueBind_NoWait_update)], store read_table QueueBind_Arguments_update]
     \<lparr>QueueBind_Reserved1 = 0, QueueBind_Queue = [], QueueBind_Exchange = [], QueueBind_RoutingKey = [],
      QueueBind_NoWait = False, QueueBind_Arguments = None\<rparr>"

interpretation QueueBind_codec: method_codec QueueBind_MarshalBuffer QueueBind_Unmarshal "\<lambda>f. plain_table (QueueBind_Arguments f)"
  unfolding QueueBind_MarshalBuffer_def [abs_def] QueueBind_Unmarshal_def
  by (rule method_codecI, (rule all_take_Cons takes_intros | simp; fail)+)

record QueueUnbind =
  QueueUnbind_Reserved1 :: u16
  QueueUnbind_Queue :: string
  QueueUnbind_Exchange :: string
  QueueUnbind_RoutingKey :: string
  QueueUnbind_Arguments :: pstruct

definition QueueUnbind_MarshalBuffer :: "QueueUnbind \<Rightarrow> codec_error + bytes" where
  "QueueUnbind_MarshalBuffer f = write_fields
     [write_uint 2 (QueueUnbind_Reserved1 f), write_shortstr (QueueUnbind_Queue f),
      write_shortstr (QueueUnbind_Exchange f), write_shortstr (QueueUnbind_RoutingKey f),
      write_table (QueueUnbind_Arguments f)]"

definition QueueUnbind_Unmarshal :: "bytes \<Rightarrow> codec_error + QueueUnbind" where
  "QueueUnbind_Unmarshal = read_method
     [store (read_uint 2) QueueUnbind_Reserved1_update, store read_shortstr QueueUnbind_Queue_update,
      store read_shortstr QueueUnbind_Exchange_update, store read_shortstr QueueUnbind_RoutingKey_update,
      store read_table QueueUnbind_Arguments_update]
     \<lparr>QueueUnbind_Reserved1 = 0, QueueUnbind_Queue = [], QueueUnbind_Exchange = [], QueueUnbind_RoutingKey = [],
      QueueUnbind_Arguments = None\<rparr>"

interpretation QueueUnbind_codec: method_codec QueueUnbind_MarshalBuffer QueueUnbind_Unmarshal "\<lambda>f. plain_table (QueueUnbind_Arguments f)"
  unfolding QueueUnbind_MarshalBuffer_def [abs_def] QueueUnbind_Unmarshal_def
  by (rule method_codecI, (rule all_take_Cons takes_intros | simp; fail)+)

record QueuePurge =
  QueuePurge_Reserved1 :: u16
  QueuePurge_Queue :: string
  QueuePurge_NoWait :: bool

definition QueuePurge_MarshalBuffer :: "QueuePurge \<Rightarrow> codec_error + bytes" where
  "QueuePurge_MarshalBuffer f = write_fields
     [write_uint 2 (QueuePurge_Reserved1 f), write_shortstr (QueuePurge_Queue f),
      write_bits [(1, QueuePurge_NoWait f)]]"

definition QueuePurge_Unmarshal :: "bytes \<Rightarrow> codec_error + QueuePurge" where
  "QueuePurge_Unmarshal = read_method
     [store (read_uint 2) QueuePurge_Reserved1_update, store read_shortstr QueuePurge_Queue_update,
      read_bits [(1, QueuePurge_NoWait_update)]]
     \<lparr>QueuePurge_Reserved1 = 0, QueuePurge_Queue = [], QueuePurge_NoWait = False\<rparr>"

interpretation QueuePurge_codec: method_codec QueuePurge_MarshalBuffer QueuePurge_Unmarshal "\<lambda>_. True"
  unfolding QueuePurge_MarshalBuffer_def [abs_def] QueuePurge_Unmarshal_def
  by (rule method_codecI, (rule all_take_Cons takes_intros | simp; fail)+)

record QueuePurgeOk =
  QueuePurgeOk_MessageCount :: u32

definition QueuePurgeOk_MarshalBuffer :: "QueuePurgeOk \<Rightarrow> codec_error + bytes" where
  "QueuePurgeOk_MarshalBuffer f = write_fields
     [write_uint 4 (QueuePurgeOk_MessageCount f)]"

definition QueuePurgeOk_Unmarshal :: "bytes \<Rightarrow> codec_error + QueuePurgeOk" where
  "QueuePurgeOk_Unmarshal = read_method
     [store (read_uint 4) QueuePurgeOk_MessageCount_update]
     \<lparr>QueuePurgeOk_MessageCount = 0\<rparr>"

interpretation QueuePurgeOk_codec: method_codec QueuePurgeOk_MarshalBuffer QueuePurgeOk_Unmarshal "\<lambda>_. True"
  unfolding QueuePurgeOk_MarshalBuffer_def [abs_def] QueuePurgeOk_Unmarshal_def
  by (rule method_codecI, (rule all_take_Cons takes_intros | simp; fail)+)

record QueueDelete =
  QueueDelete_Reserved1 :: u16
  QueueDelete_Queue :: string
  QueueDelete_IfUnused :: bool
  QueueDelete_IfEmpty :: bool
  QueueDelete_NoWait :: bool

definition QueueDelete_MarshalBuffer :: "QueueDelete \<Rightarrow> codec_error + bytes" where
  "QueueDelete_MarshalBuffer f = write_fields
     [write_uint 2 (QueueDelete_Reserved1 f), write_shortstr (QueueDelete_Queue f),
      write_bits [(1, QueueDelete_IfUnused f), (2, QueueDelete_IfEmpty f), (4, QueueDelete_NoWait f)]]"

definition QueueDelete_Unmarshal :: "bytes \<Rightarrow> codec_error + QueueDelete" where
  "QueueDelete_Unmarshal = read_method
     [store (read_uint 2) QueueDelete_Reserved1_update, store read_shortstr QueueDelete_Queue_update,
      read_bits [(1, QueueDelete_IfUnused_update), (2, QueueDelete_IfEmpty_update), (4, QueueDelete_NoWait_update)]]
     \<lparr>QueueDelete_Reserved1 = 0, QueueDelete_Queue = [], QueueDelete_IfUnused = False, QueueDelete_IfEmpty = False,
      QueueDelete_NoWait = False\<rparr>"

interpretation QueueDelete_codec: method_codec QueueDelete_MarshalBuffer QueueDelete_Unmarshal "\<lambda>_. True"
  unfolding QueueDelete_MarshalBuffer_def [abs_def] QueueDelete_Unmarshal_def
  by (rule method_codecI, (rule all_take_Cons takes_intros | simp; fail)+)

record QueueDeleteOk =
  QueueDeleteOk_MessageCount :: u32

definition QueueDeleteOk_MarshalBuffer :: "QueueDeleteOk \<Rightarrow> codec_error + bytes" where
  "QueueDeleteOk_MarshalBuffer f = write_fields
     [write_uint 4 (QueueDeleteOk_MessageCount f)]"

definition QueueDeleteOk_Unmarshal :: "bytes \<Rightarrow> codec_error + QueueDeleteOk" where
  "QueueDeleteOk_Unmarshal = read_method
     [store (read_uint 4) QueueDeleteOk_MessageCount_update]
     \<lparr>QueueDeleteOk_MessageCount = 0\<rparr>"

interpretation QueueDeleteOk_codec: method_codec QueueDeleteOk_MarshalBuffer QueueDeleteOk_Unmarshal "\<lambda>_. True"
  unfolding QueueDeleteOk_MarshalBuffer_def [abs_def] QueueDeleteOk_Unmarshal_def
  by (rule method_codecI, (rule all_take_Cons takes_intros | simp; fail)+)

datatype QueueFrame =
    QueueDeclareFrame QueueDeclare
  | QueueDeclareOkFrame QueueDeclareOk
  | QueueBindFrame QueueBind
  | QueueBindOkFrame
  | QueueUnbindFrame QueueUnbind
  | QueueUnbindOkFrame
  | QueuePurgeFrame QueuePurge
  | QueuePurgeOkFrame QueuePurgeOk
  | QueueDeleteFrame QueueDelete
  | QueueDeleteOkFrame QueueDeleteOk

fun Queue_MethodID :: "QueueFrame \<Rightarrow> u16" where
  "Queue_MethodID (QueueDeclareFrame _) = 10"
| "Queue_MethodID (QueueDeclareOkFrame _) = 11"
| "Queue_MethodID (QueueBindFrame _) = 20"
| "Queue_MethodID QueueBindOkFrame = 21"
| "Queue_MethodID (QueueUnbindFrame _) = 50"
| "Queue_MethodID QueueUnbindOkFrame = 51"
| "Queue_MethodID (QueuePurgeFrame _) = 30"
| "Queue_MethodID (QueuePurgeOkFrame _) = 31"
| "Queue_MethodID (QueueDeleteFrame _) = 40"
| "Queue_MethodID (QueueDeleteOkFrame _) = 41"

fun Queue_MarshalBuffer :: "QueueFrame \<Rightarrow> codec_error + bytes" where
  "Queue_MarshalBuffer (QueueDeclareFrame f) = QueueDeclare_MarshalBuffer f"
| "Queue_MarshalBuffer (QueueDeclareOkFrame f) = QueueDeclareOk_MarshalBuffer f"
| "Queue_MarshalBuffer (QueueBindFrame f) = QueueBind_MarshalBuffer f"
| "Queue_MarshalBuffer QueueBindOkFrame = Inr []"
| "Queue_MarshalBuffer (QueueUnbindFrame f) = QueueUnbind_MarshalBuffer f"
| "Queue_MarshalBuffer QueueUnbindOkFrame = Inr []"
| "Queue_MarshalBuffer (QueuePurgeFrame f) = QueuePurge_MarshalBuffer f"
| "Queue_MarshalBuffer (QueuePurgeOkFrame f) = QueuePurgeOk_MarshalBuffer f"
| "Queue_MarshalBuffer (QueueDeleteFrame f) = QueueDelete_MarshalBuffer f"
| "Queue_MarshalBuffer (QueueDeleteOkFrame f) = QueueDeleteOk_MarshalBuffer f"

definition Queue_decode :: "u16 \<Rightarrow> bytes \<Rightarrow> codec_error + QueueFrame" where
  "Queue_decode method data =
     (if method = 10 then map_sum id QueueDeclareFrame (QueueDeclare_Unmarshal data)
      else if method = 11 then map_sum id QueueDeclareOkFrame (QueueDeclareOk_Unmarshal data)
      else if method = 20 then map_sum id QueueBindFrame (QueueBind_Unmarshal data)
      else if method = 21 then (if data = [] then Inr QueueBindOkFrame else Inl Remains)
      else if method = 50 then map_sum id QueueUnbindFrame (QueueUnbind_Unmarshal data)
      else if method = 51 then (if data = [] then Inr QueueUnbindOkFrame else Inl Remains)
      else if method = 30 then map_sum id QueuePurgeFrame (QueuePurge_Unmarshal data)
      else if method = 31 then map_sum id QueuePurgeOkFrame (QueuePurgeOk_Unmarshal data)
      else if method = 40 then map_sum id QueueDeleteFrame (QueueDelete_Unmarshal data)
      else if method = 41 then map_sum id QueueDeleteOkFrame (QueueDeleteOk_Unmarshal data)
      else Inl UnhandledMethod)"

fun valid_Queue :: "QueueFrame \<Rightarrow> bool" where
  "valid_Queue (QueueDeclareFrame f) \<longleftrightarrow> plain_table (QueueDeclare_Arguments f)"
| "valid_Queue (QueueBindFrame f) \<longleftrightarrow> plain_table (QueueBind_Arguments f)"
| "valid_Queue (QueueUnbindFrame f) \<longleftrightarrow> plain_table (QueueUnbind_Arguments f)"
| "valid_Queue _ \<longleftrightarrow> True"

lemmas Queue_read_back =
  QueueDeclare_codec.read_back_as QueueDeclareOk_codec.read_back_as QueueBind_codec.read_back_as
  QueueUnbind_codec.read_back_as QueuePurge_codec.read_back_as QueuePurgeOk_codec.read_back_as
  QueueDelete_codec.read_back_as QueueDeleteOk_codec.read_back_as

lemma Queue_decoded:
  "valid_Queue f \<Longrightarrow> Queue_MarshalBuffer f = Inr bs \<Longrightarrow> length bs < 4294967296 \<Longrightarrow> Queue_decode (Queue_MethodID f) bs = Inr f"
  by (cases f) (simp_all add: Queue_decode_def Queue_read_back)

end
