(* ===== verification/Amqp_V0_Basic.thy ===== *)
theory Amqp_V0_Basic
  imports Amqp_V0_Fields
begin

text \<open>
  The methods of the class basic of AMQP 0.9.1.
\<close>

subsection \<open>Class basic\<close>

record BasicQos =
  BasicQos_PrefetchSize :: u32
  BasicQos_PrefetchCount :: u16
  BasicQos_Global :: bool

definition BasicQos_MarshalBuffer :: "BasicQos \<Rightarrow> codec_error + bytes" where
  "BasicQos_MarshalBuffer f = write_fields
     [write_uint 4 (BasicQos_PrefetchSize f), write_uint 2 (BasicQos_PrefetchCount f),
      write_bits [(1, BasicQos_Global f)]]"

definition BasicQos_Unmarshal :: "bytes \<Rightarrow> codec_error + BasicQos" where
  "BasicQos_Unmarshal = read_method
     [store (read_uint 4) BasicQos_PrefetchSize_update, store (read_uint 2) BasicQos_PrefetchCount_update,
      read_bits [(1, BasicQos_Global_update)]]
     \<lparr>BasicQos_PrefetchSize = 0, BasicQos_PrefetchCount = 0, BasicQos_Global = False\<rparr>"

interpretation BasicQos_codec: method_codec BasicQos_MarshalBuffer BasicQos_Unmarshal "\<lambda>_. True"
  unfolding BasicQos_MarshalBuffer_def [abs_def] BasicQos_Unmarshal_def
  by (rule method_codecI, (rule all_take_Cons takes_intros | simp; fail)+)

record BasicConsume =
  BasicConsume_Reserved1 :: u16
  BasicConsume_Queue :: string
  BasicConsume_ConsumerTag :: string
  BasicConsume_NoLocal :: bool
  BasicConsume_NoAck :: bool
  BasicConsume_Exclusive :: bool
  BasicConsume_NoWait :: bool
  BasicConsume_Arguments :: pstruct

definition BasicConsume_MarshalBuffer :: "BasicConsume \<Rightarrow> codec_error + bytes" where
  "BasicConsume_MarshalBuffer f = write_fields
     [write_uint 2 (BasicConsume_Reserved1 f), write_shortstr (BasicConsume_Queue f),
      write_shortstr (BasicConsume_ConsumerTag f),
      write_bits [(1, BasicConsume_NoLocal f), (2, BasicConsume_NoAck f), (4, BasicConsume_Exclusive f), (8, BasicConsume_NoWait f)],
      write_table (BasicConsume_Arguments f)]"

definition BasicConsume_Unmarshal :: "bytes \<Rightarrow> codec_error + BasicConsume" where
  "BasicConsume_Unmarshal = read_method
     [store (read_uint 2) BasicConsume_Reserved1_update, store read_shortstr BasicConsume_Queue_update,
      store read_shortstr BasicConsume_ConsumerTag_update,
      read_bits [(1, BasicConsume_NoLocal_update), (2, BasicConsume_NoAck_update), (4, BasicConsume_Exclusive_update), (8, BasicConsume_NoWait_update)],
      store read_table BasicConsume_Arguments_update]
     \<lparr>BasicConsume_Reserved1 = 0, BasicConsume_Queue = [], BasicConsume_ConsumerTag = [],
      BasicConsume_NoLocal = False, BasicConsume_NoAck = False, BasicConsume_Exclusive = False,
      BasicConsume_NoWait = False, BasicConsume_Arguments = None\<rparr>"

interpretation BasicConsume_codec: method_codec BasicConsume_MarshalBuffer BasicConsume_Unmarshal "\<lambda>f. plain_table (BasicConsume_Arguments f)"
  unfolding BasicConsume_MarshalBuffer_def [abs_def] BasicConsume_Unmarshal_def
  by (rule method_codecI, (rule all_take_Cons takes_intros | simp; fail)+)

record BasicConsumeOk =
  BasicConsumeOk_ConsumerTag :: string

definition BasicConsumeOk_MarshalBuffer :: "BasicConsumeOk \<Rightarrow> codec_error + bytes" where
  "BasicConsumeOk_MarshalBuffer f = write_fields
     [write_shortstr (BasicConsumeOk_ConsumerTag f)]"

definition BasicConsumeOk_Unmarshal :: "bytes \<Rightarrow> codec_error + BasicConsumeOk" where
  "BasicConsumeOk_Unmarshal = read_method
     [store read_shortstr BasicConsumeOk_ConsumerTag_update]
     \<lparr>BasicConsumeOk_ConsumerTag = []\<rparr>"

interpretation BasicConsumeOk_codec: method_codec BasicConsumeOk_MarshalBuffer BasicConsumeOk_Unmarshal "\<lambda>_. True"
  unfolding BasicConsumeOk_MarshalBuffer_def [abs_def] BasicConsumeOk_Unmarshal_def
  by (rule method_codecI, (rule all_take_Cons takes_intros | simp; fail)+)

record BasicCancel =
  BasicCancel_ConsumerTag :: string
  BasicCancel_NoWait :: bool

definition BasicCancel_MarshalBuffer :: "BasicCancel \<Rightarrow> codec_error + bytes" where
  "BasicCancel_MarshalBuffer f = write_fields
     [write_shortstr (BasicCancel_ConsumerTag f), write_bits [(1, BasicCancel_NoWait f)]]"

definition BasicCancel_Unmarshal :: "bytes \<Rightarrow> codec_error + BasicCancel" where
  "BasicCancel_Unmarshal = read_method
     [store read_shortstr BasicCancel_ConsumerTag_update, read_bits [(1, BasicCancel_NoWait_update)]]
     \<lparr>BasicCancel_ConsumerTag = [], BasicCancel_NoWait = False\<rparr>"

interpretation BasicCancel_codec: method_codec BasicCancel_MarshalBuffer BasicCancel_Unmarshal "\<lambda>_. True"
  unfolding BasicCancel_MarshalBuffer_def [abs_def] BasicCancel_Unmarshal_def
  by (rule method_codecI, (rule all_take_Cons takes_intros | simp; fail)+)

record BasicCancelOk =
  BasicCancelOk_ConsumerTag :: string

definition BasicCancelOk_MarshalBuffer :: "BasicCancelOk \<Rightarrow> codec_error + bytes" where
  "BasicCancelOk_MarshalBuffer f = write_fields
     [write_shortstr (BasicCancelOk_ConsumerTag f)]"

definition BasicCancelOk_Unmarshal :: "bytes \<Rightarrow> codec_error + BasicCancelOk" where
  "BasicCancelOk_Unmarshal = read_method
     [store read_shortstr BasicCancelOk_ConsumerTag_update]
     \<lparr>BasicCancelOk_ConsumerTag = []\<rparr>"

interpretation BasicCancelOk_codec: method_codec BasicCancelOk_MarshalBuffer BasicCancelOk_Unmarshal "\<lambda>_. True"
  unfolding BasicCancelOk_MarshalBuffer_def [abs_def] BasicCancelOk_Unmarshal_def
  by (rule method_codecI, (rule all_take_Cons takes_intros | simp; fail)+)

record BasicPublish =
  BasicPublish_Reserved1 :: u16
  BasicPublish_Exchange :: string
  BasicPublish_RoutingKey :: string
  BasicPublish_Mandatory :: bool
  BasicPublish_Immediate :: bool

definition BasicPublish_MarshalBuffer :: "BasicPublish \<Rightarrow> codec_error + bytes" where
  "BasicPublish_MarshalBuffer f = write_fields
     [write_uint 2 (BasicPublish_Reserved1 f), write_shortstr (BasicPublish_Exchange f),
      write_shortstr (BasicPublish_RoutingKey f),
      write_bits [(1, BasicPublish_Mandatory f), (2, BasicPublish_Immediate f)]]"

definition BasicPublish_Unmarshal :: "bytes \<Rightarrow> codec_error + BasicPublish" where
  "BasicPublish_Unmarshal = read_method
     [store (read_uint 2) BasicPublish_Reserved1_update, store read_shortstr BasicPublish_Exchange_update,
      store read_shortstr BasicPublish_RoutingKey_update,
      read_bits [(1, BasicPublish_Mandatory_update), (2, BasicPublish_Immediate_update)]]
     \<lparr>BasicPublish_Reserved1 = 0, BasicPublish_Exchange = [], BasicPublish_RoutingKey = [],
      BasicPublish_Mandatory = False, BasicPublish_Immediate = False\<rparr>"

interpretation BasicPublish_codec: method_codec BasicPublish_MarshalBuffer BasicPublish_Unmarshal "\<lambda>_. True"
  unfolding BasicPublish_MarshalBuffer_def [abs_def] BasicPublish_Unmarshal_def
  by (rule method_codecI, (rule all_take_Cons takes_intros | simp; fail)+)

record BasicReturn =
  BasicReturn_ReplyCode :: u16
  BasicReturn_ReplyText :: string
  BasicReturn_Exchange :: string
  BasicReturn_RoutingKey :: string

definition BasicReturn_MarshalBuffer :: "BasicReturn \<Rightarrow> codec_error + bytes" where
  "BasicReturn_MarshalBuffer f = write_fields
     [write_uint 2 (BasicReturn_ReplyCode f), write_shortstr (BasicReturn_ReplyText f),
      write_shortstr (BasicReturn_Exchange f), write_shortstr (BasicReturn_RoutingKey f)]"

definition BasicReturn_Unmarshal :: "bytes \<Rightarrow> codec_error + BasicReturn" where
  "BasicReturn_Unmarshal = read_method
     [store (read_uint 2) BasicReturn_ReplyCode_update, store read_shortstr BasicReturn_ReplyText_update,
      store read_shortstr BasicReturn_Exchange_update, store read_shortstr BasicReturn_RoutingKey_update]
     \<lparr>BasicReturn_ReplyCode = 0, BasicReturn_ReplyText = [], BasicReturn_Exchange = [], BasicReturn_RoutingKey = []\<rparr>"

interpretation BasicReturn_codec: method_codec BasicReturn_MarshalBuffer BasicReturn_Unmarshal "\<lambda>_. True"
  unfolding BasicReturn_MarshalBuffer_def [abs_def] BasicReturn_Unmarshal_def
  by (rule method_codecI, (rule all_take_Cons takes_intros | simp; fail)+)

record BasicDeliver =
  BasicDeliver_ConsumerTag :: string
  BasicDeliver_DeliveryTag :: u64
  BasicDeliver_Redelivered :: bool
  BasicDeliver_Exchange :: string
  BasicDeliver_RoutingKey :: string

definition BasicDeliver_MarshalBuffer :: "BasicDeliver \<Rightarrow> codec_error + bytes" where
  "BasicDeliver_MarshalBuffer f = write_fields
     [write_shortstr (BasicDeliver_ConsumerTag f), write_uint 8 (BasicDeliver_DeliveryTag f),
      write_bits [(1, BasicDeliver_Redelivered f)], write_shortstr (BasicDeliver_Exchange f),
      write_shortstr (BasicDeliver_RoutingKey f)]"

definition BasicDeliver_Unmarshal :: "bytes \<Rightarrow> codec_error + BasicDeliver" where
  "BasicDeliver_Unmarshal = read_method
     [store read_shortstr BasicDeliver_ConsumerTag_update, store (read_uint 8) BasicDeliver_DeliveryTag_update,
      read_bits [(1, BasicDeliver_Redelivered_update)], store read_shortstr BasicDeliver_Exchange_update,
      store read_shortstr BasicDeliver_RoutingKey_update]
     \<lparr>BasicDeliver_ConsumerTag = [], BasicDeliver_DeliveryTag = 0, BasicDeliver_Redelivered = False,
      BasicDeliver_Exchange = [], BasicDeliver_RoutingKey = []\<rparr>"

interpretation BasicDeliver_codec: method_codec BasicDeliver_MarshalBuffer BasicDeliver_Unmarshal "\<lambda>_. True"
  unfolding BasicDeliver_MarshalBuffer_def [abs_def] BasicDeliver_Unmarshal_def
  by (rule method_codecI, (rule all_take_Cons takes_intros | simp; fail)+)

record BasicGet =
  BasicGet_Reserved1 :: u16
  BasicGet_Queue :: string
  BasicGet_NoAck :: bool

definition BasicGet_MarshalBuffer :: "BasicGet \<Rightarrow> codec_error + bytes" where
  "BasicGet_MarshalBuffer f = write_fields
     [write_uint 2 (BasicGet_Reserved1 f), write_shortstr (BasicGet_Queue f), write_bits [(1, BasicGet_NoAck f)]]"

definition BasicGet_Unmarshal :: "bytes \<Rightarrow> codec_error + BasicGet" where
  "BasicGet_Unmarshal = read_method
     [store (read_uint 2) BasicGet_Reserved1_update, store read_shortstr BasicGet_Queue_update,
      read_bits [(1, BasicGet_NoAck_update)]]
     \<lparr>BasicGet_Reserved1 = 0, BasicGet_Queue = [], BasicGet_NoAck = False\<rparr>"

interpretation BasicGet_codec: method_codec BasicGet_MarshalBuffer BasicGet_Unmarshal "\<lambda>_. True"
  unfolding BasicGet_MarshalBuffer_def [abs_def] BasicGet_Unmarshal_def
  by (rule method_codecI, (rule all_take_Cons takes_intros | simp; fail)+)

record BasicGetOk =
  BasicGetOk_DeliveryTag :: u64
  BasicGetOk_Redelivered :: bool
  BasicGetOk_Exchange :: string
  BasicGetOk_RoutingKey :: string
  BasicGetOk_MessageCount :: u32

definition BasicGetOk_MarshalBuffer :: "BasicGetOk \<Rightarrow> codec_error + bytes" where
  "BasicGetOk_MarshalBuffer f = write_fields
     [write_uint 8 (BasicGetOk_DeliveryTag f), write_bits [(1, BasicGetOk_Redelivered f)],
      write_shortstr (BasicGetOk_Exchange f), write_shortstr (BasicGetOk_RoutingKey f),
      write_uint 4 (BasicGetOk_MessageCount f)]"

definition BasicGetOk_Unmarshal :: "bytes \<Rightarrow> codec_error + BasicGetOk" where
  "BasicGetOk_Unmarshal = read_method
     [store (read_uint 8) BasicGetOk_DeliveryTag_update, read_bits [(1, BasicGetOk_Redelivered_update)],
      store read_shortstr BasicGetOk_Exchange_update, store read_shortstr BasicGetOk_RoutingKey_update,
      store (read_uint 4) BasicGetOk_MessageCount_update]
     \<lparr>BasicGetOk_DeliveryTag = 0, BasicGetOk_Redelivered = False, BasicGetOk_Exchange = [],
      BasicGetOk_RoutingKey = [], BasicGetOk_MessageCount = 0\<rparr>"

interpretation BasicGetOk_codec: method_codec BasicGetOk_MarshalBuffer BasicGetOk_Unmarshal "\<lambda>_. True"
  unfolding BasicGetOk_MarshalBuffer_def [abs_def] BasicGetOk_Unmarshal_def
  by (rule method_codecI, (rule all_take_Cons takes_intros | simp; fail)+)

record BasicGetEmpty =
  BasicGetEmpty_Reserved1 :: string

definition BasicGetEmpty_MarshalBuffer :: "BasicGetEmpty \<Rightarrow> codec_error + bytes" where
  "BasicGetEmpty_MarshalBuffer f = write_fields
     [write_shortstr (BasicGetEmpty_Reserved1 f)]"

definition BasicGetEmpty_Unmarshal :: "bytes \<Rightarrow> codec_error + BasicGetEmpty" where
  "BasicGetEmpty_Unmarshal = read_method
     [store read_shortstr BasicGetEmpty_Reserved1_update]
     \<lparr>BasicGetEmpty_Reserved1 = []\<rparr>"

interpretation BasicGetEmpty_codec: method_codec BasicGetEmpty_MarshalBuffer BasicGetEmpty_Unmarshal "\<lambda>_. True"
  unfolding BasicGetEmpty_MarshalBuffer_def [abs_def] BasicGetEmpty_Unmarshal_def
  by (rule method_codecI, (rule all_take_Cons takes_intros | simp; fail)+)

record BasicAck =
  BasicAck_DeliveryTag :: u64
  BasicAck_Multiple :: bool

definition BasicAck_MarshalBuffer :: "BasicAck \<Rightarrow> codec_error + bytes" where
  "BasicAck_MarshalBuffer f = write_fields
     [write_uint 8 (BasicAck_DeliveryTag f), write_bits [(1, BasicAck_Multiple f)]]"

definition BasicAck_Unmarshal :: "bytes \<Rightarrow> codec_error + BasicAck" where
  "BasicAck_Unmarshal = read_method
     [store (read_uint 8) BasicAck_DeliveryTag_update, read_bits [(1, BasicAck_Multiple_update)]]
     \<lparr>BasicAck_DeliveryTag = 0, BasicAck_Multiple = False\<rparr>"

interpretation BasicAck_codec: method_codec BasicAck_MarshalBuffer BasicAck_Unmarshal "\<lambda>_. True"
  unfolding BasicAck_MarshalBuffer_def [abs_def] BasicAck_Unmarshal_def
  by (rule method_codecI, (rule all_take_Cons takes_intros | simp; fail)+)

record BasicReject =
  BasicReject_DeliveryTag :: u64
  BasicReject_Requeue :: bool

definition BasicReject_MarshalBuffer :: "BasicReject \<Rightarrow> codec_error + bytes" where
  "BasicReject_MarshalBuffer f = write_fields
     [write_uint 8 (BasicReject_DeliveryTag f), write_bits [(1, BasicReject_Requeue f)]]"

definition BasicReject_Unmarshal :: "bytes \<Rightarrow> codec_error + BasicReject" where
  "BasicReject_Unmarshal = read_method
     [store (read_uint 8) BasicReject_DeliveryTag_update, read_bits [(1, BasicReject_Requeue_update)]]
     \<lparr>BasicReject_DeliveryTag = 0, BasicReject_Requeue = False\<rparr>"

interpretation BasicReject_codec: method_codec BasicReject_MarshalBuffer BasicReject_Unmarshal "\<lambda>_. True"
  unfolding BasicReject_MarshalBuffer_def [abs_def] BasicReject_Unmarshal_def
  by (rule method_codecI, (rule all_take_Cons takes_intros | simp; fail)+)

record BasicRecoverAsync =
  BasicRecoverAsync_Requeue :: bool

definition BasicRecoverAsync_MarshalBuffer :: "BasicRecoverAsync \<Rightarrow> codec_error + bytes" where
  "BasicRecoverAsync_MarshalBuffer f = write_fields
     [write_bits [(1, BasicRecoverAsync_Requeue f)]]"

definition BasicRecoverAsync_Unmarshal :: "bytes \<Rightarrow> codec_error + BasicRecoverAsync" where
  "BasicRecoverAsync_Unmarshal = read_method
     [read_bits [(1, BasicRecoverAsync_Requeue_update)]]
     \<lparr>BasicRecoverAsync_Requeue = False\<rparr>"

interpretation BasicRecoverAsync_codec: method_codec BasicRecoverAsync_MarshalBuffer BasicRecoverAsync_Unmarshal "\<lambda>_. True"
  unfolding BasicRecoverAsync_MarshalBuffer_def [abs_def] BasicRecoverAsync_Unmarshal_def
  by (rule method_codecI, (rule all_take_Cons takes_intros | simp; fail)+)

record BasicRecover =
  BasicRecover_Requeue :: bool

definition BasicRecover_MarshalBuffer :: "BasicRecover \<Rightarrow> codec_error + bytes" where
  "BasicRecover_MarshalBuffer f = write_fields
     [write_bits [(1, BasicRecover_Requeue f)]]"

definition BasicRecover_Unmarshal :: "bytes \<Rightarrow> codec_error + BasicRecover" where
  "BasicRecover_Unmarshal = read_method
     [read_bits [(1, BasicRecover_Requeue_update)]]
     \<lparr>BasicRecover_Requeue = False\<rparr>"

interpretation BasicRecover_codec: method_codec BasicRecover_MarshalBuffer BasicRecover_Unmarshal "\<lambda>_. True"
  unfolding BasicRecover_MarshalBuffer_def [abs_def] BasicRecover_Unmarshal_def
  by (rule method_codecI, (rule all_take_Cons takes_intros | simp; fail)+)

record BasicNack =
  BasicNack_DeliveryTag :: u64
  BasicNack_Multiple :: bool
  BasicNack_Requeue :: bool

definition BasicNack_MarshalBuffer :: "BasicNack \<Rightarrow> codec_error + bytes" where
  "BasicNack_MarshalBuffer f = write_fields
     [write_uint 8 (BasicNack_DeliveryTag f), write_bits [(1, BasicNack_Multiple f), (2, BasicNack_Requeue f)]]"

definition BasicNack_Unmarshal :: "bytes \<Rightarrow> codec_error + BasicNack" where
  "BasicNack_Unmarshal = read_method
     [store (read_uint 8) BasicNack_DeliveryTag_update,
      read_bits [(1, BasicNack_Multiple_update), (2, BasicNack_Requeue_update)]]
     \<lparr>BasicNack_DeliveryTag = 0, BasicNack_Multiple = False, BasicNack_Requeue = False\<rparr>"

interpretation BasicNack_codec: method_codec BasicNack_MarshalBuffer BasicNack_Unmarshal "\<lambda>_. True"
  unfolding BasicNack_MarshalBuffer_def [abs_def] BasicNack_Unmarshal_def
  by (rule method_codecI, (rule all_take_Cons takes_intros | simp; fail)+)

datatype BasicFrame =
    BasicQosFrame BasicQos
  | BasicQosOkFrame
  | BasicConsumeFrame BasicConsume
  | BasicConsumeOkFrame BasicConsumeOk
  | BasicCancelFrame BasicCancel
  | BasicCancelOkFrame BasicCancelOk
  | BasicPublishFrame BasicPublish
  | BasicReturnFrame BasicReturn
  | BasicDeliverFrame BasicDeliver
  | BasicGetFrame BasicGet
  | BasicGetOkFrame BasicGetOk
  | BasicGetEmptyFrame BasicGetEmpty
  | BasicAckFrame BasicAck
  | BasicRejectFrame BasicReject
  | BasicRecoverAsyncFrame BasicRecoverAsync
  | BasicRecoverFrame BasicRecover
  | BasicRecoverOkFrame
  | BasicNackFrame BasicNack

fun Basic_MethodID :: "BasicFrame \<Rightarrow> u16" where
  "Basic_MethodID (BasicQosFrame _) = 10"
| "Basic_MethodID BasicQosOkFrame = 11"
| "Basic_MethodID (BasicConsumeFrame _) = 20"
| "Basic_MethodID (BasicConsumeOkFrame _) = 21"
| "Basic_MethodID (BasicCancelFrame _) = 30"
| "Basic_MethodID (BasicCancelOkFrame _) = 31"
| "Basic_MethodID (BasicPublishFrame _) = 40"
| "Basic_MethodID (BasicReturnFrame _) = 50"
| "Basic_MethodID (BasicDeliverFrame _) = 60"
| "Basic_MethodID (BasicGetFrame _) = 70"
| "Basic_MethodID (BasicGetOkFrame _) = 71"
| "Basic_MethodID (BasicGetEmptyFrame _) = 72"
| "Basic_MethodID (BasicAckFrame _) = 80"
| "Basic_MethodID (BasicRejectFrame _) = 90"
| "Basic_MethodID (BasicRecoverAsyncFrame _) = 100"
| "Basic_MethodID (BasicRecoverFrame _) = 110"
| "Basic_MethodID BasicRecoverOkFrame = 111"
| "Basic_MethodID (BasicNackFrame _) = 120"

fun Basic_MarshalBuffer :: "BasicFrame \<Rightarrow> codec_error + bytes" where
  "Basic_MarshalBuffer (BasicQosFrame f) = BasicQos_MarshalBuffer f"
| "Basic_MarshalBuffer BasicQosOkFrame = Inr []"
| "Basic_MarshalBuffer (BasicConsumeFrame f) = BasicConsume_MarshalBuffer f"
| "Basic_MarshalBuffer (BasicConsumeOkFrame f) = BasicConsumeOk_MarshalBuffer f"
| "Basic_MarshalBuffer (BasicCancelFrame f) = BasicCancel_MarshalBuffer f"
| "Basic_MarshalBuffer (BasicCancelOkFrame f) = BasicCancelOk_MarshalBuffer f"
| "Basic_MarshalBuffer (BasicPublishFrame f) = BasicPublish_MarshalBuffer f"
| "Basic_MarshalBuffer (BasicReturnFrame f) = BasicReturn_MarshalBuffer f"
| "Basic_MarshalBuffer (BasicDeliverFrame f) = BasicDeliver_MarshalBuffer f"
| "Basic_MarshalBuffer (BasicGetFrame f) = BasicGet_MarshalBuffer f"
| "Basic_MarshalBuffer (BasicGetOkFrame f) = BasicGetOk_MarshalBuffer f"
| "Basic_MarshalBuffer (BasicGetEmptyFrame f) = BasicGetEmpty_MarshalBuffer f"
| "Basic_MarshalBuffer (BasicAckFrame f) = BasicAck_MarshalBuffer f"
| "Basic_MarshalBuffer (BasicRejectFrame f) = BasicReject_MarshalBuffer f"
| "Basic_MarshalBuffer (BasicRecoverAsyncFrame f) = BasicRecoverAsync_MarshalBuffer f"
| "Basic_MarshalBuffer (BasicRecoverFrame f) = BasicRecover_MarshalBuffer f"
| "Basic_MarshalBuffer BasicRecoverOkFrame = Inr []"
| "Basic_MarshalBuffer (BasicNackFrame f) = BasicNack_MarshalBuffer f"

definition Basic_decode :: "u16 \<Rightarrow> bytes \<Rightarrow> codec_error + BasicFrame" where
  "Basic_decode method data =
     (if method = 10 then map_sum id BasicQosFrame (BasicQos_Unmarshal data)
      else if method = 11 then (if data = [] then Inr BasicQosOkFrame else Inl Remains)
      else if method = 20 then map_sum id BasicConsumeFrame (BasicConsume_Unmarshal data)
      else if method = 21 then map_sum id BasicConsumeOkFrame (BasicConsumeOk_Unmarshal data)
      else if method = 30 then map_sum id BasicCancelFrame (BasicCancel_Unmarshal data)
      else if method = 31 then map_sum id BasicCancelOkFrame (BasicCancelOk_Unmarshal data)
      else if method = 40 then map_sum id BasicPublishFrame (BasicPublish_Unmarshal data)
      else if method = 50 then map_sum id BasicReturnFrame (BasicReturn_Unmarshal data)
      else if method = 60 then map_sum id BasicDeliverFrame (BasicDeliver_Unmarshal data)
      else if method = 70 then map_sum id BasicGetFrame (BasicGet_Unmarshal data)
      else if method = 71 then map_sum id BasicGetOkFrame (BasicGetOk_Unmarshal data)
      else if method = 72 then map_sum id BasicGetEmptyFrame (BasicGetEmpty_Unmarshal data)
      else if method = 80 then map_sum id BasicAckFrame (BasicAck_Unmarshal data)
      else if method = 90 then map_sum id BasicRejectFrame (BasicReject_Unmarshal data)
      else if method = 100 then map_sum id BasicRecoverAsyncFrame (BasicRecoverAsync_Unmarshal data)
      else if method = 110 then map_sum id BasicRecoverFrame (BasicRecover_Unmarshal data)
      else if method = 111 then (if data = [] then Inr BasicRecoverOkFrame else Inl Remains)
      else if method = 120 then map_sum id BasicNackFrame (BasicNack_Unmarshal data)
      else Inl UnhandledMethod)"

fun valid_Basic :: "BasicFrame \<Rightarrow> bool" where
  "valid_Basic (BasicConsumeFrame f) \<longleftrightarrow> plain_table (BasicConsume_Arguments f)"
| "valid_Basic _ \<longleftrightarrow> True"

lemmas Basic_read_back =
  BasicQos_codec.read_back_as BasicConsume_codec.read_back_as BasicConsumeOk_codec.read_back_as
  BasicCancel_codec.read_back_as BasicCancelOk_codec.read_back_as BasicPublish_codec.read_back_as
  BasicReturn_codec.read_back_as BasicDeliver_codec.read_back_as BasicGet_codec.read_back_as
  BasicGetOk_codec.read_back_as BasicGetEmpty_codec.read_back_as BasicAck_codec.read_back_as
  BasicReject_codec.read_back_as BasicRecoverAsync_codec.read_back_as BasicRecover_codec.read_back_as
  BasicNack_codec.read_back_as

lemma Basic_decoded:
  "valid_Basic f \<Longrightarrow> Basic_MarshalBuffer f = Inr bs \<Longrightarrow> length bs < 4294967296 \<Longrightarrow> Basic_decode (Basic_MethodID f) bs = Inr f"
  by (cases f) (simp_all add: Basic_decode_def Basic_read_back)

end
