(* ===== verification/Amqp_V0_Content.thy ===== *)
theory Amqp_V0_Content
  imports Amqp_V0_Fields
begin

text \<open>
  The content header of AMQP 0.9.1, \<^verbatim>\<open>ContentHeaderFrame\<close>: the class, the size of the body and the
  properties of a message. A word of flags says which properties follow; a property that is not
  set is not sent.
\<close>

subsection \<open>Properties\<close>

text \<open>\<^verbatim>\<open>f.Headers\<close> is nil or points to a struct.\<close>

definition write_headers :: "pstruct option \<Rightarrow> codec_error + bytes" where
  "write_headers h = write_table (case h of None \<Rightarrow> None | Some t \<Rightarrow> t)"

definition read_headers :: "bytes \<Rightarrow> codec_error + pstruct option \<times> bytes" where
  "read_headers buf =
     (case read_table buf of Inl e \<Rightarrow> Inl e | Inr (t, rest) \<Rightarrow> Inr (case t of None \<Rightarrow> None | Some m \<Rightarrow> Some (Some m), rest))"

text \<open>Seconds since 1970. A time is kept as seconds since the year 1, modulo \<open>2\<^sup>6\<^sup>4\<close>, and nanoseconds.\<close>

definition Unix :: "gotime \<Rightarrow> int" where
  "Unix t = i64 (t div 1000000000 - 62135596800)"

definition time_Unix :: "int \<Rightarrow> gotime" where
  "time_Unix sec = i64 (sec + 62135596800) * 1000000000"

definition write_timestamp :: "gotime \<Rightarrow> codec_error + bytes" where
  "write_timestamp t = write_uint 8 (of_int (Unix t) :: u64)"

definition read_timestamp :: "bytes \<Rightarrow> codec_error + gotime \<times> bytes" where
  "read_timestamp buf =
     (case read_uint 8 buf of Inl e \<Rightarrow> Inl e | Inr (n, rest) \<Rightarrow> Inr (time_Unix (sint (n :: u64)), rest))"

definition flagged :: "u16 \<Rightarrow> u16 \<Rightarrow> 'r storing \<Rightarrow> 'r storing" where
  "flagged flags m f t buf = (if flags AND m = m then f t buf else Inr (t, buf))"

definition property_flags :: "(u16 \<times> bool \<times> 'w) list \<Rightarrow> u16" where
  "property_flags ps = foldl (\<lambda>flags (m, set, _). if set then flags OR m else flags) 0 ps"

definition write_properties :: "(u16 \<times> bool \<times> (codec_error + bytes)) list \<Rightarrow> codec_error + bytes" where
  "write_properties ps = write_fields (map (\<lambda>(_, set, w). if set then w else Inr []) ps)"

subsection \<open>The content header\<close>

record ContentHeaderFrame =
  ContentHeaderFrame_ClassID :: u16
  ContentHeaderFrame_Weight :: u16
  ContentHeaderFrame_BodySize :: u64
  ContentHeaderFrame_ContentType :: string
  ContentHeaderFrame_ContentEncoding :: string
  ContentHeaderFrame_Headers :: "pstruct option"
  ContentHeaderFrame_DeliveryMode :: u8
  ContentHeaderFrame_Priority :: u8
  ContentHeaderFrame_CorrelationID :: string
  ContentHeaderFrame_ReplyTo :: string
  ContentHeaderFrame_Expiration :: string
  ContentHeaderFrame_MessageID :: string
  ContentHeaderFrame_Timestamp :: gotime
  ContentHeaderFrame_Type :: string
  ContentHeaderFrame_UserID :: string
  ContentHeaderFrame_AppID :: string
  ContentHeaderFrame_Reserved :: string

abbreviation BasicClass :: u16 where "BasicClass \<equiv> 60"

definition ContentHeader_properties :: "ContentHeaderFrame \<Rightarrow> (u16 \<times> bool \<times> (codec_error + bytes)) list" where
  "ContentHeader_properties f =
     [(1, ContentHeaderFrame_ContentType f \<noteq> [], write_shortstr (ContentHeaderFrame_ContentType f)),
      (2, ContentHeaderFrame_ContentEncoding f \<noteq> [], write_shortstr (ContentHeaderFrame_ContentEncoding f)),
      (4, ContentHeaderFrame_Headers f \<noteq> None, write_headers (ContentHeaderFrame_Headers f)),
      (8, ContentHeaderFrame_DeliveryMode f > 0, write_octet (ContentHeaderFrame_DeliveryMode f)),
      (16, ContentHeaderFrame_Priority f > 0, write_octet (ContentHeaderFrame_Priority f)),
      (32, ContentHeaderFrame_CorrelationID f \<noteq> [], write_shortstr (ContentHeaderFrame_CorrelationID f)),
      (64, ContentHeaderFrame_ReplyTo f \<noteq> [], write_shortstr (ContentHeaderFrame_ReplyTo f)),
      (128, ContentHeaderFrame_Expiration f \<noteq> [], write_shortstr (ContentHeaderFrame_Expiration f)),
      (256, ContentHeaderFrame_MessageID f \<noteq> [], write_shortstr (ContentHeaderFrame_MessageID f)),
      (512, \<not> IsZero (ContentHeaderFrame_Timestamp f), write_timestamp (ContentHeaderFrame_Timestamp f)),
      (1024, ContentHeaderFrame_Type f \<noteq> [], write_shortstr (ContentHeaderFrame_Type f)),
      (2048, ContentHeaderFrame_UserID f \<noteq> [], write_shortstr (ContentHeaderFrame_UserID f)),
      (4096, ContentHeaderFrame_AppID f \<noteq> [], write_shortstr (ContentHeaderFrame_AppID f)),
      (8192, ContentHeaderFrame_Reserved f \<noteq> [], write_shortstr (ContentHeaderFrame_Reserved f))]"

definition ContentHeaderFrame_MarshalBuffer :: "ContentHeaderFrame \<Rightarrow> codec_error + bytes" where
  "ContentHeaderFrame_MarshalBuffer f =
     (case write_properties (ContentHeader_properties f) of Inl e \<Rightarrow> Inl e
      | Inr b \<Rightarrow> Inr (be_bytes 2 (unat (ContentHeaderFrame_ClassID f)) @ be_bytes 2 (unat (ContentHeaderFrame_Weight f)) @
          be_bytes 8 (unat (ContentHeaderFrame_BodySize f)) @
          be_bytes 2 (unat (property_flags (ContentHeader_properties f))) @ b))"

definition read_class :: "bytes \<Rightarrow> codec_error + u16 \<times> bytes" where
  "read_class buf =
     (case read_uint 2 buf of Inl e \<Rightarrow> Inl e
      | Inr (c, rest) \<Rightarrow> if c \<noteq> BasicClass then Inl UnexpectedClass else Inr (c, rest))"

definition ContentHeader_readers :: "u16 \<Rightarrow> ContentHeaderFrame storing list" where
  "ContentHeader_readers flags =
        [flagged flags 1 (store read_shortstr ContentHeaderFrame_ContentType_update),
         flagged flags 2 (store read_shortstr ContentHeaderFrame_ContentEncoding_update),
         flagged flags 4 (store read_headers ContentHeaderFrame_Headers_update),
         flagged flags 8 (store read_octet ContentHeaderFrame_DeliveryMode_update),
         flagged flags 16 (store read_octet ContentHeaderFrame_Priority_update),
         flagged flags 32 (store read_shortstr ContentHeaderFrame_CorrelationID_update),
         flagged flags 64 (store read_shortstr ContentHeaderFrame_ReplyTo_update),
         flagged flags 128 (store read_shortstr ContentHeaderFrame_Expiration_update),
         flagged flags 256 (store read_shortstr ContentHeaderFrame_MessageID_update),
         flagged flags 512 (store read_timestamp ContentHeaderFrame_Timestamp_update),
         flagged flags 1024 (store read_shortstr ContentHeaderFrame_Type_update),
         flagged flags 2048 (store read_shortstr ContentHeaderFrame_UserID_update),
         flagged flags 4096 (store read_shortstr ContentHeaderFrame_AppID_update),
         flagged flags 8192 (store read_shortstr ContentHeaderFrame_Reserved_update)]"

definition read_properties :: "ContentHeaderFrame storing" where
  "read_properties t buf =
     (case read_uint 2 buf of Inl e \<Rightarrow> Inl e
      | Inr (flags, rest) \<Rightarrow> read_all (ContentHeader_readers flags) t rest)"

definition ContentHeaderFrame_zero :: ContentHeaderFrame where
  "ContentHeaderFrame_zero =
     \<lparr>ContentHeaderFrame_ClassID = 0, ContentHeaderFrame_Weight = 0, ContentHeaderFrame_BodySize = 0,
     ContentHeaderFrame_ContentType = [], ContentHeaderFrame_ContentEncoding = [], ContentHeaderFrame_Headers = None,
     ContentHeaderFrame_DeliveryMode = 0, ContentHeaderFrame_Priority = 0, ContentHeaderFrame_CorrelationID = [],
     ContentHeaderFrame_ReplyTo = [], ContentHeaderFrame_Expiration = [], ContentHeaderFrame_MessageID = [],
     ContentHeaderFrame_Timestamp = 0, ContentHeaderFrame_Type = [], ContentHeaderFrame_UserID = [],
     ContentHeaderFrame_AppID = [], ContentHeaderFrame_Reserved = []\<rparr>"

definition ContentHeaderFrame_Unmarshal :: "bytes \<Rightarrow> codec_error + ContentHeaderFrame" where
  "ContentHeaderFrame_Unmarshal = read_method
     [store read_class ContentHeaderFrame_ClassID_update, store (read_uint 2) ContentHeaderFrame_Weight_update,
      store (read_uint 8) ContentHeaderFrame_BodySize_update, read_properties]
     ContentHeaderFrame_zero"

subsection \<open>The flags say which properties are set\<close>

lemma bit_property_flags: "bit (property_flags ps) i \<longleftrightarrow> list_ex (\<lambda>p. fst (snd p) \<and> bit (fst p) i) ps"
proof -
  have "bit (foldl (\<lambda>flags (m, set, _). if set then flags OR m else flags) x ps) i \<longleftrightarrow>
      bit x i \<or> list_ex (\<lambda>p. fst (snd p) \<and> bit (fst p) i) ps" for x :: u16
  proof (induction ps arbitrary: x)
    case (Cons p ps)
    then show ?case by (cases "fst (snd p)") (simp_all add: split_beta bit_or_iff disj_assoc)
  qed simp
  then show ?thesis by (simp add: property_flags_def)
qed

lemma mask_bit: "(x AND 2 ^ i = 2 ^ i) \<longleftrightarrow> bit x i" if "i < 16" for x :: u16
proof
  assume e: "x AND 2 ^ i = 2 ^ i"
  have "bit (2 ^ i :: u16) i" using that by (simp add: bit_exp_iff)
  then have "bit (x AND 2 ^ i) i" by (simp only: e)
  then show "bit x i" by (simp add: bit_and_iff)
next
  assume "bit x i"
  then show "x AND 2 ^ i = 2 ^ i" by (intro bit_word_eqI) (auto simp: bit_and_iff bit_exp_iff)
qed

lemma property_flag:
  assumes "map fst ps = map (\<lambda>i. 2 ^ i) [0..<length ps]" and "length ps \<le> 16" and "i < length ps"
  shows "(property_flags ps AND 2 ^ i = 2 ^ i) = fst (snd (ps ! i))"
proof -
  have m: "fst (ps ! j) = 2 ^ j" if "j < length ps" for j
    using arg_cong [OF assms(1), of "\<lambda>l. l ! j"] that by simp
  have "bit (fst (ps ! j)) i \<longleftrightarrow> j = i" if "j < length ps" for j
    using that assms(2,3) m [OF that] by (auto simp: bit_exp_iff)
  then have "list_ex (\<lambda>p. fst (snd p) \<and> bit (fst p) i) ps \<longleftrightarrow> fst (snd (ps ! i))"
    using assms(3) by (auto simp: list_ex_length)
  then show ?thesis using mask_bit [of i "property_flags ps"] assms(2,3) by (simp add: bit_property_flags)
qed

lemma content_flags:
  fixes f :: ContentHeaderFrame
  defines "flags \<equiv> property_flags (ContentHeader_properties f)"
  shows "(flags AND 1 = 1) = (ContentHeaderFrame_ContentType f \<noteq> [])"
    "(flags AND 2 = 2) = (ContentHeaderFrame_ContentEncoding f \<noteq> [])"
    "(flags AND 4 = 4) = (ContentHeaderFrame_Headers f \<noteq> None)"
    "(flags AND 8 = 8) = (ContentHeaderFrame_DeliveryMode f > 0)"
    "(flags AND 16 = 16) = (ContentHeaderFrame_Priority f > 0)"
    "(flags AND 32 = 32) = (ContentHeaderFrame_CorrelationID f \<noteq> [])"
    "(flags AND 64 = 64) = (ContentHeaderFrame_ReplyTo f \<noteq> [])"
    "(flags AND 128 = 128) = (ContentHeaderFrame_Expiration f \<noteq> [])"
    "(flags AND 256 = 256) = (ContentHeaderFrame_MessageID f \<noteq> [])"
    "(flags AND 512 = 512) = (\<not> IsZero (ContentHeaderFrame_Timestamp f))"
    "(flags AND 1024 = 1024) = (ContentHeaderFrame_Type f \<noteq> [])"
    "(flags AND 2048 = 2048) = (ContentHeaderFrame_UserID f \<noteq> [])"
    "(flags AND 4096 = 4096) = (ContentHeaderFrame_AppID f \<noteq> [])"
    "(flags AND 8192 = 8192) = (ContentHeaderFrame_Reserved f \<noteq> [])"
proof -
  have k: "(flags AND 2 ^ i = 2 ^ i) = fst (snd (ContentHeader_properties f ! i))" if "i < 14" for i
    unfolding flags_def by (rule property_flag) (use that in \<open>simp_all add: ContentHeader_properties_def upt_rec\<close>)
  show "(flags AND 1 = 1) = (ContentHeaderFrame_ContentType f \<noteq> [])" using k [of 0] by (simp add: ContentHeader_properties_def)
  show "(flags AND 2 = 2) = (ContentHeaderFrame_ContentEncoding f \<noteq> [])" using k [of 1] by (simp add: ContentHeader_properties_def)
  show "(flags AND 4 = 4) = (ContentHeaderFrame_Headers f \<noteq> None)" using k [of 2] by (simp add: ContentHeader_properties_def)
  show "(flags AND 8 = 8) = (ContentHeaderFrame_DeliveryMode f > 0)" using k [of 3] by (simp add: ContentHeader_properties_def)
  show "(flags AND 16 = 16) = (ContentHeaderFrame_Priority f > 0)" using k [of 4] by (simp add: ContentHeader_properties_def)
  show "(flags AND 32 = 32) = (ContentHeaderFrame_CorrelationID f \<noteq> [])" using k [of 5] by (simp add: ContentHeader_properties_def)
  show "(flags AND 64 = 64) = (ContentHeaderFrame_ReplyTo f \<noteq> [])" using k [of 6] by (simp add: ContentHeader_properties_def)
  show "(flags AND 128 = 128) = (ContentHeaderFrame_Expiration f \<noteq> [])" using k [of 7] by (simp add: ContentHeader_properties_def)
  show "(flags AND 256 = 256) = (ContentHeaderFrame_MessageID f \<noteq> [])" using k [of 8] by (simp add: ContentHeader_properties_def)
  show "(flags AND 512 = 512) = (\<not> IsZero (ContentHeaderFrame_Timestamp f))" using k [of 9] by (simp add: ContentHeader_properties_def)
  show "(flags AND 1024 = 1024) = (ContentHeaderFrame_Type f \<noteq> [])" using k [of 10] by (simp add: ContentHeader_properties_def)
  show "(flags AND 2048 = 2048) = (ContentHeaderFrame_UserID f \<noteq> [])" using k [of 11] by (simp add: ContentHeader_properties_def)
  show "(flags AND 4096 = 4096) = (ContentHeaderFrame_AppID f \<noteq> [])" using k [of 12] by (simp add: ContentHeader_properties_def)
  show "(flags AND 8192 = 8192) = (ContentHeaderFrame_Reserved f \<noteq> [])" using k [of 13] by (simp add: ContentHeader_properties_def)
qed

subsection \<open>A content header read back\<close>

lemma takes_flagged:
  assumes "(flags AND m = m) = p" and "p \<Longrightarrow> takes w (f s) s'" and "\<not> p \<Longrightarrow> s' = s"
  shows "takes (if p then w else Inr []) (flagged flags m f s) s'"
  using assms by (auto simp: takes_def flagged_def)

definition plain_headers :: "pstruct option \<Rightarrow> bool" where
  "plain_headers h \<longleftrightarrow> (case h of None \<Rightarrow> True | Some t \<Rightarrow> t \<noteq> None \<and> plain_table t)"

lemma takes_headers:
  assumes "plain_headers h" and "h \<noteq> None"
  shows "takes (write_headers h) (store read_headers upd s) (upd (\<lambda>_. h) s)"
proof (rule takes_store)
  fix b rest
  assume b: "write_headers h = Inr b" "length b < 4294967296"
  obtain m where m: "h = Some (Some m)" "plain_table (Some m)"
    using assms by (auto simp: plain_headers_def split: option.splits)
  have "store read_table (\<lambda>f _. f undefined) undefined (b @ rest) = Inr (Some m, rest)"
    using takes_table [OF m(2), of "\<lambda>f _. f undefined" undefined] b m(1) by (simp add: takes_def write_headers_def)
  then show "read_headers (b @ rest) = Inr (h, rest)"
    using m(1) by (auto simp: store_def read_headers_def split: sum.splits prod.splits)
qed

text \<open>A time that is read back: a whole number of seconds that a time can count.\<close>

definition whole_seconds :: "gotime \<Rightarrow> bool" where
  "whole_seconds t \<longleftrightarrow> t mod 1000000000 = 0 \<and> - (2 ^ 63) \<le> t div 1000000000 \<and> t div 1000000000 < 2 ^ 63"

lemma i64_add_i64: "i64 (i64 k + l) = i64 (k + l)"
  using signed_take_bit_add [of 63 "i64 k" l] signed_take_bit_add [of 63 k l] by (simp only: i64_def signed_take_bit_signed_take_bit min.idem)

lemma time_Unix_Unix: "whole_seconds t \<Longrightarrow> time_Unix (Unix t) = t"
  by (auto simp: time_Unix_def Unix_def whole_seconds_def i64_add_i64 mod_0_imp_dvd)

lemma takes_timestamp:
  assumes "whole_seconds t"
  shows "takes (write_timestamp t) (store read_timestamp upd s) (upd (\<lambda>_. t) s)"
proof (rule takes_store)
  fix b rest
  assume b: "write_timestamp t = Inr b"
  have "sint (of_int (Unix t) :: u64) = Unix t" by (simp add: Unix_def i64_def sint_sbintrunc')
  moreover have "read_uint 8 (b @ rest) = Inr (of_int (Unix t) :: u64, rest)"
    using b unat_bound(3) by (auto simp: write_timestamp_def write_uint_def read_uint_def simp del: be_bytes.simps)
  ultimately show "read_timestamp (b @ rest) = Inr (t, rest)"
    by (simp add: read_timestamp_def time_Unix_Unix [OF assms])
qed

definition valid_ContentHeader :: "ContentHeaderFrame \<Rightarrow> bool" where
  "valid_ContentHeader f \<longleftrightarrow> ContentHeaderFrame_ClassID f = BasicClass \<and>
     plain_headers (ContentHeaderFrame_Headers f) \<and> whole_seconds (ContentHeaderFrame_Timestamp f)"

lemma all_properties_taken:
  assumes "plain_headers (ContentHeaderFrame_Headers f)" and "whole_seconds (ContentHeaderFrame_Timestamp f)"
    and s: "s = ContentHeaderFrame_BodySize_update (\<lambda>_. ContentHeaderFrame_BodySize f)
          (ContentHeaderFrame_Weight_update (\<lambda>_. ContentHeaderFrame_Weight f)
          (ContentHeaderFrame_ClassID_update (\<lambda>_. ContentHeaderFrame_ClassID f) ContentHeaderFrame_zero))"
  shows "all_take f (map (\<lambda>(_, set, w). if set then w else Inr []) (ContentHeader_properties f))
    (ContentHeader_readers (property_flags (ContentHeader_properties f))) s"
proof -
  define flags where "flags = property_flags (ContentHeader_properties f)"
  note cf = content_flags [of f, folded flags_def]
  have "all_take f (map (\<lambda>(_, set, w). if set then w else Inr []) (ContentHeader_properties f))
    (ContentHeader_readers flags) s"
    unfolding ContentHeader_readers_def ContentHeader_properties_def list.map prod.case s ContentHeaderFrame_zero_def
    by ((rule all_take_Cons, rule takes_flagged, rule cf,
         (rule takes_shortstr takes_octet takes_headers [OF assms(1)] takes_timestamp [OF assms(2)]; assumption?),
         (simp add: IsZero_def word_neq_0_conv [symmetric]; fail))+) simp
  then show ?thesis by (simp only: flags_def)
qed

text \<open>The header as a list of fields, of which the flags with the properties are the last.\<close>

definition properties_field :: "ContentHeaderFrame \<Rightarrow> codec_error + bytes" where
  "properties_field f =
     (case write_properties (ContentHeader_properties f) of Inl e \<Rightarrow> Inl e
      | Inr b \<Rightarrow> Inr (be_bytes 2 (unat (property_flags (ContentHeader_properties f))) @ b))"

lemma ContentHeader_fields:
  "ContentHeaderFrame_MarshalBuffer f = write_fields
     [write_uint 2 (ContentHeaderFrame_ClassID f), write_uint 2 (ContentHeaderFrame_Weight f),
      write_uint 8 (ContentHeaderFrame_BodySize f), properties_field f]"
  by (simp add: ContentHeaderFrame_MarshalBuffer_def properties_field_def write_uint_def split: sum.splits)

lemma takes_class:
  "takes (write_uint 2 BasicClass) (store read_class upd s) (upd (\<lambda>_. BasicClass) s)"
  by (rule takes_store) (auto simp: write_uint_def read_class_def read_uint_def simp del: be_bytes.simps)

lemma takes_properties:
  assumes "plain_headers (ContentHeaderFrame_Headers f)" and "whole_seconds (ContentHeaderFrame_Timestamp f)"
  shows "takes (properties_field f) (read_properties
     (ContentHeaderFrame_BodySize_update (\<lambda>_. ContentHeaderFrame_BodySize f)
       (ContentHeaderFrame_Weight_update (\<lambda>_. ContentHeaderFrame_Weight f)
       (ContentHeaderFrame_ClassID_update (\<lambda>_. ContentHeaderFrame_ClassID f) ContentHeaderFrame_zero)))) f"
  unfolding takes_def
proof (intro allI impI)
  fix bs rest
  assume bs: "properties_field f = Inr bs" "length bs < 4294967296"
  define flags where "flags = property_flags (ContentHeader_properties f)"
  from bs obtain b where b: "write_properties (ContentHeader_properties f) = Inr b" "bs = be_bytes 2 (unat flags) @ b"
    by (auto simp: properties_field_def flags_def split: sum.splits)
  have "read_uint 2 (be_bytes 2 (unat flags) @ b @ rest) = Inr (flags, b @ rest)"
    using unat_bound(1) [of flags] by (simp add: read_uint_def del: be_bytes.simps)
  then show "read_properties (ContentHeaderFrame_BodySize_update (\<lambda>_. ContentHeaderFrame_BodySize f)
       (ContentHeaderFrame_Weight_update (\<lambda>_. ContentHeaderFrame_Weight f)
       (ContentHeaderFrame_ClassID_update (\<lambda>_. ContentHeaderFrame_ClassID f) ContentHeaderFrame_zero))) (bs @ rest) =
      Inr (f, rest)"
    using read_all_written [OF all_properties_taken [OF assms refl], of b rest] b bs(2)
    by (simp add: read_properties_def write_properties_def flags_def [symmetric] del: be_bytes.simps)
qed

interpretation ContentHeader_codec: method_codec ContentHeaderFrame_MarshalBuffer ContentHeaderFrame_Unmarshal valid_ContentHeader
  unfolding ContentHeader_fields [abs_def] ContentHeaderFrame_Unmarshal_def
proof (rule method_codecI)
  fix f
  assume v: "valid_ContentHeader f"
  then have c: "ContentHeaderFrame_ClassID f = BasicClass" by (simp add: valid_ContentHeader_def)
  show "all_take f [write_uint 2 (ContentHeaderFrame_ClassID f), write_uint 2 (ContentHeaderFrame_Weight f),
      write_uint 8 (ContentHeaderFrame_BodySize f), properties_field f]
     [store read_class ContentHeaderFrame_ClassID_update, store (read_uint 2) ContentHeaderFrame_Weight_update,
      store (read_uint 8) ContentHeaderFrame_BodySize_update, read_properties] ContentHeaderFrame_zero"
    unfolding c
    by (rule all_take_Cons, rule takes_class, rule all_take_Cons, rule takes_uint, rule all_take_Cons, rule takes_uint,
        rule all_take_Cons, rule takes_properties [of f, unfolded c])
      (use v in \<open>simp_all add: valid_ContentHeader_def\<close>)
qed

end
