(* ===== verification/Amqp_Buffer.thy ===== *)
theory Amqp_Buffer
  imports Amqp_Values Node_Id
begin

text \<open>
  The buffer \<^verbatim>\<open>t.data\<close> that both AMQP transports read frames into. It is reused, and replaced by a
  larger one when a frame does not fit; a slice expression beyond it panics.
\<close>

text \<open>\<^verbatim>\<open>t.data[:n]\<close>.\<close>

definition slice_to :: "bytes \<Rightarrow> u32 \<Rightarrow> bytes outcome" where
  "slice_to data n = (if unat n \<le> length data then Ret (take (unat n) data) else Panic ''slice bounds out of range'')"

text \<open>The buffer, made large enough for \<open>n\<close> bytes.\<close>

definition grown :: "bytes \<Rightarrow> u32 \<Rightarrow> bytes" where
  "grown data n = (if of_nat (length data) < n then replicate (unat (NextPowerOfTwo32 n)) 0 else data)"

lemma grown_length:
  assumes "0 < n" and "unat n \<le> 2 ^ 31" and "length data < 4294967296"
  shows "unat n \<le> length (grown data n)" and "length data \<le> length (grown data n)" and "length (grown data n) < 4294967296"
proof -
  have "1 \<le> unat n" using assms(1) by (simp add: word_less_nat_alt)
  then have "unat n \<le> unat (NextPowerOfTwo32 n)" using NextPowerOfTwo32_spec [of n] assms(2) by auto
  moreover have "unat (of_nat (length data) :: u32) = length data" using assms(3) by (simp add: unat_of_nat)
  moreover have "unat (NextPowerOfTwo32 n) < 4294967296"
    using unsigned_less [of "NextPowerOfTwo32 n", where ?'a = nat] by simp
  ultimately show "unat n \<le> length (grown data n)" "length data \<le> length (grown data n)" "length (grown data n) < 4294967296"
    using assms by (auto simp: word_less_nat_alt grown_def)
qed

end
