(* ===== verification/Amqp_V0_Transport.thy ===== *)
theory Amqp_V0_Transport
  imports Amqp_V0_Connection Amqp_V0_Queue Amqp_V0_Basic Amqp_V0_Content Amqp_Buffer
begin

text \<open>
  The framing of AMQP 0.9.1, \<^verbatim>\<open>amqp/v0/transport.go\<close>, and \<^verbatim>\<open>decodeMethodFrame\<close> of
  \<^verbatim>\<open>amqp0-9-1.go\<close>. \<open>Send0\<close> returns the bytes it writes to the connection; \<open>Receive0\<close> is given
  the reused buffer \<^verbatim>\<open>t.data\<close> and what the peer has sent, and returns the frame, the buffer and
  what is left of the input. Deadlines and the errors of the connection other than its end are not
  modelled.
\<close>

subsection \<open>Methods\<close>

datatype MethodFrame =
    ConnectionMethod ConnectionFrame | ChannelMethod ChannelFrame | ExchangeMethod ExchangeFrame
  | QueueMethod QueueFrame | BasicMethod BasicFrame | TxMethod TxFrame

datatype transport_error0 = FrameTooBig0 | MalformedFrame0 | ReadFailed0 | FrameFailed codec_error

text \<open>The class and the method that \<^verbatim>\<open>FixMethodMeta\<close> sets.\<close>

fun MethodMeta :: "MethodFrame \<Rightarrow> u16 \<times> u16" where
  "MethodMeta (ConnectionMethod f) = (10, Connection_MethodID f)"
| "MethodMeta (ChannelMethod f) = (20, Channel_MethodID f)"
| "MethodMeta (ExchangeMethod f) = (40, Exchange_MethodID f)"
| "MethodMeta (QueueMethod f) = (50, Queue_MethodID f)"
| "MethodMeta (BasicMethod f) = (60, Basic_MethodID f)"
| "MethodMeta (TxMethod f) = (90, Tx_MethodID f)"

fun Method_MarshalBuffer :: "MethodFrame \<Rightarrow> codec_error + bytes" where
  "Method_MarshalBuffer (ConnectionMethod f) = Connection_MarshalBuffer f"
| "Method_MarshalBuffer (ChannelMethod f) = Channel_MarshalBuffer f"
| "Method_MarshalBuffer (ExchangeMethod f) = Exchange_MarshalBuffer f"
| "Method_MarshalBuffer (QueueMethod f) = Queue_MarshalBuffer f"
| "Method_MarshalBuffer (BasicMethod f) = Basic_MarshalBuffer f"
| "Method_MarshalBuffer (TxMethod f) = Tx_MarshalBuffer f"

definition decodeMethodFrame :: "bytes \<Rightarrow> transport_error0 + MethodFrame" where
  "decodeMethodFrame data =
     (if length data < 4 then Inl MalformedFrame0
      else
        let classID = of_nat (be_value (take 2 data)) :: u16;
            methodID = of_nat (be_value (take 2 (drop 2 data))) :: u16;
            args = drop 4 data
        in if classID = 10 then map_sum FrameFailed ConnectionMethod (Connection_decode methodID args)
           else if classID = 20 then map_sum FrameFailed ChannelMethod (Channel_decode methodID args)
           else if classID = 40 then map_sum FrameFailed ExchangeMethod (Exchange_decode methodID args)
           else if classID = 50 then map_sum FrameFailed QueueMethod (Queue_decode methodID args)
           else if classID = 60 then map_sum FrameFailed BasicMethod (Basic_decode methodID args)
           else if classID = 90 then map_sum FrameFailed TxMethod (Tx_decode methodID args)
           else Inl (FrameFailed UnhandledClass))"

subsection \<open>Sending\<close>

record FrameMeta0 =
  FrameMeta0_Type :: u8
  FrameMeta0_Channel :: u16
  FrameMeta0_Size :: u32

datatype Frame0 = MethodFrame MethodFrame | ContentHeader ContentHeaderFrame | ContentBody bytes | HeartbeatFrame

abbreviation FrameMethod :: u8 where "FrameMethod \<equiv> 1"
abbreviation FrameHeader :: u8 where "FrameHeader \<equiv> 2"
abbreviation FrameBody :: u8 where "FrameBody \<equiv> 3"
abbreviation FrameHeartbeat :: u8 where "FrameHeartbeat \<equiv> 8"
abbreviation FrameEnd :: u8 where "FrameEnd \<equiv> 206"

definition frame_bytes :: "u8 \<Rightarrow> u16 \<Rightarrow> bytes \<Rightarrow> bytes" where
  "frame_bytes ty channel payload =
     [ty] @ be_bytes 2 (unat channel) @ be_bytes 4 (length payload) @ payload @ [FrameEnd]"

definition Send0 :: "u32 \<Rightarrow> u16 \<Rightarrow> Frame0 \<Rightarrow> transport_error0 + bytes" where
  "Send0 frameMax channel frame =
     (case frame of
        MethodFrame m \<Rightarrow>
          (case Method_MarshalBuffer m of Inl e \<Rightarrow> Inl (FrameFailed e)
           | Inr payload \<Rightarrow> Inr (frame_bytes FrameMethod channel
               (be_bytes 2 (unat (fst (MethodMeta m))) @ be_bytes 2 (unat (snd (MethodMeta m))) @ payload)))
      | ContentHeader h \<Rightarrow>
          (case ContentHeaderFrame_MarshalBuffer h of Inl e \<Rightarrow> Inl (FrameFailed e)
           | Inr payload \<Rightarrow> Inr (frame_bytes FrameHeader channel payload))
      | ContentBody data \<Rightarrow>
          if (of_nat (length data + 8) :: u32) > frameMax then Inl FrameTooBig0
          else Inr (frame_bytes FrameBody channel data)
      | HeartbeatFrame \<Rightarrow> Inr (frame_bytes FrameHeartbeat channel []))"

text \<open>The loop returns what was written and the error it stopped at.\<close>

partial_function (option) SendBody_loop ::
    "u32 \<Rightarrow> u16 \<Rightarrow> bytes \<Rightarrow> u32 \<Rightarrow> u32 \<Rightarrow> bytes \<Rightarrow> (bytes \<times> transport_error0 option) outcome option" where
  "SendBody_loop frameMax channel data start stop written =
     (if start < of_nat (length data) then
        let e = (if stop > of_nat (length data) then of_nat (length data) else stop) in
        if e < start then Some (Panic ''slice bounds out of range'')
        else (case Send0 frameMax channel (ContentBody (take (unat (e - start)) (drop (unat start) data))) of
                Inl err \<Rightarrow> Some (Ret (written, Some err))
              | Inr bs \<Rightarrow> SendBody_loop frameMax channel data e (e + frameMax) (written @ bs))
      else Some (Ret (written, None)))"

definition SendBody :: "u32 \<Rightarrow> u16 \<Rightarrow> bytes \<Rightarrow> (bytes \<times> transport_error0 option) outcome option" where
  "SendBody frameMax channel data = SendBody_loop frameMax channel data 0 frameMax []"

subsection \<open>Receiving\<close>

definition frame_of :: "u8 \<Rightarrow> bytes \<Rightarrow> transport_error0 + Frame0" where
  "frame_of ty payload =
     (if ty = FrameMethod then map_sum id MethodFrame (decodeMethodFrame payload)
      else if ty = FrameHeader then map_sum FrameFailed ContentHeader (ContentHeaderFrame_Unmarshal payload)
      else if ty = FrameBody then Inr (ContentBody payload)
      else if ty = FrameHeartbeat then (if length payload > 0 then Inl MalformedFrame0 else Inr HeartbeatFrame)
      else Inl MalformedFrame0)"

definition header_meta0 :: "bytes \<Rightarrow> FrameMeta0" where
  "header_meta0 h =
     \<lparr>FrameMeta0_Type = h ! 0, FrameMeta0_Channel = of_nat (be_value (take 2 (drop 1 h))),
      FrameMeta0_Size = of_nat (be_value (take 4 (drop 3 h)))\<rparr>"

text \<open>The payload and the end of the frame, read into the buffer.\<close>

definition receive_payload :: "FrameMeta0 \<Rightarrow> bytes \<Rightarrow> bytes \<Rightarrow>
    (transport_error0 + (FrameMeta0 \<times> Frame0) \<times> bytes \<times> bytes) outcome" where
  "receive_payload meta data input =
     (let sz = FrameMeta0_Size meta in
      and_then (slice_to data (sz + 1)) (\<lambda>_.
        case split_next (unat (sz + 1)) input of None \<Rightarrow> Ret (Inl ReadFailed0)
        | Some (c, rest) \<Rightarrow>
          let data' = c @ drop (unat (sz + 1)) data in
          if length data' \<le> unat sz then Panic ''index out of range''
          else if data' ! unat sz \<noteq> FrameEnd then Ret (Inl MalformedFrame0)
          else (case frame_of (FrameMeta0_Type meta) (take (unat sz) data') of Inl e \<Rightarrow> Ret (Inl e)
                | Inr f \<Rightarrow> Ret (Inr ((meta, f), data', rest)))))"

definition Receive0 :: "u32 \<Rightarrow> bytes \<Rightarrow> bytes \<Rightarrow> (transport_error0 + (FrameMeta0 \<times> Frame0) \<times> bytes \<times> bytes) outcome" where
  "Receive0 frameMax data input =
     (case split_next 7 input of None \<Rightarrow> Ret (Inl ReadFailed0)
      | Some (h, rest) \<Rightarrow>
        if FrameMeta0_Type (header_meta0 h) = FrameBody \<and> FrameMeta0_Size (header_meta0 h) + 8 > frameMax
        then Ret (Inl FrameTooBig0)
        else receive_payload (header_meta0 h) (grown (h @ drop 7 data) (FrameMeta0_Size (header_meta0 h) + 1)) rest)"

subsection \<open>Frames read back\<close>

fun valid_Method :: "MethodFrame \<Rightarrow> bool" where
  "valid_Method (ConnectionMethod f) \<longleftrightarrow> valid_Connection f"
| "valid_Method (ExchangeMethod f) \<longleftrightarrow> valid_Exchange f"
| "valid_Method (QueueMethod f) \<longleftrightarrow> valid_Queue f"
| "valid_Method (BasicMethod f) \<longleftrightarrow> valid_Basic f"
| "valid_Method _ \<longleftrightarrow> True"

fun valid_Frame0 :: "Frame0 \<Rightarrow> bool" where
  "valid_Frame0 (MethodFrame m) \<longleftrightarrow> valid_Method m"
| "valid_Frame0 (ContentHeader h) \<longleftrightarrow> valid_ContentHeader h"
| "valid_Frame0 _ \<longleftrightarrow> True"

lemma decodeMethodFrame_ids:
  "decodeMethodFrame (be_bytes 2 (unat c) @ be_bytes 2 (unat m) @ args) =
     (if c = 10 then map_sum FrameFailed ConnectionMethod (Connection_decode m args)
      else if c = 20 then map_sum FrameFailed ChannelMethod (Channel_decode m args)
      else if c = 40 then map_sum FrameFailed ExchangeMethod (Exchange_decode m args)
      else if c = 50 then map_sum FrameFailed QueueMethod (Queue_decode m args)
      else if c = 60 then map_sum FrameFailed BasicMethod (Basic_decode m args)
      else if c = 90 then map_sum FrameFailed TxMethod (Tx_decode m args)
      else Inl (FrameFailed UnhandledClass))" for c m :: u16
  using unat_bound(1) [of c] unat_bound(1) [of m] by (simp add: decodeMethodFrame_def Let_def del: be_bytes.simps)

lemma method_decoded:
  assumes "valid_Method m" and "Method_MarshalBuffer m = Inr args" and "length args < 4294967296"
  shows "decodeMethodFrame (be_bytes 2 (unat (fst (MethodMeta m))) @ be_bytes 2 (unat (snd (MethodMeta m))) @ args) = Inr m"
  unfolding decodeMethodFrame_ids using assms
  by (cases m) (simp_all add: Connection_decoded Channel_decoded Exchange_decoded Queue_decoded Basic_decoded Tx_decoded)

text \<open>A frame that was sent is its type and a payload that is read as the frame.\<close>

lemma sent_payload:
  assumes "valid_Frame0 f" and "Send0 frameMax channel f = Inr bs" and "length bs \<le> 2 ^ 31"
  shows "\<exists>ty payload. bs = frame_bytes ty channel payload \<and> frame_of ty payload = Inr f \<and>
    (ty = FrameBody \<longrightarrow> \<not> (of_nat (length payload + 8) :: u32) > frameMax)"
proof (cases f)
  case (MethodFrame m)
  define ids where "ids = be_bytes 2 (unat (fst (MethodMeta m))) @ be_bytes 2 (unat (snd (MethodMeta m)))"
  obtain args where a: "Method_MarshalBuffer m = Inr args" "bs = frame_bytes FrameMethod channel (ids @ args)"
    using assms(2) MethodFrame by (auto simp: Send0_def ids_def split: sum.splits)
  then have "length args < 4294967296" using assms(3) by (simp add: frame_bytes_def)
  then have "frame_of FrameMethod (ids @ args) = Inr f"
    using method_decoded [OF _ a(1)] assms(1) MethodFrame by (simp add: frame_of_def ids_def)
  then show ?thesis using a(2) by (intro exI [of _ FrameMethod] exI [of _ "ids @ args"]) simp
next
  case (ContentHeader h)
  obtain payload where p: "ContentHeaderFrame_MarshalBuffer h = Inr payload" "bs = frame_bytes FrameHeader channel payload"
    using assms(2) ContentHeader by (auto simp: Send0_def split: sum.splits)
  then have "length payload < 4294967296" using assms(3) by (simp add: frame_bytes_def)
  then have "frame_of FrameHeader payload = Inr f"
    using ContentHeader_codec.read_back [OF _ p(1)] assms(1) ContentHeader by (simp add: frame_of_def)
  then show ?thesis using p(2) by (intro exI [of _ FrameHeader] exI [of _ payload]) simp
next
  case (ContentBody data)
  then have "bs = frame_bytes FrameBody channel data" "\<not> (of_nat (length data + 8) :: u32) > frameMax"
    using assms(2) by (simp_all add: Send0_def split: if_splits)
  then show ?thesis using ContentBody by (intro exI [of _ FrameBody] exI [of _ data]) (simp add: frame_of_def)
next
  case HeartbeatFrame
  then show ?thesis using assms(2) by (intro exI [of _ FrameHeartbeat] exI [of _ "[]"]) (simp add: Send0_def frame_of_def)
qed

lemma payload_received:
  assumes "unat (FrameMeta0_Size meta) = length payload" and "length payload < length data" and "length payload < 2 ^ 31"
    and "frame_of (FrameMeta0_Type meta) payload = Inr f"
  shows "receive_payload meta data (payload @ [FrameEnd] @ rest) =
    Ret (Inr ((meta, f), payload @ [FrameEnd] @ drop (Suc (length payload)) data, rest))"
proof -
  have "unat (FrameMeta0_Size meta + 1) = Suc (length payload)"
    using assms(1,3) by (simp add: unat_word_ariths)
  moreover have "split_next (Suc (length payload)) (payload @ FrameEnd # rest) = Some (payload @ [FrameEnd], rest)"
    using split_next_append [of "payload @ [FrameEnd]" "Suc (length payload)" rest] by simp
  ultimately show ?thesis using assms by (simp add: receive_payload_def slice_to_def Let_def nth_append)
qed

lemma header_meta0_header:
  assumes "n < 256 ^ 4"
  shows "header_meta0 ([ty] @ be_bytes 2 (unat channel) @ be_bytes 4 n) =
    \<lparr>FrameMeta0_Type = ty, FrameMeta0_Channel = channel, FrameMeta0_Size = of_nat n\<rparr>"
  using assms unat_bound(1) [of channel] by (simp add: header_meta0_def drop_Cons' del: be_bytes.simps)

end
