(* ===== verification/Amqp_V0_Properties.thy ===== *)
theory Amqp_V0_Properties
  imports Amqp_V0_Transport
begin

text \<open>
  What holds of the transport of AMQP 0.9.1: frames arrive as they were sent, which announced sizes
  crash the receiver, and which bodies can be sent.
\<close>

subsection \<open>Frames\<close>

lemma frame_received:
  assumes "frame_of ty payload = Inr f" and "length payload + 8 \<le> 2 ^ 31"
    and "ty = FrameBody \<Longrightarrow> \<not> (of_nat (length payload + 8) :: u32) > frameMax"
    and "7 \<le> length data" and "length data < 4294967296"
  shows "\<exists>data'. Receive0 frameMax data (frame_bytes ty channel payload @ rest) =
      Ret (Inr ((\<lparr>FrameMeta0_Type = ty, FrameMeta0_Channel = channel, FrameMeta0_Size = of_nat (length payload)\<rparr>, f), data', rest)) \<and>
      length data \<le> length data' \<and> length data' < 4294967296"
proof -
  define h where "h = [ty] @ be_bytes 2 (unat channel) @ be_bytes 4 (length payload)"
  define sz where "sz = (of_nat (length payload) :: u32)"
  define data2 where "data2 = grown (h @ drop 7 data) (sz + 1)"
  let ?meta = "\<lparr>FrameMeta0_Type = ty, FrameMeta0_Channel = channel, FrameMeta0_Size = sz\<rparr>"
  have u: "unat sz = length payload" using assms(2) by (simp add: sz_def unat_of_nat)
  have u1: "unat (sz + 1) = Suc (length payload)" using u assms(2) by (simp add: unat_word_ariths)
  have m: "header_meta0 h = ?meta"
    using header_meta0_header [of "length payload" ty channel] assms(2) by (simp add: h_def sz_def)
  have sp: "split_next 7 (frame_bytes ty channel payload @ rest) = Some (h, payload @ [FrameEnd] @ rest)"
    using split_next_append [of h 7 "payload @ [FrameEnd] @ rest"] by (simp add: h_def frame_bytes_def del: be_bytes.simps)
  have "0 < sz + 1" "unat (sz + 1) \<le> 2 ^ 31" "length (h @ drop 7 data) < 4294967296"
    using u1 assms by (simp_all add: word_less_nat_alt h_def)
  note g = grown_length [OF this, folded data2_def]
  have g': "length payload < length data2" "length data \<le> length data2" "length data2 < 4294967296"
    using g u1 assms(4) by (simp_all add: h_def)
  have "receive_payload ?meta data2 (payload @ [FrameEnd] @ rest) =
      Ret (Inr ((?meta, f), payload @ [FrameEnd] @ drop (Suc (length payload)) data2, rest))"
    by (rule payload_received) (use u g' assms(1,2) in simp_all)
  moreover have "\<not> (ty = FrameBody \<and> sz + 8 > frameMax)" using assms(3) by (simp add: sz_def add.commute)
  ultimately have "Receive0 frameMax data (frame_bytes ty channel payload @ rest) =
      Ret (Inr ((?meta, f), payload @ [FrameEnd] @ drop (Suc (length payload)) data2, rest))"
    unfolding Receive0_def sp by (auto simp: m data2_def)
  then show ?thesis using g' by (auto simp: sz_def)
qed

text \<open>(C35) A method, content header, body or heartbeat that \<open>Send0\<close> writes is received as the
  same frame on the same channel, whatever follows it, and the receiver's buffer stays usable: for
  content headers of the basic class (class 60, the only one with content), tables that survive the table codec, times in
  whole seconds, and frames of at most 2 to the 31 bytes.\<close>

theorem sent_frame0_is_received:
  assumes "valid_Frame0 f" and "Send0 frameMax channel f = Inr bs" and "length bs \<le> 2 ^ 31"
    and "7 \<le> length data" and "length data < 4294967296"
  shows "\<exists>meta data'. Receive0 frameMax data (bs @ rest) = Ret (Inr ((meta, f), data', rest)) \<and>
      FrameMeta0_Channel meta = channel \<and> length data \<le> length data' \<and> length data' < 4294967296"
proof -
  obtain ty payload where p: "bs = frame_bytes ty channel payload" "frame_of ty payload = Inr f"
      "ty = FrameBody \<longrightarrow> \<not> (of_nat (length payload + 8) :: u32) > frameMax"
    using sent_payload [OF assms(1-3)] by auto
  then have "length payload + 8 \<le> 2 ^ 31" using assms(3) by (simp add: frame_bytes_def)
  from frame_received [OF p(2) this _ assms(4,5), of frameMax channel rest] p(1,3)
  show ?thesis by auto
qed

subsection \<open>Announced sizes\<close>

lemma payload_returns:
  assumes "unat (FrameMeta0_Size meta) < 2 ^ 31" and "unat (FrameMeta0_Size meta + 1) \<le> length data"
  shows "receive_payload meta data input \<noteq> Panic msg"
proof -
  have "unat (FrameMeta0_Size meta + 1) = Suc (unat (FrameMeta0_Size meta))"
    using assms(1) by (simp add: unat_word_ariths)
  then show ?thesis using assms(2)
    by (auto simp: receive_payload_def slice_to_def Let_def split_next_def split: sum.splits)
qed

lemma payload_panics:
  assumes "2 ^ 31 \<le> unat (FrameMeta0_Size meta)" and "length data \<le> 2 ^ 31"
  shows "\<exists>msg. receive_payload meta (grown data (FrameMeta0_Size meta + 1)) input = Panic msg"
proof (cases "FrameMeta0_Size meta + 1 = 0")
  case True
  then have "grown data (FrameMeta0_Size meta + 1) = data" by (simp add: grown_def)
  moreover have "unat (FrameMeta0_Size meta) = 4294967295"
    using True by (simp add: eq_neg_iff_add_eq_0 [symmetric] unsigned_minus_1_eq_mask mask_eq_exp_minus_1)
  ultimately show ?thesis
    using assms(2) True by (simp add: receive_payload_def slice_to_def split_next_def Let_def)
next
  case False
  have u: "unat (FrameMeta0_Size meta + 1) = Suc (unat (FrameMeta0_Size meta))"
    using False by (simp add: unatSuc add.commute)
  have "of_nat (length data) < FrameMeta0_Size meta + 1"
    using u assms by (simp add: word_less_nat_alt unat_of_nat)
  moreover have "NextPowerOfTwo32 (FrameMeta0_Size meta + 1) = 0"
    using NextPowerOfTwo32_spec [of "FrameMeta0_Size meta + 1"] u assms(1) by simp
  ultimately show ?thesis using u by (simp add: grown_def receive_payload_def slice_to_def Let_def)
qed

text \<open>(C36) The receiver panics exactly on a frame that announces 2 to the 31 bytes or more and is
  not refused as a body that is too big: the size of the new buffer wraps around to 0.\<close>

theorem receive0_panics_iff:
  assumes "4096 \<le> length data" and "length data \<le> 2 ^ 31"
  shows "(\<exists>msg. Receive0 frameMax data input = Panic msg) \<longleftrightarrow>
    7 \<le> length input \<and> 2 ^ 31 \<le> unat (FrameMeta0_Size (header_meta0 (take 7 input))) \<and>
    \<not> (FrameMeta0_Type (header_meta0 (take 7 input)) = FrameBody \<and> FrameMeta0_Size (header_meta0 (take 7 input)) + 8 > frameMax)"
proof (cases "7 \<le> length input")
  case False
  then show ?thesis by (simp add: Receive0_def split_next_def)
next
  case True
  define h where "h = take 7 input"
  define meta where "meta = header_meta0 h"
  have r: "Receive0 frameMax data input =
      (if FrameMeta0_Type meta = FrameBody \<and> FrameMeta0_Size meta + 8 > frameMax then Ret (Inl FrameTooBig0)
       else receive_payload meta (grown (h @ drop 7 data) (FrameMeta0_Size meta + 1)) (drop 7 input))"
    using True by (simp add: Receive0_def split_next_def h_def meta_def)
  have l: "length (h @ drop 7 data) = length data" using True assms(1) by (simp add: h_def)
  show ?thesis
  proof (cases "2 ^ 31 \<le> unat (FrameMeta0_Size meta)")
    case big: True
    from payload_panics [OF big, of "h @ drop 7 data" "drop 7 input"] show ?thesis
      using big l assms(2) r True unfolding h_def [symmetric] meta_def [symmetric] by auto
  next
    case False
    then have "0 < FrameMeta0_Size meta + 1" "unat (FrameMeta0_Size meta + 1) \<le> 2 ^ 31"
      by (simp_all add: word_less_nat_alt unat_word_ariths)
    from grown_length(1) [OF this, of "h @ drop 7 data"] l assms(2)
    have "receive_payload meta (grown (h @ drop 7 data) (FrameMeta0_Size meta + 1)) (drop 7 input) \<noteq> Panic msg" for msg
      using False by (intro payload_returns) simp_all
    then show ?thesis using False r unfolding h_def [symmetric] meta_def [symmetric] by auto
  qed
qed

subsection \<open>Bodies\<close>

text \<open>(C37) \<open>SendBody\<close> always returns, and it sends a body as one frame or not at all: it cuts the body
  into pieces of the negotiated frame size, which leave no room for the eight bytes around
  them, so a body that does not fit one frame is an error.\<close>

theorem send_body_one_frame:
  assumes "length data + 8 < 4294967296"
  shows "SendBody frameMax channel data =
    Some (Ret (if data = [] then ([], None)
               else if length data + 8 \<le> unat frameMax then (frame_bytes FrameBody channel data, None)
               else ([], Some FrameTooBig0)))"
proof (cases "data = []")
  case True
  then show ?thesis by (simp add: SendBody_def SendBody_loop.simps)
next
  case False
  define n where "n = (of_nat (length data) :: u32)"
  have n: "unat n = length data" using assms by (simp add: n_def unat_of_nat)
  define e where "e = (if frameMax > n then n else frameMax)"
  have e: "unat e \<le> length data" using n by (auto simp: e_def word_less_nat_alt)
  have "unat (of_nat (unat e + 8) :: u32) = unat e + 8" using e assms unfolding unat_of_nat by simp
  then have big: "(of_nat (unat e + 8) :: u32) > frameMax \<longleftrightarrow> unat frameMax < unat e + 8"
    by (simp add: word_less_nat_alt)
  have "0 < n" using n False by (simp add: word_less_nat_alt)
  then have step: "SendBody frameMax channel data =
      (case Send0 frameMax channel (ContentBody (take (unat e) data)) of Inl err \<Rightarrow> Some (Ret ([], Some err))
       | Inr bs \<Rightarrow> SendBody_loop frameMax channel data e (e + frameMax) bs)"
    unfolding SendBody_def by (subst SendBody_loop.simps) (simp add: n_def [symmetric] e_def Let_def cong: sum.case_cong)
  show ?thesis
  proof (cases "length data + 8 \<le> unat frameMax")
    case True
    then have "e = n" using n by (simp add: e_def word_less_nat_alt)
    then show ?thesis
      using True False n step big by (simp add: Send0_def SendBody_loop.simps [of _ _ _ n] n_def [symmetric] min_def)
  next
    case False': False
    then have "unat frameMax < unat e + 8" using n by (auto simp: e_def word_less_nat_alt)
    then show ?thesis using False False' e step big by (simp add: Send0_def min_def)
  qed
qed

subsection \<open>Instances\<close>

definition demo_publish :: Frame0 where
  "demo_publish = MethodFrame (BasicMethod (BasicPublishFrame
     \<lparr>BasicPublish_Reserved1 = 0, BasicPublish_Exchange = ''e'', BasicPublish_RoutingKey = ''k'',
      BasicPublish_Mandatory = True, BasicPublish_Immediate = False\<rparr>))"

definition sent0 :: "'e + bytes \<Rightarrow> bytes" where
  "sent0 r = (case r of Inl _ \<Rightarrow> [] | Inr bs \<Rightarrow> bs)"

lemma demo_publish_sent:
  "\<exists>bs. Send0 4096 7 demo_publish = Inr bs \<and> length bs \<le> 100"
  by (simp add: demo_publish_def Send0_def BasicPublish_MarshalBuffer_def write_uint_def write_shortstr_def write_bits_def
      frame_bytes_def del: be_bytes.simps)

theorem sent_frame0_is_received_witness:
  "\<exists>meta data'. Receive0 4096 (replicate 4096 0) (sent0 (Send0 4096 7 demo_publish) @ [1, 2]) =
      Ret (Inr ((meta, demo_publish), data', [1, 2])) \<and>
      FrameMeta0_Channel meta = 7 \<and> length (replicate 4096 (0::u8)) \<le> length data' \<and> length data' < 4294967296"
proof (rule sent_frame0_is_received)
  show "valid_Frame0 demo_publish" by (simp add: demo_publish_def)
  show "Send0 4096 7 demo_publish = Inr (sent0 (Send0 4096 7 demo_publish))"
    "length (sent0 (Send0 4096 7 demo_publish)) \<le> 2 ^ 31"
    using demo_publish_sent by (auto simp: sent0_def)
qed simp_all

theorem receive0_panics_iff_witness:
  "\<exists>msg. Receive0 4096 (replicate 4096 0) [1, 0, 0, 128, 0, 0, 0] = Panic msg"
  using receive0_panics_iff [of "replicate 4096 0" 4096 "[1, 0, 0, 128, 0, 0, 0]"] by (simp add: header_meta0_def)

theorem send_body_one_frame_witness:
  "SendBody 4096 7 [1, 2, 3] = Some (Ret (frame_bytes FrameBody 7 [1, 2, 3], None)) \<and>
   SendBody 4096 7 (replicate 4089 0) = Some (Ret ([], Some FrameTooBig0))"
  using send_body_one_frame [of "[1, 2, 3]" 4096 7] send_body_one_frame [of "replicate 4089 0" 4096 7] by simp

end
