(* ===== verification/Amqp_V1_Types.thy ===== *)
theory Amqp_V1_Types
  imports Amqp_Values
begin

text \<open>
  The primitive types of AMQP 1.0, \<^verbatim>\<open>amqp/v1/marshal.go\<close> and
  \<^verbatim>\<open>amqp/v1/unmarshal.go\<close>: a value is a constructor byte and its bytes. The writers of the
  source never fail. A reader is given the constructor, which its caller has read, and the buffer,
  and returns the value and what is left of the buffer. Signed integers are of type \<open>int\<close>, in the
  range of their width; \<^verbatim>\<open>float32\<close> and \<^verbatim>\<open>float64\<close> are their bit patterns.
\<close>

subsection \<open>Constructors\<close>

abbreviation DescriptorEncoding :: u8 where "DescriptorEncoding \<equiv> 0x00"
abbreviation NullEncoding :: u8 where "NullEncoding \<equiv> 0x40"
abbreviation BooleanEncoding :: u8 where "BooleanEncoding \<equiv> 0x56"
abbreviation BooleanTrueEncoding :: u8 where "BooleanTrueEncoding \<equiv> 0x41"
abbreviation BooleanFalseEncoding :: u8 where "BooleanFalseEncoding \<equiv> 0x42"
abbreviation UbyteEncoding :: u8 where "UbyteEncoding \<equiv> 0x50"
abbreviation UshortEncoding :: u8 where "UshortEncoding \<equiv> 0x60"
abbreviation UintEncoding :: u8 where "UintEncoding \<equiv> 0x70"
abbreviation UintSmalluintEncoding :: u8 where "UintSmalluintEncoding \<equiv> 0x52"
abbreviation Uint0Encoding :: u8 where "Uint0Encoding \<equiv> 0x43"
abbreviation UlongEncoding :: u8 where "UlongEncoding \<equiv> 0x80"
abbreviation UlongSmallulongEncoding :: u8 where "UlongSmallulongEncoding \<equiv> 0x53"
abbreviation Ulong0Encoding :: u8 where "Ulong0Encoding \<equiv> 0x44"
abbreviation ByteEncoding :: u8 where "ByteEncoding \<equiv> 0x51"
abbreviation ShortEncoding :: u8 where "ShortEncoding \<equiv> 0x61"
abbreviation IntEncoding :: u8 where "IntEncoding \<equiv> 0x71"
abbreviation IntSmallintEncoding :: u8 where "IntSmallintEncoding \<equiv> 0x54"
abbreviation LongEncoding :: u8 where "LongEncoding \<equiv> 0x81"
abbreviation LongSmalllongEncoding :: u8 where "LongSmalllongEncoding \<equiv> 0x55"
abbreviation FloatIeee754Encoding :: u8 where "FloatIeee754Encoding \<equiv> 0x72"
abbreviation DoubleIeee754Encoding :: u8 where "DoubleIeee754Encoding \<equiv> 0x82"
abbreviation Decimal32Ieee754Encoding :: u8 where "Decimal32Ieee754Encoding \<equiv> 0x74"
abbreviation Decimal64Ieee754Encoding :: u8 where "Decimal64Ieee754Encoding \<equiv> 0x84"
abbreviation Decimal128Ieee754Encoding :: u8 where "Decimal128Ieee754Encoding \<equiv> 0x94"
abbreviation CharUtf32Encoding :: u8 where "CharUtf32Encoding \<equiv> 0x73"
abbreviation TimestampMs64Encoding :: u8 where "TimestampMs64Encoding \<equiv> 0x83"
abbreviation UUIDEncoding :: u8 where "UUIDEncoding \<equiv> 0x98"
abbreviation BinaryVbin8Encoding :: u8 where "BinaryVbin8Encoding \<equiv> 0xa0"
abbreviation BinaryVbin32Encoding :: u8 where "BinaryVbin32Encoding \<equiv> 0xb0"
abbreviation StringStr8Utf8Encoding :: u8 where "StringStr8Utf8Encoding \<equiv> 0xa1"
abbreviation StringStr32Utf8Encoding :: u8 where "StringStr32Utf8Encoding \<equiv> 0xb1"
abbreviation SymbolSym8Encoding :: u8 where "SymbolSym8Encoding \<equiv> 0xa3"
abbreviation SymbolSym32Encoding :: u8 where "SymbolSym32Encoding \<equiv> 0xb3"
abbreviation List0Encoding :: u8 where "List0Encoding \<equiv> 0x45"
abbreviation List8Encoding :: u8 where "List8Encoding \<equiv> 0xc0"
abbreviation List32Encoding :: u8 where "List32Encoding \<equiv> 0xd0"
abbreviation Map8Encoding :: u8 where "Map8Encoding \<equiv> 0xc1"
abbreviation Map32Encoding :: u8 where "Map32Encoding \<equiv> 0xd1"
abbreviation Array8Encoding :: u8 where "Array8Encoding \<equiv> 0xe0"
abbreviation Array32Encoding :: u8 where "Array32Encoding \<equiv> 0xf0"

type_synonym 'a read = "codec_error + 'a \<times> bytes"

definition read8 :: "(u8 \<Rightarrow> 'a) \<Rightarrow> bytes \<Rightarrow> 'a read" where
  "read8 f buf = (case buf of [] \<Rightarrow> Inl Underflow | v # rest \<Rightarrow> Inr (f v, rest))"

definition read_fixed :: "nat \<Rightarrow> (nat \<Rightarrow> 'a) \<Rightarrow> bytes \<Rightarrow> 'a read" where
  "read_fixed k f buf =
     (case split_next k buf of None \<Rightarrow> Inl Underflow | Some (x, rest) \<Rightarrow> Inr (f (be_value x), rest))"

text \<open>A length of one or of four bytes, and as many bytes.\<close>

definition read_var8 :: "(bytes \<Rightarrow> 'a) \<Rightarrow> bytes \<Rightarrow> 'a read" where
  "read_var8 f buf =
     (case buf of [] \<Rightarrow> Inl Underflow
      | v # buf' \<Rightarrow> (case split_next (unat v) buf' of None \<Rightarrow> Inl Underflow | Some (x, rest) \<Rightarrow> Inr (f x, rest)))"

definition read_var32 :: "(bytes \<Rightarrow> 'a) \<Rightarrow> bytes \<Rightarrow> 'a read" where
  "read_var32 f buf =
     (case split_next 4 buf of None \<Rightarrow> Inl Underflow
      | Some (l, buf') \<Rightarrow>
        (case split_next (be_value l) buf' of None \<Rightarrow> Inl Underflow | Some (x, rest) \<Rightarrow> Inr (f x, rest)))"

subsection \<open>Writing\<close>

definition marshalNull :: bytes where
  "marshalNull = [NullEncoding]"

definition marshalBoolean :: "bool \<Rightarrow> bytes" where
  "marshalBoolean src = (if src then [BooleanTrueEncoding] else [BooleanFalseEncoding])"

definition marshalUbyte :: "u8 \<Rightarrow> bytes" where
  "marshalUbyte src = [UbyteEncoding, src]"

definition marshalByte :: "int \<Rightarrow> bytes" where
  "marshalByte src = [ByteEncoding, of_int src]"

definition marshalUshort :: "u16 \<Rightarrow> bytes" where
  "marshalUshort src = UshortEncoding # be_bytes 2 (unat src)"

definition marshalShort :: "int \<Rightarrow> bytes" where
  "marshalShort src = ShortEncoding # be_bytes 2 (twos 2 src)"

definition marshalUint :: "u32 \<Rightarrow> bytes" where
  "marshalUint src =
     (if src = 0 then [Uint0Encoding]
      else if src \<le> 255 then [UintSmalluintEncoding, ucast src]
      else UintEncoding # be_bytes 4 (unat src))"

definition marshalInt :: "int \<Rightarrow> bytes" where
  "marshalInt src =
     (if -128 \<le> src \<and> src \<le> 127 then [IntSmallintEncoding, of_int src]
      else IntEncoding # be_bytes 4 (twos 4 src))"

definition marshalUlong :: "u64 \<Rightarrow> bytes" where
  "marshalUlong src =
     (if src = 0 then [Ulong0Encoding]
      else if src \<le> 255 then [UlongSmallulongEncoding, ucast src]
      else UlongEncoding # be_bytes 8 (unat src))"

definition marshalLong :: "int \<Rightarrow> bytes" where
  "marshalLong src =
     (if -128 \<le> src \<and> src \<le> 127 then [LongSmalllongEncoding, of_int src]
      else LongEncoding # be_bytes 8 (twos 8 src))"

definition marshalFloat :: "u32 \<Rightarrow> bytes" where
  "marshalFloat src = FloatIeee754Encoding # be_bytes 4 (unat src)"

definition marshalDouble :: "u64 \<Rightarrow> bytes" where
  "marshalDouble src = DoubleIeee754Encoding # be_bytes 8 (unat src)"

definition marshalChar :: "int \<Rightarrow> bytes" where
  "marshalChar src = CharUtf32Encoding # be_bytes 4 (twos 4 src)"

text \<open>\<^verbatim>\<open>UnixNano\<close> counts from 1970, modulo \<open>2\<^sup>6\<^sup>4\<close>; Go's division truncates; a time before 1970 is written as 0.\<close>

definition UnixNano :: "gotime \<Rightarrow> int" where
  "UnixNano t = i64 (t - unix_epoch)"

definition marshalTimestamp :: "gotime \<Rightarrow> bytes" where
  "marshalTimestamp src =
     (let millis = sgn (UnixNano src) * (abs (UnixNano src) div 1000000)
      in TimestampMs64Encoding # (if millis > 0 then be_bytes 8 (twos 8 millis) else replicate 8 0))"

definition marshalUUID :: "bytes \<Rightarrow> bytes" where
  "marshalUUID src = UUIDEncoding # src"

definition marshalBinary :: "bytes \<Rightarrow> bytes" where
  "marshalBinary src =
     (if length src \<le> 255 then BinaryVbin8Encoding # of_nat (length src) # src
      else BinaryVbin32Encoding # be_bytes 4 (length src) @ src)"

definition marshalString :: "string \<Rightarrow> bytes" where
  "marshalString src =
     (if length src \<le> 255 then StringStr8Utf8Encoding # of_nat (length src) # string_bytes src
      else StringStr32Utf8Encoding # be_bytes 4 (length src) @ string_bytes src)"

text \<open>A long symbol has the constructor of a short one.\<close>

definition marshalSymbol :: "string \<Rightarrow> bytes" where
  "marshalSymbol src =
     (if length src \<le> 255 then SymbolSym8Encoding # of_nat (length src) # string_bytes src
      else SymbolSym8Encoding # be_bytes 4 (length src) @ string_bytes src)"

subsection \<open>Reading\<close>

definition unmarshalBoolean :: "u8 \<Rightarrow> bytes \<Rightarrow> bool read" where
  "unmarshalBoolean c buf =
     (if c = NullEncoding then Inr (False, buf)
      else if c = BooleanEncoding then read8 (\<lambda>v. v \<noteq> 0) buf
      else if c = BooleanTrueEncoding then Inr (True, buf)
      else if c = BooleanFalseEncoding then Inr (False, buf)
      else Inl (UnexpectedConstructor c))"

definition unmarshalUbyte :: "u8 \<Rightarrow> bytes \<Rightarrow> u8 read" where
  "unmarshalUbyte c buf =
     (if c = NullEncoding then Inr (0, buf)
      else if c = UbyteEncoding then read8 (\<lambda>v. v) buf
      else Inl (UnexpectedConstructor c))"

definition unmarshalByte :: "u8 \<Rightarrow> bytes \<Rightarrow> int read" where
  "unmarshalByte c buf =
     (if c = NullEncoding then Inr (0, buf)
      else if c = ByteEncoding then read8 sint buf
      else Inl (UnexpectedConstructor c))"

definition unmarshalUshort :: "u8 \<Rightarrow> bytes \<Rightarrow> u16 read" where
  "unmarshalUshort c buf =
     (if c = NullEncoding then Inr (0, buf)
      else if c = UshortEncoding then read_fixed 2 of_nat buf
      else Inl (UnexpectedConstructor c))"

definition unmarshalShort :: "u8 \<Rightarrow> bytes \<Rightarrow> int read" where
  "unmarshalShort c buf =
     (if c = NullEncoding then Inr (0, buf)
      else if c = ShortEncoding then read_fixed 2 (signed_value 2) buf
      else Inl (UnexpectedConstructor c))"

definition unmarshalUint :: "u8 \<Rightarrow> bytes \<Rightarrow> u32 read" where
  "unmarshalUint c buf =
     (if c = NullEncoding then Inr (0, buf)
      else if c = Uint0Encoding then Inr (0, buf)
      else if c = UintSmalluintEncoding then read8 ucast buf
      else if c = UintEncoding then read_fixed 4 of_nat buf
      else Inl (UnexpectedConstructor c))"

definition unmarshalInt :: "u8 \<Rightarrow> bytes \<Rightarrow> int read" where
  "unmarshalInt c buf =
     (if c = NullEncoding then Inr (0, buf)
      else if c = IntSmallintEncoding then read8 sint buf
      else if c = IntEncoding then read_fixed 4 (signed_value 4) buf
      else Inl (UnexpectedConstructor c))"

definition unmarshalUlong :: "u8 \<Rightarrow> bytes \<Rightarrow> u64 read" where
  "unmarshalUlong c buf =
     (if c = NullEncoding then Inr (0, buf)
      else if c = Ulong0Encoding then Inr (0, buf)
      else if c = UlongSmallulongEncoding then read8 ucast buf
      else if c = UlongEncoding then read_fixed 8 of_nat buf
      else Inl (UnexpectedConstructor c))"

definition unmarshalLong :: "u8 \<Rightarrow> bytes \<Rightarrow> int read" where
  "unmarshalLong c buf =
     (if c = NullEncoding then Inr (0, buf)
      else if c = LongSmalllongEncoding then read8 sint buf
      else if c = LongEncoding then read_fixed 8 (signed_value 8) buf
      else Inl (UnexpectedConstructor c))"

definition unmarshalFloat :: "u8 \<Rightarrow> bytes \<Rightarrow> u32 read" where
  "unmarshalFloat c buf =
     (if c = NullEncoding then Inr (0, buf)
      else if c = FloatIeee754Encoding then read_fixed 4 of_nat buf
      else Inl (UnexpectedConstructor c))"

definition unmarshalDouble :: "u8 \<Rightarrow> bytes \<Rightarrow> u64 read" where
  "unmarshalDouble c buf =
     (if c = NullEncoding then Inr (0, buf)
      else if c = DoubleIeee754Encoding then read_fixed 8 of_nat buf
      else Inl (UnexpectedConstructor c))"

definition unmarshalChar :: "u8 \<Rightarrow> bytes \<Rightarrow> int read" where
  "unmarshalChar c buf =
     (if c = NullEncoding then Inr (0, buf)
      else if c = CharUtf32Encoding then read_fixed 4 (signed_value 4) buf
      else Inl (UnexpectedConstructor c))"

definition unmarshalTimestamp :: "u8 \<Rightarrow> bytes \<Rightarrow> gotime read" where
  "unmarshalTimestamp c buf =
     (if c = NullEncoding then Inr (0, buf)
      else if c = TimestampMs64Encoding then read_fixed 8 (\<lambda>n. unix_epoch + signed_value 8 n * 1000000) buf
      else Inl (UnexpectedConstructor c))"

definition unmarshalUUID :: "u8 \<Rightarrow> bytes \<Rightarrow> bytes read" where
  "unmarshalUUID c buf =
     (if c = NullEncoding then Inr (replicate 16 0, buf)
      else if c = UUIDEncoding then
        (case split_next 16 buf of None \<Rightarrow> Inl Underflow | Some (x, rest) \<Rightarrow> Inr (x, rest))
      else Inl (UnexpectedConstructor c))"

definition unmarshalBinary :: "u8 \<Rightarrow> bytes \<Rightarrow> bytes option read" where
  "unmarshalBinary c buf =
     (if c = NullEncoding then Inr (None, buf)
      else if c = BinaryVbin8Encoding then read_var8 Some buf
      else if c = BinaryVbin32Encoding then read_var32 Some buf
      else Inl (UnexpectedConstructor c))"

definition unmarshalString :: "u8 \<Rightarrow> bytes \<Rightarrow> string read" where
  "unmarshalString c buf =
     (if c = NullEncoding then Inr ([], buf)
      else if c = StringStr8Utf8Encoding then read_var8 bytes_string buf
      else if c = StringStr32Utf8Encoding then read_var32 bytes_string buf
      else Inl (UnexpectedConstructor c))"

definition unmarshalSymbol :: "u8 \<Rightarrow> bytes \<Rightarrow> string read" where
  "unmarshalSymbol c buf =
     (if c = NullEncoding then Inr ([], buf)
      else if c = SymbolSym8Encoding then read_var8 bytes_string buf
      else if c = SymbolSym32Encoding then read_var32 bytes_string buf
      else Inl (UnexpectedConstructor c))"

subsection \<open>What is written is read back\<close>

text \<open>\<open>reads p\<close>: given the constructor, the reader \<open>f\<close> takes exactly the bytes that were written
  and returns the value.\<close>

definition reads :: "(u8 \<Rightarrow> bytes \<Rightarrow> 'a read) \<Rightarrow> bytes \<Rightarrow> 'a \<Rightarrow> bool" where
  "reads f bs v \<longleftrightarrow> bs \<noteq> [] \<and> (\<forall>rest. f (hd bs) (tl bs @ rest) = Inr (v, rest))"

lemma readsD: "reads f bs v \<Longrightarrow> f (hd bs) (tl bs @ rest) = Inr (v, rest)"
  by (simp add: reads_def)

lemma read_fixed_bytes [simp]: "n < 256 ^ k \<Longrightarrow> read_fixed k f (be_bytes k n @ rest) = Inr (f n, rest)"
  by (simp add: read_fixed_def)

lemma read_var8_bytes [simp]:
  "length x = n \<Longrightarrow> n \<le> 255 \<Longrightarrow> read_var8 f (of_nat n # x @ rest) = Inr (f x, rest)"
  by (simp add: read_var8_def unat_of_nat_u8)

lemma read_var32_bytes [simp]:
  "length x = n \<Longrightarrow> n < 4294967296 \<Longrightarrow> read_var32 f (be_bytes 4 n @ x @ rest) = Inr (f x, rest)"
  by (simp add: read_var32_def)

lemma small_word:
  "x \<le> 255 \<Longrightarrow> ucast (ucast x :: u8) = x" "y \<le> 255 \<Longrightarrow> ucast (ucast y :: u8) = y" for x :: u32 and y :: u64
proof -
  assume "x \<le> 255"
  then have "uint x \<le> 255" by (simp add: word_le_def)
  then show "ucast (ucast x :: u8) = x"
    by (intro word_uint_eqI) (simp add: unsigned_ucast_eq unsigned_take_bit_eq take_bit_int_eq_self)
next
  assume "y \<le> 255"
  then have "uint y \<le> 255" by (simp add: word_le_def)
  then show "ucast (ucast y :: u8) = y"
    by (intro word_uint_eqI) (simp add: unsigned_ucast_eq unsigned_take_bit_eq take_bit_int_eq_self)
qed

lemma small_int: "-128 \<le> n \<Longrightarrow> n \<le> 127 \<Longrightarrow> sint (of_int n :: u8) = n"
  by (simp add: signed_of_int signed_take_bit_int_eq_self)

lemma reads_Boolean: "reads unmarshalBoolean (marshalBoolean b) b"
  by (simp add: reads_def unmarshalBoolean_def marshalBoolean_def)

lemma reads_Ubyte: "reads unmarshalUbyte (marshalUbyte v) v"
  by (simp add: reads_def unmarshalUbyte_def marshalUbyte_def read8_def)

lemma reads_Byte: "-128 \<le> n \<Longrightarrow> n \<le> 127 \<Longrightarrow> reads unmarshalByte (marshalByte n) n"
  by (simp add: reads_def unmarshalByte_def marshalByte_def read8_def small_int)

lemma reads_Ushort: "reads unmarshalUshort (marshalUshort v) v"
  using unat_bound by (simp add: reads_def unmarshalUshort_def marshalUshort_def del: be_bytes.simps)

lemma reads_Short: "-32768 \<le> n \<Longrightarrow> n \<le> 32767 \<Longrightarrow> reads unmarshalShort (marshalShort n) n"
  using twos_less [of 2 n] by (simp add: reads_def unmarshalShort_def marshalShort_def signed_twos del: be_bytes.simps)

lemma reads_Uint: "reads unmarshalUint (marshalUint v) v"
  using unat_bound by (simp add: reads_def unmarshalUint_def marshalUint_def read8_def small_word del: be_bytes.simps)

lemma reads_Int: "-2147483648 \<le> n \<Longrightarrow> n \<le> 2147483647 \<Longrightarrow> reads unmarshalInt (marshalInt n) n"
  using twos_less [of 4 n]
  by (simp add: reads_def unmarshalInt_def marshalInt_def read8_def small_int signed_twos del: be_bytes.simps)

lemma reads_Ulong: "reads unmarshalUlong (marshalUlong v) v"
  using unat_bound by (simp add: reads_def unmarshalUlong_def marshalUlong_def read8_def small_word del: be_bytes.simps)

lemma reads_Long: "- (2 ^ 63) \<le> n \<Longrightarrow> n < 2 ^ 63 \<Longrightarrow> reads unmarshalLong (marshalLong n) n"
  using twos_less [of 8 n]
  by (simp add: reads_def unmarshalLong_def marshalLong_def read8_def small_int signed_twos del: be_bytes.simps)

lemma reads_Float: "reads unmarshalFloat (marshalFloat v) v"
  using unat_bound by (simp add: reads_def unmarshalFloat_def marshalFloat_def del: be_bytes.simps)

lemma reads_Double: "reads unmarshalDouble (marshalDouble v) v"
  using unat_bound by (simp add: reads_def unmarshalDouble_def marshalDouble_def del: be_bytes.simps)

lemma reads_Char: "-2147483648 \<le> n \<Longrightarrow> n \<le> 2147483647 \<Longrightarrow> reads unmarshalChar (marshalChar n) n"
  using twos_less [of 4 n] by (simp add: reads_def unmarshalChar_def marshalChar_def signed_twos del: be_bytes.simps)

lemma reads_UUID: "length u = 16 \<Longrightarrow> reads unmarshalUUID (marshalUUID u) u"
  by (simp add: reads_def unmarshalUUID_def marshalUUID_def)

lemma reads_Binary: "length x < 4294967296 \<Longrightarrow> reads unmarshalBinary (marshalBinary x) (Some x)"
  by (simp add: reads_def unmarshalBinary_def marshalBinary_def del: be_bytes.simps)

lemma reads_String: "length s < 4294967296 \<Longrightarrow> reads unmarshalString (marshalString s) s"
  by (simp add: reads_def unmarshalString_def marshalString_def del: be_bytes.simps)

text \<open>Only symbols of up to 255 bytes are read back.\<close>

lemma reads_Symbol: "length s \<le> 255 \<Longrightarrow> reads unmarshalSymbol (marshalSymbol s) s"
  by (simp add: reads_def unmarshalSymbol_def marshalSymbol_def)

lemma be_bytes_zero: "be_bytes k 0 = replicate k 0"
  by (induction k) auto

text \<open>A time from 1970 on is read back to the millisecond.\<close>

lemma reads_Timestamp:
  assumes "unix_epoch \<le> t" and "t < unix_epoch + 2 ^ 63"
  shows "reads unmarshalTimestamp (marshalTimestamp t) (unix_epoch + (t - unix_epoch) div 1000000 * 1000000)"
proof -
  define n where "n = t - unix_epoch"
  have n: "0 \<le> n" "n < 2 ^ 63" using assms by (simp_all add: n_def)
  have u: "UnixNano t = n" using n by (simp add: UnixNano_def n_def)
  have m: "sgn n * (abs n div 1000000) = n div 1000000" using n by (cases "n = 0") auto
  have d: "0 \<le> n div 1000000" "n div 1000000 < 2 ^ 63" using n by auto
  have z: "replicate 8 0 = be_bytes 8 (twos 8 0)" by (simp add: twos_def be_bytes_zero)
  have w: "(if n div 1000000 > 0 then be_bytes 8 (twos 8 (n div 1000000)) else replicate 8 0) =
      be_bytes 8 (twos 8 (n div 1000000))"
    using d(1) unfolding z by (cases "n div 1000000 = 0") (auto simp del: be_bytes.simps)
  have "signed_value 8 (twos 8 (n div 1000000)) = n div 1000000"
    using d by (intro signed_twos) auto
  then show ?thesis
    using twos_less [of 8 "n div 1000000"]
    by (simp add: reads_def unmarshalTimestamp_def marshalTimestamp_def u m w Let_def n_def [symmetric]
        del: be_bytes.simps)
qed

end
