(* ===== verification/Amqp_V1_Codec.thy ===== *)
theory Amqp_V1_Codec
  imports Amqp_V1_Types
begin

text \<open>
  The compound values of AMQP 1.0 and the unions of its messages: lists, maps, arrays, arrays of
  symbols, message ids, addresses, error conditions, and the sections of a message. Reading an
  array may crash the process (\<^verbatim>\<open>buf.Next\<close> of a negative count), so a reader of
  compound values returns one of three things. How a time is formatted is a parameter. A map is
  written in the order of its entries.
\<close>

datatype 'a decoded = Crash | Wrong codec_error | Got 'a bytes

fun decoded_of :: "('a \<Rightarrow> 'b) \<Rightarrow> 'a read \<Rightarrow> 'b decoded" where
  "decoded_of f (Inl e) = Wrong e"
| "decoded_of f (Inr (v, rest)) = Got (f v) rest"

subsection \<open>Writing values\<close>

definition marshalNumber1 :: "u64 \<Rightarrow> bytes" where
  "marshalNumber1 b =
     (if f64_integral b then
        let n = f64_to_i64 b in
        if -128 \<le> n \<and> n \<le> 127 then marshalByte n
        else if -32768 \<le> n \<and> n \<le> 32767 then marshalShort n
        else if -2147483648 \<le> n \<and> n \<le> 2147483647 then marshalInt n
        else marshalLong n
      else marshalDouble b)"

text \<open>The constructor, the size and the count of a compound value with the given items.\<close>

definition compound :: "u8 \<Rightarrow> u8 \<Rightarrow> nat \<Rightarrow> bytes \<Rightarrow> bytes" where
  "compound c8 c32 n items =
     (if length items + 1 \<le> 255 \<and> n \<le> 255 then
        c8 # of_nat (length items + 1) # of_nat n # items
      else c32 # be_bytes 4 (length items + 4) @ be_bytes 4 n @ items)"

fun marshalValue1 :: "pvalue \<Rightarrow> bytes"
and marshalItems1 :: "pvalue list \<Rightarrow> bytes"
and marshalEntries1 :: "pfields \<Rightarrow> bytes" where
  "marshalValue1 NullValue = [NullEncoding]"
| "marshalValue1 (NumberValue b) = marshalNumber1 b"
| "marshalValue1 (StringValue s) = marshalString s"
| "marshalValue1 (BoolValue b) = marshalBoolean b"
| "marshalValue1 (StructValue None) = [Map8Encoding, 0]"
| "marshalValue1 (StructValue (Some m)) = compound Map8Encoding Map32Encoding (length m * 2) (marshalEntries1 m)"
| "marshalValue1 (ListValue vs) =
     (if vs = [] then [List0Encoding]
      else compound List8Encoding List32Encoding (length vs) (marshalItems1 vs))"
| "marshalItems1 [] = []"
| "marshalItems1 (v # vs) = marshalValue1 v @ marshalItems1 vs"
| "marshalEntries1 [] = []"
| "marshalEntries1 ((key, v) # m) = marshalString key @ marshalValue1 v @ marshalEntries1 m"

definition marshalMap :: "pstruct \<Rightarrow> bytes" where
  "marshalMap src = marshalValue1 (StructValue src)"

definition marshalList :: "pvalue list \<Rightarrow> bytes" where
  "marshalList src = marshalValue1 (ListValue src)"

subsection \<open>Values that are read as strings\<close>

definition hex_digit :: "nat \<Rightarrow> char" where
  "hex_digit n = (''0123456789abcdef'' ! n)"

definition hex_Encode :: "bytes \<Rightarrow> string" where
  "hex_Encode bs = concat (map (\<lambda>b. [hex_digit (unat b div 16), hex_digit (unat b mod 16)]) bs)"

definition UUID_String :: "bytes \<Rightarrow> string" where
  "UUID_String u =
     hex_Encode (take 4 u) @ ''-'' @ hex_Encode (take 2 (drop 4 u)) @ ''-'' @ hex_Encode (take 2 (drop 6 u)) @
     ''-'' @ hex_Encode (take 2 (drop 8 u)) @ ''-'' @ hex_Encode (drop 10 u)"

definition base64_digit :: "nat \<Rightarrow> char" where
  "base64_digit n = (''ABCDEFGHIJKLMNOPQRSTUVWXYZabcdefghijklmnopqrstuvwxyz0123456789+/'' ! n)"

fun base64 :: "bytes \<Rightarrow> string" where
  "base64 (a # b # c # bs) =
     base64_digit (unat a div 4) # base64_digit (unat a mod 4 * 16 + unat b div 16) #
     base64_digit (unat b mod 16 * 4 + unat c div 64) # base64_digit (unat c mod 64) # base64 bs"
| "base64 [a, b] =
     [base64_digit (unat a div 4), base64_digit (unat a mod 4 * 16 + unat b div 16),
      base64_digit (unat b mod 16 * 4), CHR ''='']"
| "base64 [a] = [base64_digit (unat a div 4), base64_digit (unat a mod 4 * 16), CHR ''='', CHR ''='']"
| "base64 [] = []"

subsection \<open>Reading values\<close>

definition of_unsigned :: "'a::len word \<Rightarrow> pvalue" where
  "of_unsigned v = NumberValue (f64_of_int (uint v))"

definition of_signed :: "int \<Rightarrow> pvalue" where
  "of_signed n = NumberValue (f64_of_int n)"

definition unmarshalScalar :: "(gotime \<Rightarrow> string) \<Rightarrow> u8 \<Rightarrow> bytes \<Rightarrow> pvalue decoded" where
  "unmarshalScalar fmt c buf =
     (if c = NullEncoding then Got NullValue buf
      else if c = BooleanEncoding \<or> c = BooleanFalseEncoding \<or> c = BooleanTrueEncoding then
        decoded_of BoolValue (unmarshalBoolean c buf)
      else if c = UbyteEncoding then decoded_of of_unsigned (unmarshalUbyte c buf)
      else if c = ByteEncoding then decoded_of of_signed (unmarshalByte c buf)
      else if c = UshortEncoding then decoded_of of_unsigned (unmarshalUshort c buf)
      else if c = ShortEncoding then decoded_of of_signed (unmarshalShort c buf)
      else if c = Uint0Encoding \<or> c = UintSmalluintEncoding \<or> c = UintEncoding then
        decoded_of of_unsigned (unmarshalUint c buf)
      else if c = IntSmallintEncoding \<or> c = IntEncoding then decoded_of of_signed (unmarshalInt c buf)
      else if c = Ulong0Encoding \<or> c = UlongSmallulongEncoding \<or> c = UlongEncoding then
        decoded_of of_unsigned (unmarshalUlong c buf)
      else if c = LongSmalllongEncoding \<or> c = LongEncoding then decoded_of of_signed (unmarshalLong c buf)
      else if c = FloatIeee754Encoding then
        decoded_of (\<lambda>v. NumberValue (f64_of_f32 v)) (unmarshalFloat c buf)
      else if c = DoubleIeee754Encoding then decoded_of NumberValue (unmarshalDouble c buf)
      else if c = Decimal32Ieee754Encoding \<or> c = Decimal64Ieee754Encoding \<or> c = Decimal128Ieee754Encoding then
        Wrong NotImplemented
      else if c = CharUtf32Encoding then decoded_of of_signed (unmarshalChar c buf)
      else if c = TimestampMs64Encoding then decoded_of (\<lambda>t. StringValue (fmt t)) (unmarshalTimestamp c buf)
      else if c = UUIDEncoding then decoded_of (\<lambda>u. StringValue (UUID_String u)) (unmarshalUUID c buf)
      else if c = BinaryVbin8Encoding \<or> c = BinaryVbin32Encoding then
        decoded_of (\<lambda>v. StringValue (base64 (case v of None \<Rightarrow> [] | Some x \<Rightarrow> x))) (unmarshalBinary c buf)
      else if c = StringStr8Utf8Encoding \<or> c = StringStr32Utf8Encoding then
        decoded_of StringValue (unmarshalString c buf)
      else if c = SymbolSym8Encoding \<or> c = SymbolSym32Encoding then
        decoded_of StringValue (unmarshalSymbol c buf)
      else Wrong (UnexpectedConstructor c))"

text \<open>The size of a map or list, its count and its items. A map of size 0 has no count.\<close>

definition read_size :: "nat \<Rightarrow> bytes \<Rightarrow> (nat \<times> bytes) option" where
  "read_size k buf = (case split_next k buf of None \<Rightarrow> None | Some (x, rest) \<Rightarrow> Some (be_value x, rest))"

definition read_compound :: "nat \<Rightarrow> bytes \<Rightarrow> (nat \<times> bytes \<times> bytes) option" where
  "read_compound k buf =
     (case read_size k buf of None \<Rightarrow> None
      | Some (sz, buf') \<Rightarrow>
        (case split_next sz buf' of None \<Rightarrow> None
         | Some (itemBuf, rest) \<Rightarrow>
           (case read_size k itemBuf of None \<Rightarrow> None
            | Some (n, items) \<Rightarrow> Some (n, items, rest))))"

text \<open>The header of an array: its items are what is there of the announced size, and a size that
  does not even cover the count crashes.\<close>

definition read_array :: "nat \<Rightarrow> bytes \<Rightarrow> (nat \<times> bytes) decoded" where
  "read_array k buf =
     (case read_size k buf of None \<Rightarrow> Wrong Underflow
      | Some (sz, buf') \<Rightarrow>
        (case read_size k buf' of None \<Rightarrow> Wrong Underflow
         | Some (n, buf'') \<Rightarrow>
           if sz < k then Crash else Got (n, take (sz - k) buf'') (drop (sz - k) buf'')))"

lemma read_size_length: "read_size k buf = Some (n, rest) \<Longrightarrow> length buf = k + length rest"
  by (auto simp: read_size_def split: option.splits dest: split_next_length)

lemma read_compound_length:
  "read_compound k buf = Some (n, items, rest) \<Longrightarrow> length buf = 2 * k + length items + length rest"
  by (auto simp: read_compound_def split: option.splits dest!: split_next_length read_size_length)

lemma read_array_length:
  "read_array k buf = Got (n, items) rest \<Longrightarrow> length buf = 2 * k + length items + length rest"
  by (auto simp: read_array_def min_def split: option.splits if_splits dest!: read_size_length)

text \<open>
  \<^verbatim>\<open>unmarshalValueWithConstructor\<close> with \<^verbatim>\<open>unmarshalMap\<close>,
  \<^verbatim>\<open>unmarshalList\<close>, \<^verbatim>\<open>unmarshalArray\<close> and their loops. A loop has its count as
  argument; an item leaves no more bytes than there were, and the branch that says otherwise is
  never taken.
\<close>

function unmarshalValueWithConstructor :: "(gotime \<Rightarrow> string) \<Rightarrow> u8 \<Rightarrow> bytes \<Rightarrow> pvalue decoded"
and unmarshalMap :: "(gotime \<Rightarrow> string) \<Rightarrow> u8 \<Rightarrow> bytes \<Rightarrow> pstruct decoded"
and unmarshalList :: "(gotime \<Rightarrow> string) \<Rightarrow> u8 \<Rightarrow> bytes \<Rightarrow> pvalue list decoded"
and unmarshalArray :: "(gotime \<Rightarrow> string) \<Rightarrow> u8 \<Rightarrow> bytes \<Rightarrow> pvalue list option decoded"
and map_items :: "(gotime \<Rightarrow> string) \<Rightarrow> nat \<Rightarrow> bytes \<Rightarrow> pfields \<Rightarrow> pfields decoded"
and list_items :: "(gotime \<Rightarrow> string) \<Rightarrow> nat \<Rightarrow> bytes \<Rightarrow> pvalue list \<Rightarrow> pvalue list decoded"
and array_items :: "(gotime \<Rightarrow> string) \<Rightarrow> u8 \<Rightarrow> nat \<Rightarrow> bytes \<Rightarrow> pvalue list \<Rightarrow> pvalue list decoded" where
  "unmarshalValueWithConstructor fmt c buf =
     (if c = List0Encoding \<or> c = List8Encoding \<or> c = List32Encoding then
        (case unmarshalList fmt c buf of Crash \<Rightarrow> Crash | Wrong e \<Rightarrow> Wrong e
         | Got vs rest \<Rightarrow> Got (ListValue vs) rest)
      else if c = Map8Encoding \<or> c = Map32Encoding then
        (case unmarshalMap fmt c buf of Crash \<Rightarrow> Crash | Wrong e \<Rightarrow> Wrong e
         | Got m rest \<Rightarrow> Got (StructValue m) rest)
      else if c = Array8Encoding \<or> c = Array32Encoding then
        (case unmarshalArray fmt c buf of Crash \<Rightarrow> Crash | Wrong e \<Rightarrow> Wrong e
         | Got vs rest \<Rightarrow> Got (ListValue (case vs of None \<Rightarrow> [] | Some vs \<Rightarrow> vs)) rest)
      else unmarshalScalar fmt c buf)"
| "unmarshalMap fmt c buf =
     (if c = NullEncoding then Got None buf
      else if c = Map8Encoding \<or> c = Map32Encoding then
        let k = (if c = Map8Encoding then 1 else 4) in
        if (case read_size k buf of None \<Rightarrow> False | Some (sz, _) \<Rightarrow> sz = 0) then Got (Some []) (drop k buf)
        else (case read_compound k buf of None \<Rightarrow> Wrong Underflow
              | Some (n, items, rest) \<Rightarrow>
                if n mod 2 \<noteq> 0 then Wrong OddCount
                else (case map_items fmt (n div 2) items [] of Crash \<Rightarrow> Crash | Wrong e \<Rightarrow> Wrong e
                      | Got m _ \<Rightarrow> Got (Some m) rest))
      else Wrong (UnexpectedConstructor c))"
| "unmarshalList fmt c buf =
     (if c = List0Encoding then Got [] buf
      else if c = List8Encoding \<or> c = List32Encoding then
        (case read_compound (if c = List8Encoding then 1 else 4) buf of None \<Rightarrow> Wrong Underflow
         | Some (n, items, rest) \<Rightarrow>
           (case list_items fmt n items [] of Crash \<Rightarrow> Crash | Wrong e \<Rightarrow> Wrong e
            | Got vs _ \<Rightarrow> Got vs rest))
      else Wrong (UnexpectedConstructor c))"
| "unmarshalArray fmt c buf =
     (if c = NullEncoding then Got None buf
      else if c = Array8Encoding \<or> c = Array32Encoding then
        (case read_array (if c = Array8Encoding then 1 else 4) buf of Crash \<Rightarrow> Crash | Wrong e \<Rightarrow> Wrong e
         | Got h rest \<Rightarrow>
           if fst h = 0 then Got (Some []) rest
           else (case snd h of [] \<Rightarrow> Wrong Underflow
                 | vc # items \<Rightarrow>
                   (case array_items fmt vc (fst h) items [] of Crash \<Rightarrow> Crash | Wrong e \<Rightarrow> Wrong e
                    | Got vs _ \<Rightarrow> Got (Some vs) rest)))
      else Wrong (UnexpectedConstructor c))"
| "map_items fmt n buf m =
     (if n = 0 then Got m buf
      else case buf of [] \<Rightarrow> Wrong Underflow
      | c # buf1 \<Rightarrow>
        (case unmarshalValueWithConstructor fmt c buf1 of Crash \<Rightarrow> Crash | Wrong e \<Rightarrow> Wrong e
         | Got key buf2 \<Rightarrow>
           (case key of
              StringValue name \<Rightarrow>
                (case buf2 of [] \<Rightarrow> Wrong Underflow
                 | c' # buf3 \<Rightarrow>
                   if length buf2 > length buf1 then Wrong Stuck
                   else (case unmarshalValueWithConstructor fmt c' buf3 of Crash \<Rightarrow> Crash | Wrong e \<Rightarrow> Wrong e
                         | Got v rest \<Rightarrow>
                           if length rest > length buf then Wrong Stuck
                           else map_items fmt (n - 1) rest (put_field name v m)))
            | _ \<Rightarrow> Wrong NonStringKey)))"
| "list_items fmt n buf vs =
     (if n = 0 then Got vs buf
      else case buf of [] \<Rightarrow> Wrong Underflow
      | c # buf1 \<Rightarrow>
        (case unmarshalValueWithConstructor fmt c buf1 of Crash \<Rightarrow> Crash | Wrong e \<Rightarrow> Wrong e
         | Got v rest \<Rightarrow>
           if length rest > length buf then Wrong Stuck else list_items fmt (n - 1) rest (vs @ [v])))"
| "array_items fmt c n buf vs =
     (if n = 0 then Got vs buf
      else case unmarshalValueWithConstructor fmt c buf of Crash \<Rightarrow> Crash | Wrong e \<Rightarrow> Wrong e
         | Got v rest \<Rightarrow>
           if length rest > length buf then Wrong Stuck else array_items fmt c (n - 1) rest (vs @ [v]))"
  by pat_completeness auto
termination
  by (relation "measures
    [\<lambda>x. case x of Inl (Inl (_, _, b)) \<Rightarrow> length b | Inl (Inr (Inl (_, _, b))) \<Rightarrow> length b
                  | Inl (Inr (Inr (_, _, b))) \<Rightarrow> length b
                  | Inr (Inl (Inl (_, _, b))) \<Rightarrow> length b | Inr (Inl (Inr (_, _, b, _))) \<Rightarrow> length b
                  | Inr (Inr (Inl (_, _, b, _))) \<Rightarrow> length b | Inr (Inr (Inr (_, _, _, b, _))) \<Rightarrow> length b,
     \<lambda>x. case x of Inl (Inl _) \<Rightarrow> 1 | Inl (Inr _) \<Rightarrow> 0 | Inr (Inl (Inl _)) \<Rightarrow> 0 | Inr _ \<Rightarrow> 2,
     \<lambda>x. case x of Inl _ \<Rightarrow> 0 | Inr (Inl (Inl _)) \<Rightarrow> 0 | Inr (Inl (Inr (_, n, _, _))) \<Rightarrow> n
                  | Inr (Inr (Inl (_, n, _, _))) \<Rightarrow> n | Inr (Inr (Inr (_, _, n, _, _))) \<Rightarrow> n]")
    (auto dest!: read_compound_length read_array_length split: if_splits)

declare unmarshalValueWithConstructor.simps [simp del] unmarshalMap.simps [simp del] unmarshalList.simps [simp del]
  unmarshalArray.simps [simp del] map_items.simps [simp del] list_items.simps [simp del] array_items.simps [simp del]

definition unmarshalValue1 :: "(gotime \<Rightarrow> string) \<Rightarrow> bytes \<Rightarrow> pvalue decoded" where
  "unmarshalValue1 fmt buf =
     (case buf of [] \<Rightarrow> Wrong Underflow | c # rest \<Rightarrow> unmarshalValueWithConstructor fmt c rest)"

subsection \<open>The loops never get stuck\<close>

lemma read_le:
  "read8 f8 buf = Inr (a, rest) \<Longrightarrow> length rest \<le> length buf"
  "read_fixed k fk buf = Inr (b, rest) \<Longrightarrow> length rest \<le> length buf"
  "read_var8 fv buf = Inr (c, rest) \<Longrightarrow> length rest \<le> length buf"
  "read_var32 fv buf = Inr (c, rest) \<Longrightarrow> length rest \<le> length buf"
  by (auto simp: read8_def read_fixed_def read_var8_def read_var32_def split: list.splits option.splits
      dest!: split_next_length)

lemma decoded_of_Got: "decoded_of f r = Got v rest \<longleftrightarrow> (\<exists>a. r = Inr (a, rest) \<and> v = f a)"
  by (cases r) auto

lemmas unmarshal_defs =
  unmarshalBoolean_def unmarshalUbyte_def unmarshalByte_def unmarshalUshort_def unmarshalShort_def
  unmarshalUint_def unmarshalInt_def unmarshalUlong_def unmarshalLong_def unmarshalFloat_def
  unmarshalDouble_def unmarshalChar_def unmarshalTimestamp_def unmarshalBinary_def
  unmarshalString_def unmarshalSymbol_def

lemma unmarshalUUID_le: "unmarshalUUID c buf = Inr (u, rest) \<Longrightarrow> length rest \<le> length buf"
  by (auto simp: unmarshalUUID_def split: if_splits option.splits dest!: split_next_length)

lemma unmarshalScalar_le: "unmarshalScalar fmt c buf = Got v rest \<Longrightarrow> length rest \<le> length buf"
  unfolding unmarshalScalar_def
  by (auto simp: decoded_of_Got unmarshal_defs split: if_splits dest: read_le unmarshalUUID_le)

lemma unmarshalList_le: "unmarshalList fmt c buf = Got v rest \<Longrightarrow> length rest \<le> length buf"
  by (auto simp: unmarshalList.simps split: if_splits option.splits decoded.splits dest!: read_compound_length)

lemma unmarshalMap_le: "unmarshalMap fmt c buf = Got v rest \<Longrightarrow> length rest \<le> length buf"
  by (auto simp: unmarshalMap.simps Let_def split: if_splits option.splits decoded.splits dest!: read_compound_length)

lemma unmarshalArray_le: "unmarshalArray fmt c buf = Got v rest \<Longrightarrow> length rest \<le> length buf"
  by (auto simp: unmarshalArray.simps split: if_splits option.splits decoded.splits list.splits dest!: read_array_length)

lemma unmarshalWith_le: "unmarshalValueWithConstructor fmt c buf = Got v rest \<Longrightarrow> length rest \<le> length buf"
  by (auto simp: unmarshalValueWithConstructor.simps split: if_splits decoded.splits
      dest: unmarshalList_le unmarshalMap_le unmarshalArray_le unmarshalScalar_le)

lemma unmarshalValue1_less: "unmarshalValue1 fmt buf = Got v rest \<Longrightarrow> length rest < length buf"
  by (auto simp: unmarshalValue1_def split: list.splits dest!: unmarshalWith_le)

lemma list_items_loop:
  "list_items fmt n buf vs =
     (if n = 0 then Got vs buf
      else case unmarshalValue1 fmt buf of Crash \<Rightarrow> Crash | Wrong e \<Rightarrow> Wrong e
           | Got v rest \<Rightarrow> list_items fmt (n - 1) rest (vs @ [v]))"
  by (auto simp: list_items.simps [of fmt n] unmarshalValue1_def split: list.splits decoded.splits
      dest!: unmarshalWith_le)

lemma array_items_loop:
  "array_items fmt c n buf vs =
     (if n = 0 then Got vs buf
      else case unmarshalValueWithConstructor fmt c buf of Crash \<Rightarrow> Crash | Wrong e \<Rightarrow> Wrong e
           | Got v rest \<Rightarrow> array_items fmt c (n - 1) rest (vs @ [v]))"
  by (auto simp: array_items.simps [of fmt c n] split: decoded.splits dest!: unmarshalWith_le)

lemma map_items_loop:
  "map_items fmt n buf m =
     (if n = 0 then Got m buf
      else case unmarshalValue1 fmt buf of Crash \<Rightarrow> Crash | Wrong e \<Rightarrow> Wrong e
           | Got key buf' \<Rightarrow>
             (case key of
                StringValue name \<Rightarrow>
                  (case unmarshalValue1 fmt buf' of Crash \<Rightarrow> Crash | Wrong e \<Rightarrow> Wrong e
                   | Got v rest \<Rightarrow> map_items fmt (n - 1) rest (put_field name v m))
              | _ \<Rightarrow> Wrong NonStringKey))"
  by (auto simp: map_items.simps [of fmt n] unmarshalValue1_def split: list.splits decoded.splits pvalue.splits
      dest!: unmarshalWith_le)

subsection \<open>Values read back\<close>

lemma scalar_reads:
  assumes "reads f bs v" and "hd bs \<notin> {List0Encoding, List8Encoding, List32Encoding, Map8Encoding, Map32Encoding,
      Array8Encoding, Array32Encoding}"
    and "\<And>buf. unmarshalScalar fmt (hd bs) buf = decoded_of g (f (hd bs) buf)"
  shows "unmarshalValue1 fmt (bs @ rest) = Got (g v) rest"
  using assms by (cases bs) (auto simp: reads_def unmarshalValue1_def unmarshalValueWithConstructor.simps)

lemma value_String:
  assumes "length s < 4294967296"
  shows "unmarshalValue1 fmt (marshalString s @ rest) = Got (StringValue s) rest"
  by (rule scalar_reads [OF reads_String [OF assms]]) (auto simp: marshalString_def unmarshalScalar_def)

lemma value_Boolean: "unmarshalValue1 fmt (marshalBoolean b @ rest) = Got (BoolValue b) rest"
  by (rule scalar_reads [OF reads_Boolean]) (auto simp: marshalBoolean_def unmarshalScalar_def)

lemma value_Number: "unmarshalValue1 fmt (marshalNumber1 b @ rest) = Got (NumberValue (sent_number b)) rest"
proof -
  define n where "n = f64_to_i64 b"
  have r: "- (2 ^ 63) \<le> n" "n < 2 ^ 63" unfolding n_def by (rule f64_to_i64_range)+
  have B: "unmarshalValue1 fmt (marshalByte n @ rest) = Got (of_signed n) rest" if "-128 \<le> n" "n \<le> 127"
    by (rule scalar_reads [OF reads_Byte [OF that]]) (auto simp: marshalByte_def unmarshalScalar_def)
  have S: "unmarshalValue1 fmt (marshalShort n @ rest) = Got (of_signed n) rest" if "-32768 \<le> n" "n \<le> 32767"
    by (rule scalar_reads [OF reads_Short [OF that]]) (auto simp: marshalShort_def unmarshalScalar_def)
  have I: "unmarshalValue1 fmt (marshalInt n @ rest) = Got (of_signed n) rest" if "-2147483648 \<le> n" "n \<le> 2147483647"
    by (rule scalar_reads [OF reads_Int [OF that]]) (auto simp: marshalInt_def unmarshalScalar_def)
  have L: "unmarshalValue1 fmt (marshalLong n @ rest) = Got (of_signed n) rest"
    by (rule scalar_reads [OF reads_Long [OF r]]) (auto simp: marshalLong_def unmarshalScalar_def)
  have D: "unmarshalValue1 fmt (marshalDouble b @ rest) = Got (NumberValue b) rest"
    by (rule scalar_reads [OF reads_Double]) (auto simp: marshalDouble_def unmarshalScalar_def)
  show ?thesis
    using B S I L D by (auto simp: marshalNumber1_def Let_def n_def [symmetric] sent_number_def of_signed_def)
qed

lemma read_compound8:
  assumes "length items + 1 \<le> 255" and "n \<le> 255"
  shows "read_compound 1 (of_nat (length items + 1) # of_nat n # items @ rest) = Some (n, items, rest)"
proof -
  define x :: u8 where "x = of_nat (length items + 1)"
  have x: "unat x = length items + 1" using assms(1) unfolding x_def unat_of_nat_u8 by simp
  have n: "unat (of_nat n :: u8) = n" using assms(2) unfolding unat_of_nat_u8 by simp
  have "split_next (length items + 1) ((of_nat n # items) @ rest) = Some (of_nat n # items, rest)"
    by (rule split_next_append) simp
  then show ?thesis unfolding x_def [symmetric] using x n by (simp add: read_compound_def read_size_def split_next_def)
qed

lemma read_compound32:
  assumes "length items + 4 < 4294967296" and "n < 4294967296"
  shows "read_compound 4 (be_bytes 4 (length items + 4) @ be_bytes 4 n @ items @ rest) = Some (n, items, rest)"
proof -
  have "split_next (length items + 4) ((be_bytes 4 n @ items) @ rest) = Some (be_bytes 4 n @ items, rest)"
    by (rule split_next_append) simp
  then show ?thesis using assms by (simp add: read_compound_def read_size_def del: be_bytes.simps)
qed

text \<open>A value is at least one byte, a key at least two.\<close>

lemma marshalString_length: "length s + 2 \<le> length (marshalString s)"
  by (simp add: marshalString_def)

lemma marshalNumber1_length: "1 \<le> length (marshalNumber1 b)"
  by (simp add: marshalNumber1_def marshalByte_def marshalShort_def marshalInt_def marshalLong_def marshalDouble_def Let_def)

lemma marshal_lengths:
  "1 \<le> length (marshalValue1 v)"
  "length vs \<le> length (marshalItems1 vs)"
  "length m * 2 \<le> length (marshalEntries1 m)"
proof (induction v and vs and m rule: marshalValue1_marshalItems1_marshalEntries1.induct)
  case (11 key v m)
  then show ?case using marshalString_length [of key] by simp
qed (use marshalString_length marshalNumber1_length in \<open>auto simp: compound_def marshalBoolean_def intro: order_trans\<close>)

lemma compound_length: "length items < length (compound c8 c32 n items)"
  by (simp add: compound_def)

text \<open>What a value is after it was written and read back: a nil map is an empty one.\<close>

fun map_value :: "pvalue \<Rightarrow> pvalue" where
  "map_value (NumberValue b) = NumberValue (sent_number b)"
| "map_value (StructValue None) = StructValue (Some [])"
| "map_value (StructValue (Some m)) = StructValue (Some (map (\<lambda>e. (fst e, map_value (snd e))) m))"
| "map_value (ListValue vs) = ListValue (map map_value vs)"
| "map_value v = v"

lemma map_value_same: "numbers_fit v \<Longrightarrow> same_value v (map_value v)"
proof (induction v rule: map_value.induct)
  case (1 b)
  then show ?case using sent_number_same [of b] by (auto simp: f64_eq_def)
next
  case (3 m)
  then show ?case by (auto simp: list_all_iff list.rel_map intro!: list.rel_refl_strong)
next
  case (4 vs)
  then show ?case by (auto simp: list_all_iff list.rel_map intro!: list.rel_refl_strong)
qed auto

lemma list_value_round_trip:
  assumes items: "list_items fmt (length vs) (marshalItems1 vs) [] = Got (map map_value vs) []"
    and len: "length (marshalValue1 (ListValue vs)) < 4294967296"
  shows "unmarshalValue1 fmt (marshalValue1 (ListValue vs) @ rest) = Got (ListValue (map map_value vs)) rest"
proof (cases "vs = []")
  case True
  then show ?thesis by (simp add: unmarshalValue1_def unmarshalValueWithConstructor.simps unmarshalList.simps)
next
  case False
  have n: "length vs \<le> length (marshalItems1 vs)" by (rule marshal_lengths)
  show ?thesis
    using False len n items read_compound8 [of "marshalItems1 vs" "length vs" rest]
      read_compound32 [of "marshalItems1 vs" "length vs" rest]
    by (auto simp: compound_def unmarshalValue1_def unmarshalValueWithConstructor.simps unmarshalList.simps
        simp del: be_bytes.simps of_nat_add of_nat_Suc split: if_splits)
qed

lemma read_compound_size:
  "read_compound k buf = Some x \<Longrightarrow> 0 < k \<Longrightarrow>
   \<not> (case read_size k buf of None \<Rightarrow> False | Some (sz, _) \<Rightarrow> sz = 0)"
  by (auto simp: read_compound_def split: option.splits dest!: split_next_length read_size_length)

lemma unmarshalMap_compound:
  assumes "read_compound k buf = Some (n * 2, items, rest)" and "map_items fmt n items [] = Got m r"
    and "c = Map8Encoding \<and> k = 1 \<or> c = Map32Encoding \<and> k = 4"
  shows "unmarshalMap fmt c buf = Got (Some m) rest"
proof -
  have "\<not> (case read_size k buf of None \<Rightarrow> False | Some (sz, _) \<Rightarrow> sz = 0)"
    using assms by (intro read_compound_size) auto
  then show ?thesis using assms by (auto simp: unmarshalMap.simps Let_def)
qed

lemma map_value_round_trip:
  assumes entries: "map_items fmt (length m) (marshalEntries1 m) [] = Got m' []"
    and len: "length (marshalValue1 (StructValue (Some m))) < 4294967296"
  shows "unmarshalValue1 fmt (marshalValue1 (StructValue (Some m)) @ rest) = Got (StructValue (Some m')) rest"
proof (cases "length (marshalEntries1 m) + 1 \<le> 255")
  case True
  have n: "length m * 2 \<le> length (marshalEntries1 m)" by (rule marshal_lengths)
  have "unmarshalMap fmt Map8Encoding (of_nat (length (marshalEntries1 m) + 1) # of_nat (length m * 2) # marshalEntries1 m @ rest) =
      Got (Some m') rest"
    using True n by (intro unmarshalMap_compound [OF read_compound8 entries]) auto
  then show ?thesis
    using True n by (simp add: compound_def unmarshalValue1_def unmarshalValueWithConstructor.simps del: of_nat_add of_nat_Suc of_nat_mult)
next
  case False
  have n: "length m * 2 \<le> length (marshalEntries1 m)" by (rule marshal_lengths)
  have "unmarshalMap fmt Map32Encoding (be_bytes 4 (length (marshalEntries1 m) + 4) @ be_bytes 4 (length m * 2) @ marshalEntries1 m @ rest) =
      Got (Some m') rest"
    using False n len by (intro unmarshalMap_compound [OF read_compound32 entries]) (auto simp: compound_def)
  then show ?thesis
    using False by (simp add: compound_def unmarshalValue1_def unmarshalValueWithConstructor.simps del: be_bytes.simps)
qed

lemma value_round_trip1:
  "\<And>rest. length (marshalValue1 v) < 4294967296 \<Longrightarrow> wf_value v \<Longrightarrow>
     unmarshalValue1 fmt (marshalValue1 v @ rest) = Got (map_value v) rest"
  "\<And>acc. length (marshalItems1 vs) < 4294967296 \<Longrightarrow> list_all wf_value vs \<Longrightarrow>
     list_items fmt (length vs) (marshalItems1 vs) acc = Got (acc @ map map_value vs) []"
  "\<And>fs. length (marshalEntries1 m) < 4294967296 \<Longrightarrow> list_all (\<lambda>e. wf_value (snd e)) m \<Longrightarrow>
     distinct (map fst (fs @ m)) \<Longrightarrow>
     map_items fmt (length m) (marshalEntries1 m) fs = Got (fs @ map (\<lambda>e. (fst e, map_value (snd e))) m) []"
proof (induction v and vs and m rule: marshalValue1_marshalItems1_marshalEntries1.induct)
  case (2 b)
  then show ?case using value_Number by simp
next
  case (3 s)
  then show ?case using value_String marshalString_length [of s] by simp
next
  case (4 b)
  then show ?case using value_Boolean by simp
next
  case (6 m)
  have "length (marshalEntries1 m) < 4294967296" using 6(2) by (auto intro: less_trans [OF compound_length])
  then have "map_items fmt (length m) (marshalEntries1 m) [] = Got (map (\<lambda>e. (fst e, map_value (snd e))) m) []"
    using 6 by simp
  from map_value_round_trip [OF this 6(2)] show ?case by simp
next
  case (7 vs)
  have "length (marshalItems1 vs) < 4294967296" if "vs \<noteq> []"
    using that 7(2) by (auto intro: less_trans [OF compound_length])
  then have "list_items fmt (length vs) (marshalItems1 vs) [] = Got (map map_value vs) []"
    using 7 by (cases "vs = []") (auto simp: list_items_loop [of fmt 0])
  from list_value_round_trip [OF this 7(2)] show ?case by simp
next
  case (9 v vs)
  then show ?case by (simp add: list_items_loop [of fmt "Suc (length vs)"])
next
  case (11 key v m)
  have k: "unmarshalValue1 fmt (marshalString key @ rest) = Got (StringValue key) rest" for rest
    using 11(3) marshalString_length [of key] by (intro value_String) simp
  show ?case using 11 by (simp add: map_items_loop [of fmt "Suc (length m)"] k put_field_new)
qed (simp_all add: unmarshalValue1_def unmarshalValueWithConstructor.simps unmarshalScalar_def unmarshalMap.simps
      read_size_def split_next_def list_items_loop [of fmt 0] map_items_loop [of fmt 0])

subsection \<open>What goes wrong\<close>

text \<open>An array whose announced size is smaller than its count field crashes the reader.\<close>

lemma empty_array_crashes: "unmarshalValue1 fmt [Array8Encoding, 0, 0] = Crash"
  by (simp add: unmarshalValue1_def unmarshalValueWithConstructor.simps unmarshalArray.simps read_array_def
      read_size_def split_next_def)

text \<open>A symbol of more than 255 bytes is not read back: the reader takes the first byte of its
  four-byte length for the whole length, which is 0 for symbols below 16 megabytes.\<close>

lemma long_symbol_lost:
  assumes "255 < length s" and "length s < 16777216"
  shows "\<exists>rest. unmarshalSymbol (hd (marshalSymbol s)) (tl (marshalSymbol s)) = Inr ([], rest)"
proof -
  have "be_bytes (Suc 3) (length s) = of_nat (length s div 256 ^ 3) # be_bytes 3 (length s)"
    by (rule be_bytes.simps)
  moreover have "length s div 256 ^ 3 = 0" using assms(2) by (intro div_less) simp
  ultimately have "be_bytes 4 (length s) = 0 # be_bytes 3 (length s)" by (simp del: be_bytes.simps)
  then show ?thesis
    using assms(1) by (simp add: marshalSymbol_def unmarshalSymbol_def read_var8_def split_next_def bytes_string_def del: be_bytes.simps)
qed

subsection \<open>Properties\<close>

text \<open>(C38) A value that is written as AMQP 1.0 in less than \<open>2\<^sup>3\<^sup>2\<close> bytes is read back, whatever
  follows it: when its integral numbers are finite and fit 64 bits it is the same value, but for the
  sign of a zero and for nil maps, which become empty ones.\<close>

theorem value_round_trip:
  assumes "length (marshalValue1 v) < 4294967296" and "wf_value v" and "numbers_fit v"
  shows "\<exists>v'. unmarshalValue1 fmt (marshalValue1 v @ rest) = Got v' rest \<and> same_value v v'"
  using value_round_trip1(1) [OF assms(1,2), of fmt rest] map_value_same [OF assms(3)] by blast

definition demo_value :: pvalue where
  "demo_value = ListValue [StructValue (Some [(''k'', BoolValue True), (''n'', StructValue None)]), NullValue, StringValue ''v'']"

theorem value_round_trip_witness:
  "\<exists>v'. unmarshalValue1 (\<lambda>_. ''now'') (marshalValue1 demo_value @ [7]) = Got v' [7] \<and> same_value demo_value v'"
  by (rule value_round_trip)
    (simp_all add: demo_value_def compound_def marshalString_def marshalBoolean_def)

end
