(* ===== verification/Amqp_V1_Unions.thy ===== *)
theory Amqp_V1_Unions
  imports Amqp_V1_Codec
begin

text \<open>
  The arrays of symbols, and the unions of AMQP 1.0 that are told apart by their constructor:
  message ids, addresses and error conditions. A slice that may be nil is an option. From here on a
  reader takes its own constructor, and \<open>codes r bs v\<close> says that it takes the bytes \<open>bs\<close>, whatever
  follows them, and returns \<open>v\<close>.
\<close>

definition codes :: "(bytes \<Rightarrow> 'a decoded) \<Rightarrow> bytes \<Rightarrow> 'a \<Rightarrow> bool" where
  "codes r bs v \<longleftrightarrow> (\<forall>rest. r (bs @ rest) = Got v rest)"

lemma codesI: "(\<And>rest. r (bs @ rest) = Got v rest) \<Longrightarrow> codes r bs v"
  by (simp add: codes_def)

lemma codesD: "codes r bs v \<Longrightarrow> r (bs @ rest) = Got v rest"
  by (simp add: codes_def)

definition with_constructor :: "(u8 \<Rightarrow> bytes \<Rightarrow> 'a decoded) \<Rightarrow> bytes \<Rightarrow> 'a decoded" where
  "with_constructor f buf = (case buf of [] \<Rightarrow> Wrong Underflow | c # rest \<Rightarrow> f c rest)"

definition scalar :: "(u8 \<Rightarrow> bytes \<Rightarrow> 'a read) \<Rightarrow> bytes \<Rightarrow> 'a decoded" where
  "scalar f = with_constructor (\<lambda>c rest. decoded_of (\<lambda>v. v) (f c rest))"

lemma codes_scalar: "reads f bs v \<Longrightarrow> codes (scalar f) bs v"
  by (cases bs) (auto simp: codes_def scalar_def with_constructor_def reads_def)

subsection \<open>Arrays of symbols\<close>

fun symbol_items :: "u8 \<Rightarrow> nat \<Rightarrow> bytes \<Rightarrow> string list \<Rightarrow> string list decoded" where
  "symbol_items c 0 buf ss = Got ss buf"
| "symbol_items c (Suc n) buf ss =
     (case unmarshalSymbol c buf of Inl e \<Rightarrow> Wrong e
      | Inr (s, rest) \<Rightarrow> symbol_items c n rest (ss @ [s]))"

definition longest :: "string list \<Rightarrow> nat" where
  "longest src = fold (\<lambda>s m. if length s > m then length s else m) src 0"

definition symbol_item :: "nat \<Rightarrow> string \<Rightarrow> bytes" where
  "symbol_item m s = (if m \<le> 255 then [of_nat (length s)] else be_bytes 4 (length s)) @ string_bytes s"

definition symbolConstructor :: "nat \<Rightarrow> u8" where
  "symbolConstructor m = (if m \<le> 255 then SymbolSym8Encoding else SymbolSym32Encoding)"

definition marshalSymbolArray :: "string list option \<Rightarrow> bytes" where
  "marshalSymbolArray src =
     (case src of None \<Rightarrow> [NullEncoding]
      | Some src \<Rightarrow>
        let m = longest src; items = concat (map (symbol_item m) src) in
        if length items + 2 \<le> 255 \<and> length src \<le> 255 then
          Array8Encoding # of_nat (length items + 2) # of_nat (length src) # symbolConstructor m # items
        else Array32Encoding # be_bytes 4 (length items + 5) @ be_bytes 4 (length src) @ symbolConstructor m # items)"

definition unmarshalSymbolArray :: "u8 \<Rightarrow> bytes \<Rightarrow> string list option decoded" where
  "unmarshalSymbolArray c buf =
     (if c = NullEncoding then Got None buf
      else if c = Array8Encoding \<or> c = Array32Encoding then
        (case read_array (if c = Array8Encoding then 1 else 4) buf of Crash \<Rightarrow> Crash | Wrong e \<Rightarrow> Wrong e
         | Got h rest \<Rightarrow>
           if fst h = 0 then Got (Some []) rest
           else (case snd h of [] \<Rightarrow> Wrong Underflow
                 | vc # items \<Rightarrow>
                   (case symbol_items vc (fst h) items [] of Crash \<Rightarrow> Crash | Wrong e \<Rightarrow> Wrong e
                    | Got ss _ \<Rightarrow> Got (Some ss) rest)))
      else Wrong (UnexpectedConstructor c))"

text \<open>Language tags are strings that are written and read as symbols, by the same code.\<close>

definition marshalIETFLanguageTagArray :: "string list option \<Rightarrow> bytes" where
  "marshalIETFLanguageTagArray = marshalSymbolArray"

definition unmarshalIETFLanguageTagArray :: "u8 \<Rightarrow> bytes \<Rightarrow> string list option decoded" where
  "unmarshalIETFLanguageTagArray = unmarshalSymbolArray"

lemma longest_acc: "fold (\<lambda>s m. if length s > m then length s else m) src a \<ge> a \<and>
    (\<forall>s \<in> set src. length s \<le> fold (\<lambda>s m. if length s > m then length s else m) src a)"
proof (induction src arbitrary: a)
  case (Cons s src)
  define b where "b = (if length s > a then length s else a)"
  have b: "a \<le> b" "length s \<le> b" by (auto simp: b_def)
  show ?case
    using Cons.IH [of b] b by (auto simp: b_def [symmetric])
qed simp

lemma longest_le: "s \<in> set src \<Longrightarrow> length s \<le> longest src"
  using longest_acc [of 0 src] by (simp add: longest_def)

lemma unmarshalSymbol_item:
  "length s \<le> m \<Longrightarrow> length s < 4294967296 \<Longrightarrow>
   unmarshalSymbol (symbolConstructor m) (symbol_item m s @ rest) = Inr (s, rest)"
  by (simp add: unmarshalSymbol_def symbolConstructor_def symbol_item_def del: be_bytes.simps)

lemma symbol_items_read:
  "(\<And>s. s \<in> set src \<Longrightarrow> length s \<le> m \<and> length s < 4294967296) \<Longrightarrow>
   symbol_items (symbolConstructor m) (length src) (concat (map (symbol_item m) src)) acc = Got (acc @ src) []"
  by (induction src arbitrary: acc) (simp_all add: unmarshalSymbol_item)

lemma symbol_items_length:
  "length src \<le> length (concat (map (symbol_item m) src))"
  "s \<in> set src \<Longrightarrow> length s \<le> length (concat (map (symbol_item m) src))"
  by (induction src) (auto simp: symbol_item_def)

lemma read_array8:
  assumes "length items + 2 \<le> 255" and "n \<le> 255"
  shows "read_array 1 (of_nat (length items + 2) # of_nat n # c # items @ rest) = Got (n, c # items) rest"
proof -
  define x :: u8 where "x = of_nat (length items + 2)"
  have x: "unat x = length items + 2" using assms(1) unfolding x_def unat_of_nat_u8 by simp
  have n: "unat (of_nat n :: u8) = n" using assms(2) unfolding unat_of_nat_u8 by simp
  show ?thesis unfolding x_def [symmetric] using x n by (simp add: read_array_def read_size_def split_next_def)
qed

lemma read_array32:
  assumes "length items + 5 < 4294967296" and "n < 4294967296"
  shows "read_array 4 (be_bytes 4 (length items + 5) @ be_bytes 4 n @ c # items @ rest) = Got (n, c # items) rest"
  using assms by (simp add: read_array_def read_size_def del: be_bytes.simps)

lemma unmarshalSymbolArray_items:
  assumes "read_array k buf = Got (length src, symbolConstructor m # concat (map (symbol_item m) src)) rest"
    and "\<And>s. s \<in> set src \<Longrightarrow> length s \<le> m \<and> length s < 4294967296"
    and "c = Array8Encoding \<and> k = 1 \<or> c = Array32Encoding \<and> k = 4"
  shows "unmarshalSymbolArray c buf = Got (Some src) rest"
  using assms symbol_items_read [of src m "[]"] by (auto simp: unmarshalSymbolArray_def)

lemma codes_SymbolArray:
  assumes "length (marshalSymbolArray src) < 4294967296"
  shows "codes (with_constructor unmarshalSymbolArray) (marshalSymbolArray src) src"
proof (cases src)
  case None
  then show ?thesis by (simp add: codes_def with_constructor_def marshalSymbolArray_def unmarshalSymbolArray_def)
next
  case (Some ss)
  define m where "m = longest ss"
  define items where "items = concat (map (symbol_item m) ss)"
  have n: "length ss \<le> length items" unfolding items_def by (rule symbol_items_length)
  have s: "length s \<le> m \<and> length s < 4294967296" if "s \<in> set ss" for s
    using longest_le [OF that] symbol_items_length(2) [OF that, of m] assms
    by (auto simp: Some marshalSymbolArray_def Let_def m_def [symmetric] items_def [symmetric] split: if_splits)
  have a8: "unmarshalSymbolArray Array8Encoding (of_nat (length items + 2) # of_nat (length ss) # symbolConstructor m # items @ rest) = Got (Some ss) rest"
    if "length items + 2 \<le> 255" for rest
  proof -
    have "read_array 1 (of_nat (length items + 2) # of_nat (length ss) # symbolConstructor m # items @ rest) =
        Got (length ss, symbolConstructor m # items) rest"
      using that n by (intro read_array8) auto
    from unmarshalSymbolArray_items [OF this [unfolded items_def] s] show ?thesis unfolding items_def by blast
  qed
  have a32: "unmarshalSymbolArray Array32Encoding (be_bytes 4 (length items + 5) @ be_bytes 4 (length ss) @ symbolConstructor m # items @ rest) = Got (Some ss) rest"
    if "length items + 5 < 4294967296" for rest
  proof -
    have "read_array 4 (be_bytes 4 (length items + 5) @ be_bytes 4 (length ss) @ symbolConstructor m # items @ rest) =
        Got (length ss, symbolConstructor m # items) rest"
      using that n by (intro read_array32) auto
    from unmarshalSymbolArray_items [OF this [unfolded items_def] s] show ?thesis unfolding items_def by blast
  qed
  show ?thesis
    using a8 a32 n assms
    by (auto simp: codes_def with_constructor_def Some marshalSymbolArray_def Let_def m_def [symmetric] items_def [symmetric]
        simp del: be_bytes.simps of_nat_add split: if_splits)
qed

subsection \<open>Maps behind a pointer\<close>

text \<open>\<^verbatim>\<open>*Fields\<close> and the other named structs: nil, or a struct whose map may be nil.
  \<^verbatim>\<open>unmarshalMap\<close> returns nil or a struct with a map.\<close>

type_synonym Fields = "pstruct option"

definition unmarshalFields :: "(gotime \<Rightarrow> string) \<Rightarrow> bytes \<Rightarrow> Fields decoded" where
  "unmarshalFields fmt =
     with_constructor (\<lambda>c buf. case unmarshalMap fmt c buf of Crash \<Rightarrow> Crash | Wrong e \<Rightarrow> Wrong e
       | Got m rest \<Rightarrow> Got (map_option Some m) rest)"

text \<open>A map that is read back as it is: not nil, well formed, and with numbers that survive.\<close>

definition canonical :: "pfields \<Rightarrow> bool" where
  "canonical m \<longleftrightarrow> wf_value (StructValue (Some m)) \<and> map_value (StructValue (Some m)) = StructValue (Some m)"

lemma codes_Map:
  assumes "canonical m" and "length (marshalMap (Some m)) < 4294967296"
  shows "codes (unmarshalFields fmt) (marshalMap (Some m)) (Some (Some m))"
proof (rule codesI)
  fix rest
  define bs where "bs = marshalValue1 (StructValue (Some m))"
  have "unmarshalValue1 fmt (bs @ rest) = Got (StructValue (Some m)) rest"
    using value_round_trip1(1) [of "StructValue (Some m)" fmt rest] assms
    by (simp add: canonical_def marshalMap_def bs_def)
  moreover obtain c b where c: "bs = c # b" "c = Map8Encoding \<or> c = Map32Encoding"
    by (cases bs) (auto simp: bs_def compound_def split: if_splits)
  ultimately have "unmarshalMap fmt c (b @ rest) = Got (Some m) rest"
    by (auto simp: unmarshalValue1_def unmarshalValueWithConstructor.simps split: decoded.splits)
  then show "unmarshalFields fmt (marshalMap (Some m) @ rest) = Got (Some (Some m)) rest"
    using c by (simp add: marshalMap_def bs_def [symmetric] unmarshalFields_def with_constructor_def del: marshalValue1.simps)
qed

subsection \<open>Message ids and addresses\<close>

datatype MessageID = MessageIDBinary bytes | MessageIDString string | MessageIDUUID bytes | MessageIDUlong u64

fun MessageID_bytes :: "MessageID \<Rightarrow> bytes" where
  "MessageID_bytes (MessageIDBinary src) = marshalBinary src"
| "MessageID_bytes (MessageIDString src) = marshalString src"
| "MessageID_bytes (MessageIDUUID src) = marshalUUID src"
| "MessageID_bytes (MessageIDUlong src) = marshalUlong src"

definition marshalMessageIDUnion :: "MessageID option \<Rightarrow> codec_error + bytes" where
  "marshalMessageIDUnion src = (case src of None \<Rightarrow> Inl NotImplemented | Some src \<Rightarrow> Inr (MessageID_bytes src))"

definition unmarshalMessageIDUnion :: "bytes \<Rightarrow> MessageID option decoded" where
  "unmarshalMessageIDUnion =
     with_constructor (\<lambda>c buf.
       if c = NullEncoding then Got None buf
       else if c = BinaryVbin8Encoding \<or> c = BinaryVbin32Encoding then
         decoded_of (\<lambda>v. Some (MessageIDBinary (case v of None \<Rightarrow> [] | Some x \<Rightarrow> x))) (unmarshalBinary c buf)
       else if c = StringStr8Utf8Encoding \<or> c = StringStr32Utf8Encoding then
         decoded_of (\<lambda>v. Some (MessageIDString v)) (unmarshalString c buf)
       else if c = UUIDEncoding then decoded_of (\<lambda>v. Some (MessageIDUUID v)) (unmarshalUUID c buf)
       else if c = Ulong0Encoding \<or> c = UlongSmallulongEncoding \<or> c = UlongEncoding then
         decoded_of (\<lambda>v. Some (MessageIDUlong v)) (unmarshalUlong c buf)
       else Wrong (UnexpectedConstructor c))"

fun valid_MessageID :: "MessageID \<Rightarrow> bool" where
  "valid_MessageID (MessageIDUUID u) = (length u = 16)"
| "valid_MessageID _ = True"

lemma union_codes:
  assumes "reads f bs v" and "\<And>buf. g (hd bs) buf = decoded_of h (f (hd bs) buf)" and "h v = w"
  shows "codes (with_constructor g) bs w"
  using assms by (cases bs) (auto simp: codes_def with_constructor_def reads_def)

lemma codes_MessageID:
  assumes "valid_MessageID i" and "length (MessageID_bytes i) < 4294967296"
  shows "codes unmarshalMessageIDUnion (MessageID_bytes i) (Some i)"
proof (cases i)
  case (MessageIDBinary x)
  then have "length x < 4294967296" using assms(2) by (auto simp: marshalBinary_def split: if_splits)
  from reads_Binary [OF this] show ?thesis
    unfolding unmarshalMessageIDUnion_def MessageIDBinary MessageID_bytes.simps
    by (rule union_codes [where h = "\<lambda>v. Some (MessageIDBinary (case v of None \<Rightarrow> [] | Some x \<Rightarrow> x))"]) (auto simp: marshalBinary_def)
next
  case (MessageIDString x)
  then have "length x < 4294967296" using assms(2) marshalString_length [of x] by simp
  from reads_String [OF this] show ?thesis
    unfolding unmarshalMessageIDUnion_def MessageIDString MessageID_bytes.simps
    by (rule union_codes) (auto simp: marshalString_def)
next
  case (MessageIDUUID x)
  then have "length x = 16" using assms(1) by simp
  from reads_UUID [OF this] show ?thesis
    unfolding unmarshalMessageIDUnion_def MessageIDUUID MessageID_bytes.simps
    by (rule union_codes) (auto simp: marshalUUID_def)
next
  case (MessageIDUlong x)
  show ?thesis
    unfolding unmarshalMessageIDUnion_def MessageIDUlong MessageID_bytes.simps
    by (rule union_codes [OF reads_Ulong]) (auto simp: marshalUlong_def)
qed

datatype Address = AddressString string

fun Address_bytes :: "Address \<Rightarrow> bytes" where
  "Address_bytes (AddressString src) = marshalString src"

definition marshalAddressUnion :: "Address option \<Rightarrow> codec_error + bytes" where
  "marshalAddressUnion src = (case src of None \<Rightarrow> Inl NotImplemented | Some src \<Rightarrow> Inr (Address_bytes src))"

definition unmarshalAddressUnion :: "bytes \<Rightarrow> Address option decoded" where
  "unmarshalAddressUnion =
     with_constructor (\<lambda>c buf.
       if c = NullEncoding then Got None buf
       else if c = StringStr8Utf8Encoding \<or> c = StringStr32Utf8Encoding then
         decoded_of (\<lambda>v. Some (AddressString v)) (unmarshalString c buf)
       else Wrong (UnexpectedConstructor c))"

lemma codes_Address:
  assumes "length (Address_bytes a) < 4294967296"
  shows "codes unmarshalAddressUnion (Address_bytes a) (Some a)"
proof (cases a)
  case (AddressString x)
  then have "length x < 4294967296" using assms marshalString_length [of x] by simp
  from reads_String [OF this] show ?thesis
    unfolding unmarshalAddressUnion_def AddressString Address_bytes.simps
    by (rule union_codes) (auto simp: marshalString_def)
qed

subsection \<open>Error conditions\<close>

datatype ErrorCondition = ConnectionError string | SessionError string | LinkError string | AMQPError string

fun condition_text :: "ErrorCondition \<Rightarrow> string" where
  "condition_text (ConnectionError s) = s"
| "condition_text (SessionError s) = s"
| "condition_text (LinkError s) = s"
| "condition_text (AMQPError s) = s"

definition HasPrefix :: "string \<Rightarrow> string \<Rightarrow> bool" where
  "HasPrefix s p \<longleftrightarrow> take (length p) s = p"

definition condition_of :: "string \<Rightarrow> ErrorCondition" where
  "condition_of s =
     (if HasPrefix s ''amqp:connection:'' then ConnectionError s
      else if HasPrefix s ''amqp:session:'' then SessionError s
      else if HasPrefix s ''amqp:link:'' then LinkError s
      else AMQPError s)"

definition unmarshalErrorCondition :: "u8 \<Rightarrow> bytes \<Rightarrow> ErrorCondition option decoded" where
  "unmarshalErrorCondition c buf =
     (if c = NullEncoding then Got None buf
      else decoded_of (\<lambda>s. Some (condition_of s)) (unmarshalSymbol c buf))"

definition ErrorCondition_MarshalBuffer :: "ErrorCondition \<Rightarrow> bytes" where
  "ErrorCondition_MarshalBuffer t = marshalSymbol (condition_text t)"

definition valid_condition :: "ErrorCondition \<Rightarrow> bool" where
  "valid_condition e \<longleftrightarrow> length (condition_text e) \<le> 255 \<and> condition_of (condition_text e) = e"

lemma codes_ErrorCondition:
  assumes "valid_condition e"
  shows "codes (with_constructor unmarshalErrorCondition) (ErrorCondition_MarshalBuffer e) (Some e)"
proof -
  have "codes (with_constructor unmarshalErrorCondition) (ErrorCondition_MarshalBuffer e) (Some (condition_of (condition_text e)))"
    unfolding ErrorCondition_MarshalBuffer_def
    by (rule union_codes [OF reads_Symbol, where h = "\<lambda>s. Some (condition_of s)"])
      (use assms in \<open>auto simp: valid_condition_def unmarshalErrorCondition_def marshalSymbol_def\<close>)
  then show ?thesis using assms by (simp add: valid_condition_def)
qed

end
