(* ===== verification/Amqp_V1_Composite.thy ===== *)
theory Amqp_V1_Composite
  imports Amqp_V1_Unions
begin

text \<open>
  The composite types of AMQP 1.0. The generated \<^verbatim>\<open>MarshalBuffer\<close> methods of
  \<^verbatim>\<open>amqp1-0-0.go\<close> all have one shape: the descriptor, and a list of the fields up to the last
  one that is present, with a null for each absent one before it. The generated
  \<^verbatim>\<open>UnmarshalBuffer\<close> methods reset the fields, check the descriptor, and read as many fields as
  the list has. What differs between the types is the items that are written and the readers of the
  fields; the shape is defined, and proved to round-trip, once. A composite type is an instance of
  the locale \<open>composite_type\<close>.
\<close>

subsection \<open>Writing\<close>

text \<open>A field that is written. Writing may panic: a mandatory interface that is nil.\<close>

datatype item = Absent | Present "bytes outcome"

definition mandatory :: "bytes \<Rightarrow> item" where
  "mandatory bs = Present (Ret bs)"

definition present_some :: "('a \<Rightarrow> bytes outcome) \<Rightarrow> 'a option \<Rightarrow> item" where
  "present_some f v = (case v of None \<Rightarrow> Absent | Some x \<Rightarrow> Present (f x))"

text \<open>A method call on a mandatory interface value.\<close>

definition mandatory_some :: "('a \<Rightarrow> bytes) \<Rightarrow> 'a option \<Rightarrow> item" where
  "mandatory_some f v =
     (case v of None \<Rightarrow> Present (Panic ''nil pointer dereference'') | Some x \<Rightarrow> Present (Ret (f x)))"

definition present_if :: "bool \<Rightarrow> bytes \<Rightarrow> item" where
  "present_if c bs = (if c then Present (Ret bs) else Absent)"

fun item_bytes :: "item \<Rightarrow> bytes outcome" where
  "item_bytes Absent = Ret marshalNull"
| "item_bytes (Present b) = b"

fun items_bytes :: "item list \<Rightarrow> bytes outcome" where
  "items_bytes [] = Ret []"
| "items_bytes (i # is) = and_then (item_bytes i) (\<lambda>b. and_then (items_bytes is) (\<lambda>bs. Ret (b @ bs)))"

text \<open>The items up to the last one that is present.\<close>

fun up_to_present :: "item list \<Rightarrow> item list" where
  "up_to_present [] = []"
| "up_to_present (i # is) = (if list_all (\<lambda>j. j = Absent) (i # is) then [] else i # up_to_present is)"

definition MarshalComposite :: "u64 \<Rightarrow> item list \<Rightarrow> bytes outcome" where
  "MarshalComposite descriptor items =
     (let is = up_to_present items in
      if is = [] then Ret (DescriptorEncoding # marshalUlong descriptor @ [List0Encoding])
      else and_then (items_bytes is) (\<lambda>bs.
        Ret (DescriptorEncoding # marshalUlong descriptor @ compound List8Encoding List32Encoding (length is) bs)))"

subsection \<open>Reading\<close>

type_synonym 'r field_reader = "'r \<Rightarrow> bytes \<Rightarrow> 'r decoded"

text \<open>Read a field and store it; the third argument is the update of the record's field.\<close>

definition field :: "(bytes \<Rightarrow> 'a decoded) \<Rightarrow> (('a \<Rightarrow> 'a) \<Rightarrow> 'r \<Rightarrow> 'r) \<Rightarrow> 'r field_reader" where
  "field r upd t buf =
     (case r buf of Crash \<Rightarrow> Crash | Wrong e \<Rightarrow> Wrong e | Got v rest \<Rightarrow> Got (upd (\<lambda>_. v) t) rest)"

text \<open>A scalar whose null is a value of its own.\<close>

definition null_or :: "'a \<Rightarrow> (u8 \<Rightarrow> bytes \<Rightarrow> 'a read) \<Rightarrow> bytes \<Rightarrow> 'a decoded" where
  "null_or n f =
     with_constructor (\<lambda>c buf. if c = NullEncoding then Got n buf else decoded_of (\<lambda>v. v) (f c buf))"

text \<open>A pointer to a composite: null is nil.\<close>

definition nullable :: "(bytes \<Rightarrow> 'a decoded) \<Rightarrow> bytes \<Rightarrow> 'a option decoded" where
  "nullable r buf =
     (case r buf of Crash \<Rightarrow> Crash
      | Wrong e \<Rightarrow> if e = IsNull then Got None (tl buf) else Wrong e
      | Got v rest \<Rightarrow> Got (Some v) rest)"

text \<open>An error in a field is wrapped.\<close>

fun read_fields :: "nat \<Rightarrow> 'r field_reader list \<Rightarrow> 'r \<Rightarrow> bytes \<Rightarrow> 'r decoded" where
  "read_fields n [] t buf = Got t buf"
| "read_fields 0 (f # fs) t buf = Got t buf"
| "read_fields (Suc n) (f # fs) t buf =
     (case f t buf of Crash \<Rightarrow> Crash | Wrong e \<Rightarrow> Wrong (FieldFailed e) | Got t' rest \<Rightarrow> read_fields n fs t' rest)"

text \<open>The descriptor of a described value.\<close>

definition read_descriptor :: "bytes \<Rightarrow> u64 decoded" where
  "read_descriptor buf =
     (case buf of [] \<Rightarrow> Wrong Underflow
      | c # buf1 \<Rightarrow>
        if c = NullEncoding then Wrong IsNull
        else if c \<noteq> DescriptorEncoding then Wrong (UnexpectedConstructor c)
        else scalar unmarshalUlong buf1)"

definition UnmarshalComposite :: "u64 \<Rightarrow> 'r \<Rightarrow> 'r field_reader list \<Rightarrow> bytes \<Rightarrow> 'r decoded" where
  "UnmarshalComposite descriptor zero fs buf =
     (case read_descriptor buf of Crash \<Rightarrow> Crash | Wrong e \<Rightarrow> Wrong e
      | Got d buf1 \<Rightarrow>
        if d \<noteq> descriptor then Wrong UnhandledDescriptor
        else (case buf1 of [] \<Rightarrow> Wrong Underflow
        | c # buf2 \<Rightarrow>
          if c = NullEncoding \<or> c = List0Encoding then Got zero buf2
          else if c = List8Encoding \<or> c = List32Encoding then
            (case read_compound (if c = List8Encoding then 1 else 4) buf2 of None \<Rightarrow> Wrong Underflow
             | Some (n, items, rest) \<Rightarrow>
               (case read_fields n fs zero items of Crash \<Rightarrow> Crash | Wrong e \<Rightarrow> Wrong e
                | Got t _ \<Rightarrow> Got t rest))
          else Wrong (UnexpectedConstructor c)))"

subsection \<open>A composite read back\<close>

lemma codes_descriptor: "codes read_descriptor (DescriptorEncoding # marshalUlong d) d"
  using codes_scalar [OF reads_Ulong, of d] by (simp add: codes_def read_descriptor_def)

text \<open>The reader \<open>r\<close> takes what is written for the item and stores it.\<close>

definition item_codes :: "item \<Rightarrow> (bytes \<Rightarrow> 'r decoded) \<Rightarrow> 'r \<Rightarrow> bool" where
  "item_codes i r s \<longleftrightarrow> (\<forall>bs. item_bytes i = Ret bs \<and> length bs < 4294967296 \<longrightarrow> bs \<noteq> [] \<and> codes r bs s)"

text \<open>From the state \<open>s\<close> on the readers store what is left of \<open>t\<close>: where all further items are
  absent nothing is left, and otherwise the next reader takes the next item.\<close>

fun fields_code :: "'r \<Rightarrow> item list \<Rightarrow> 'r field_reader list \<Rightarrow> 'r \<Rightarrow> bool" where
  "fields_code t [] fs s \<longleftrightarrow> fs = [] \<and> s = t"
| "fields_code t (i # is) fs s \<longleftrightarrow>
     (list_all (\<lambda>j. j = Absent) (i # is) \<longrightarrow> s = t) \<and>
     (\<not> list_all (\<lambda>j. j = Absent) (i # is) \<longrightarrow>
        fs \<noteq> [] \<and> (\<exists>s'. item_codes i (hd fs s) s' \<and> fields_code t is (tl fs) s'))"

lemma read_fields_code:
  "fields_code t items fs s \<Longrightarrow> items_bytes (up_to_present items) = Ret bs \<Longrightarrow> length bs < 4294967296 \<Longrightarrow>
   read_fields (length (up_to_present items)) fs s bs = Got t [] \<and> length (up_to_present items) \<le> length bs"
proof (induction items arbitrary: fs s bs)
  case Nil
  then show ?case by simp
next
  case (Cons i "is")
  show ?case
  proof (cases "list_all (\<lambda>j. j = Absent) (i # is)")
    case True
    then show ?thesis using Cons.prems by (cases fs) auto
  next
    case False
    then obtain f fs' s' where f: "fs = f # fs'" "item_codes i (f s) s'" "fields_code t is fs' s'"
      using Cons.prems(1) by (cases fs) auto
    have u: "up_to_present (i # is) = i # up_to_present is" using False by simp
    obtain b bs' where b: "item_bytes i = Ret b" "items_bytes (up_to_present is) = Ret bs'" "bs = b @ bs'"
      using Cons.prems(2) unfolding u by auto
    have c: "b \<noteq> []" "codes (f s) b s'" using f(2) b Cons.prems(3) by (auto simp: item_codes_def)
    have "read_fields (length (up_to_present is)) fs' s' bs' = Got t [] \<and> length (up_to_present is) \<le> length bs'"
      using Cons.IH [OF f(3) b(2)] Cons.prems(3) b(3) by simp
    then show ?thesis unfolding u f(1) b(3) using codesD [OF c(2), of bs'] c(1) by (cases b) auto
  qed
qed

lemma up_to_present_length: "length (up_to_present items) \<le> length items"
  by (induction items) auto

lemma UnmarshalComposite_described:
  "UnmarshalComposite d zero fs ((DescriptorEncoding # marshalUlong d) @ c # buf) =
     (if c = NullEncoding \<or> c = List0Encoding then Got zero buf
      else if c = List8Encoding \<or> c = List32Encoding then
        (case read_compound (if c = List8Encoding then 1 else 4) buf of None \<Rightarrow> Wrong Underflow
         | Some (n, items, rest) \<Rightarrow>
           (case read_fields n fs zero items of Crash \<Rightarrow> Crash | Wrong e \<Rightarrow> Wrong e | Got t _ \<Rightarrow> Got t rest))
      else Wrong (UnexpectedConstructor c))"
  unfolding UnmarshalComposite_def codesD [OF codes_descriptor] by simp

lemma composite_codes:
  assumes fields: "fields_code t items fs zero" and few: "length items \<le> 255"
    and bs: "MarshalComposite d items = Ret bs" and len: "length bs < 4294967296"
  shows "codes (UnmarshalComposite d zero fs) bs t"
proof (rule codesI)
  fix rest
  define ps where "ps = up_to_present items"
  show "UnmarshalComposite d zero fs (bs @ rest) = Got t rest"
  proof (cases "ps = []")
    case True
    have "zero = t" using fields True by (cases items) (auto simp: ps_def split: if_splits)
    then show ?thesis
      using True bs UnmarshalComposite_described [of d zero fs List0Encoding rest]
      by (auto simp: MarshalComposite_def ps_def)
  next
    case False
    obtain b where b: "items_bytes ps = Ret b"
        "bs = (DescriptorEncoding # marshalUlong d) @ compound List8Encoding List32Encoding (length ps) b"
      using bs False by (auto simp: MarshalComposite_def ps_def Let_def)
    have lb: "length b < 4294967296"
      using len compound_length [of b List8Encoding List32Encoding "length ps"] unfolding b(2) by simp
    have r: "read_fields (length ps) fs zero b = Got t []" "length ps \<le> length b"
      using read_fields_code [OF fields b(1) [unfolded ps_def] lb] by (simp_all add: ps_def)
    have n: "length ps \<le> 255" using few up_to_present_length [of items] by (simp add: ps_def)
    show ?thesis
    proof (cases "length b + 1 \<le> 255")
      case True
      have e: "bs @ rest = (DescriptorEncoding # marshalUlong d) @ List8Encoding # of_nat (length b + 1) # of_nat (length ps) # b @ rest"
        using True n unfolding b(2) compound_def by simp
      show ?thesis unfolding e UnmarshalComposite_described
        using read_compound8 [of b "length ps" rest] True n r by (simp del: of_nat_add of_nat_Suc)
    next
      case False
      have e: "bs @ rest = (DescriptorEncoding # marshalUlong d) @ List32Encoding # be_bytes 4 (length b + 4) @ be_bytes 4 (length ps) @ b @ rest"
        using False unfolding b(2) compound_def by simp
      have "length b + 4 < 4294967296" using len False unfolding b(2) compound_def by simp
      then show ?thesis unfolding e UnmarshalComposite_described
        using read_compound32 [of b "length ps" rest] n r by (simp del: be_bytes.simps)
    qed
  qed
qed

subsection \<open>Composite types\<close>

text \<open>The contract of a composite type: for a valid value the readers of its fields store what its
  items write. Every composite of the protocol is an interpretation of it.\<close>

locale composite_type =
  fixes descriptor :: u64 and items :: "'r \<Rightarrow> item list" and zero :: 'r
    and fs :: "'r field_reader list" and valid :: "'r \<Rightarrow> bool"
  assumes fields: "valid t \<Longrightarrow> fields_code t (items t) fs zero"
    and few: "length (items t) \<le> 255"
begin

lemma round_trip:
  "valid t \<Longrightarrow> MarshalComposite descriptor (items t) = Ret bs \<Longrightarrow> length bs < 4294967296 \<Longrightarrow>
   codes (UnmarshalComposite descriptor zero fs) bs t"
  using composite_codes [OF fields few] .

lemma not_null: "codes (nullable (UnmarshalComposite descriptor zero fs)) [NullEncoding] None"
  by (simp add: codes_def nullable_def UnmarshalComposite_def read_descriptor_def)

lemma pointer_round_trip:
  assumes "valid t" and "MarshalComposite descriptor (items t) = Ret bs" and "length bs < 4294967296"
  shows "codes (nullable (UnmarshalComposite descriptor zero fs)) bs (Some t)"
  using codesD [OF round_trip [OF assms]] by (simp add: codes_def nullable_def)

end

subsection \<open>Fields read back\<close>

named_theorems item_intros \<open>which reader takes what an item writes\<close>

lemma fields_code_Nil [item_intros]: "s = t \<Longrightarrow> fields_code t [] [] s"
  by simp

lemma fields_code_Cons [item_intros]:
  "(\<not> list_all (\<lambda>j. j = Absent) (i # is) \<Longrightarrow> item_codes i (f s) s') \<Longrightarrow>
   (list_all (\<lambda>j. j = Absent) (i # is) \<Longrightarrow> s = t) \<Longrightarrow> fields_code t is fs s' \<Longrightarrow>
   fields_code t (i # is) (f # fs) s"
  by auto

lemma codes_nonempty: "codes r bs s \<Longrightarrow> (\<And>v. r [] \<noteq> Got v []) \<Longrightarrow> bs \<noteq> []"
  unfolding codes_def by (metis append_Nil)

lemma field_codes: "codes r bs v \<Longrightarrow> codes (field r upd s) bs (upd (\<lambda>_. v) s)"
  by (simp add: codes_def field_def)

lemma item_codes_field:
  assumes "\<And>bs. item_bytes i = Ret bs \<Longrightarrow> length bs < 4294967296 \<Longrightarrow> codes r bs v" and "\<And>v. r [] \<noteq> Got v []"
  shows "item_codes i (field r upd s) (upd (\<lambda>_. v) s)"
  using assms field_codes [of r _ v upd s] codes_nonempty [of r _ v] unfolding item_codes_def by blast

lemma reader_of_nothing:
  "with_constructor g [] \<noteq> Got v []" "scalar f [] \<noteq> Got w []" "null_or n f [] \<noteq> Got w []"
  "unmarshalFields fmt [] \<noteq> Got m []" "unmarshalMessageIDUnion [] \<noteq> Got i []" "unmarshalAddressUnion [] \<noteq> Got a []"
  "nullable (UnmarshalComposite d zero fs) [] \<noteq> Got p []"
  by (simp_all add: with_constructor_def scalar_def null_or_def unmarshalFields_def unmarshalMessageIDUnion_def
      unmarshalAddressUnion_def nullable_def UnmarshalComposite_def read_descriptor_def)

lemma item_mandatory:
  "(length bs < 4294967296 \<Longrightarrow> codes r bs v) \<Longrightarrow> (\<And>v. r [] \<noteq> Got v []) \<Longrightarrow>
   item_codes (mandatory bs) (field r upd s) (upd (\<lambda>_. v) s)"
  by (rule item_codes_field) (auto simp: mandatory_def)

lemma item_present_if:
  "(c \<Longrightarrow> length bs < 4294967296 \<Longrightarrow> codes r bs v) \<Longrightarrow> (\<not> c \<Longrightarrow> codes r [NullEncoding] v) \<Longrightarrow> (\<And>v. r [] \<noteq> Got v []) \<Longrightarrow>
   item_codes (present_if c bs) (field r upd s) (upd (\<lambda>_. v) s)"
  by (rule item_codes_field) (auto simp: present_if_def marshalNull_def split: if_splits)

lemma item_present_some:
  "(\<And>x bs. v = Some x \<Longrightarrow> f x = Ret bs \<Longrightarrow> length bs < 4294967296 \<Longrightarrow> codes r bs v) \<Longrightarrow>
   (v = None \<Longrightarrow> codes r [NullEncoding] v) \<Longrightarrow> (\<And>v. r [] \<noteq> Got v []) \<Longrightarrow>
   item_codes (present_some f v) (field r upd s) (upd (\<lambda>_. v) s)"
  by (rule item_codes_field) (auto simp: present_some_def marshalNull_def split: option.splits)

text \<open>The readers on a null.\<close>

lemma codes_null:
  "codes (scalar unmarshalBoolean) [NullEncoding] False" "codes (scalar unmarshalUbyte) [NullEncoding] 0"
  "codes (scalar unmarshalUshort) [NullEncoding] 0" "codes (scalar unmarshalUint) [NullEncoding] 0"
  "codes (scalar unmarshalUlong) [NullEncoding] 0" "codes (scalar unmarshalString) [NullEncoding] []"
  "codes (scalar unmarshalSymbol) [NullEncoding] []" "codes (scalar unmarshalBinary) [NullEncoding] None"
  "codes (scalar unmarshalTimestamp) [NullEncoding] 0" "codes (null_or n f) [NullEncoding] n"
  "codes (with_constructor unmarshalSymbolArray) [NullEncoding] None" "codes (unmarshalFields fmt) [NullEncoding] None"
  "codes unmarshalMessageIDUnion [NullEncoding] None" "codes unmarshalAddressUnion [NullEncoding] None"
  by (simp_all add: codes_def scalar_def with_constructor_def null_or_def unmarshal_defs unmarshalSymbolArray_def
      unmarshalFields_def unmarshalMap.simps unmarshalMessageIDUnion_def unmarshalAddressUnion_def)

lemma codes_null_or:
  "reads f bs v \<Longrightarrow> hd bs \<noteq> NullEncoding \<Longrightarrow> codes (null_or n f) bs v"
  by (cases bs) (auto simp: codes_def null_or_def with_constructor_def reads_def)

text \<open>The readers on what was written.\<close>

lemma codes_written:
  "codes (scalar unmarshalBoolean) (marshalBoolean b) b" "codes (scalar unmarshalUbyte) (marshalUbyte w8) w8"
  "codes (scalar unmarshalUshort) (marshalUshort w16) w16" "codes (scalar unmarshalUint) (marshalUint w32) w32"
  "codes (scalar unmarshalUlong) (marshalUlong w64) w64"
  "codes (null_or n8 unmarshalUbyte) (marshalUbyte w8) w8" "codes (null_or n16 unmarshalUshort) (marshalUshort w16) w16"
  "codes (null_or n32 unmarshalUint) (marshalUint w32) w32"
  "length (marshalString v) < 4294967296 \<Longrightarrow> codes (scalar unmarshalString) (marshalString v) v"
  "length v \<le> 255 \<Longrightarrow> codes (scalar unmarshalSymbol) (marshalSymbol v) v"
  "length (marshalBinary x) < 4294967296 \<Longrightarrow> codes (scalar unmarshalBinary) (marshalBinary x) (Some x)"
proof -
  show "codes (null_or n8 unmarshalUbyte) (marshalUbyte w8) w8" "codes (null_or n16 unmarshalUshort) (marshalUshort w16) w16"
    "codes (null_or n32 unmarshalUint) (marshalUint w32) w32"
    by (rule codes_null_or [OF reads_Ubyte] codes_null_or [OF reads_Ushort] codes_null_or [OF reads_Uint],
        simp add: marshalUbyte_def marshalUshort_def marshalUint_def)+
  show "codes (scalar unmarshalString) (marshalString v) v" if "length (marshalString v) < 4294967296"
    using that marshalString_length [of v] by (intro codes_scalar reads_String) simp
  show "codes (scalar unmarshalBinary) (marshalBinary x) (Some x)" if "length (marshalBinary x) < 4294967296"
    using that by (intro codes_scalar reads_Binary) (auto simp: marshalBinary_def split: if_splits)
qed (rule codes_scalar, rule reads_Boolean reads_Ubyte reads_Ushort reads_Uint reads_Ulong reads_Symbol, (assumption)?)+

text \<open>The items of each type of field.\<close>

lemma item_bool [item_intros]:
  "item_codes (present_if b (marshalBoolean b)) (field (scalar unmarshalBoolean) upd s) (upd (\<lambda>_. b) s)"
  "item_codes (mandatory (marshalBoolean b)) (field (scalar unmarshalBoolean) upd s) (upd (\<lambda>_. b) s)"
  by (rule item_present_if item_mandatory; simp add: codes_null codes_written reader_of_nothing)+

lemma item_numbers [item_intros]:
  "item_codes (present_if (a \<noteq> 0) (marshalUbyte a)) (field (scalar unmarshalUbyte) ua s) (ua (\<lambda>_. a) s)"
  "item_codes (mandatory (marshalUbyte a)) (field (scalar unmarshalUbyte) ua s) (ua (\<lambda>_. a) s)"
  "item_codes (present_if (b \<noteq> 0) (marshalUshort b)) (field (scalar unmarshalUshort) ub s) (ub (\<lambda>_. b) s)"
  "item_codes (present_if (c \<noteq> 0) (marshalUint c)) (field (scalar unmarshalUint) uc s) (uc (\<lambda>_. c) s)"
  "item_codes (mandatory (marshalUint c)) (field (scalar unmarshalUint) uc s) (uc (\<lambda>_. c) s)"
  "item_codes (present_if (d \<noteq> 0) (marshalUlong d)) (field (scalar unmarshalUlong) ud s) (ud (\<lambda>_. d) s)"
  "item_codes (mandatory (marshalUlong d)) (field (scalar unmarshalUlong) ud s) (ud (\<lambda>_. d) s)"
  by (rule item_present_if item_mandatory; simp add: codes_null codes_written reader_of_nothing)+

lemma item_null_or [item_intros]:
  "item_codes (present_if (a \<noteq> n) (marshalUbyte a)) (field (null_or n unmarshalUbyte) ua s) (ua (\<lambda>_. a) s)"
  "item_codes (present_if (b \<noteq> k) (marshalUshort b)) (field (null_or k unmarshalUshort) ub s) (ub (\<lambda>_. b) s)"
  "item_codes (present_if (c \<noteq> l) (marshalUint c)) (field (null_or l unmarshalUint) uc s) (uc (\<lambda>_. c) s)"
  "item_codes (mandatory (marshalUint c)) (field (null_or l unmarshalUint) uc s) (uc (\<lambda>_. c) s)"
  by (rule item_present_if item_mandatory; simp add: codes_null codes_written reader_of_nothing)+

lemma item_string [item_intros]:
  "item_codes (present_if (v \<noteq> []) (marshalString v)) (field (scalar unmarshalString) upd s) (upd (\<lambda>_. v) s)"
  "item_codes (mandatory (marshalString v)) (field (scalar unmarshalString) upd s) (upd (\<lambda>_. v) s)"
  by (rule item_present_if item_mandatory; simp add: codes_null codes_written reader_of_nothing)+

lemma item_symbol [item_intros]:
  "length v \<le> 255 \<Longrightarrow> item_codes (present_if (v \<noteq> []) (marshalSymbol v)) (field (scalar unmarshalSymbol) upd s) (upd (\<lambda>_. v) s)"
  "length v \<le> 255 \<Longrightarrow> item_codes (mandatory (marshalSymbol v)) (field (scalar unmarshalSymbol) upd s) (upd (\<lambda>_. v) s)"
  by (rule item_present_if item_mandatory; simp add: codes_null codes_written reader_of_nothing)+

lemma item_binary [item_intros]:
  "item_codes (present_some (\<lambda>x. Ret (marshalBinary x)) v) (field (scalar unmarshalBinary) upd s) (upd (\<lambda>_. v) s)"
  by (rule item_present_some; auto simp: codes_null codes_written reader_of_nothing)

lemma item_binary_mandatory:
  "v = Some x \<Longrightarrow> item_codes (mandatory (marshalBinary x)) (field (scalar unmarshalBinary) upd s) (upd (\<lambda>_. v) s)"
  by (rule item_mandatory; auto simp: codes_written reader_of_nothing)

definition nonempty :: "'a list option \<Rightarrow> bool" where
  "nonempty v = (case v of None \<Rightarrow> False | Some x \<Rightarrow> x \<noteq> [])"

lemma item_symbols [item_intros]:
  "v \<noteq> Some [] \<Longrightarrow> item_codes (present_if (nonempty v) (marshalSymbolArray v)) (field (with_constructor unmarshalSymbolArray) upd s) (upd (\<lambda>_. v) s)"
  "item_codes (mandatory (marshalSymbolArray v)) (field (with_constructor unmarshalSymbolArray) upd s) (upd (\<lambda>_. v) s)"
  by (rule item_present_if item_mandatory; auto simp: nonempty_def codes_null codes_SymbolArray reader_of_nothing split: option.splits)+

lemma item_map:
  assumes "case v of None \<Rightarrow> True | Some m \<Rightarrow> (case m of None \<Rightarrow> False | Some m \<Rightarrow> canonical m)"
  shows "item_codes (present_some (\<lambda>m. Ret (marshalMap m)) v) (field (unmarshalFields fmt) upd s) (upd (\<lambda>_. v) s)"
  using assms by (intro item_present_some) (auto simp: codes_null codes_Map reader_of_nothing split: option.splits)

lemma item_message_id [item_intros]:
  assumes "case v of None \<Rightarrow> True | Some i \<Rightarrow> valid_MessageID i"
  shows "item_codes (present_some (\<lambda>i. Ret (MessageID_bytes i)) v) (field unmarshalMessageIDUnion upd s) (upd (\<lambda>_. v) s)"
  using assms by (intro item_present_some) (auto simp: codes_null codes_MessageID reader_of_nothing split: option.splits)

lemma item_address [item_intros]:
  "item_codes (present_some (\<lambda>a. Ret (Address_bytes a)) v) (field unmarshalAddressUnion upd s) (upd (\<lambda>_. v) s)"
  by (intro item_present_some) (auto simp: codes_null codes_Address reader_of_nothing)

lemma item_condition [item_intros]:
  assumes "case v of None \<Rightarrow> True | Some e \<Rightarrow> valid_condition e"
  shows "item_codes (mandatory_some ErrorCondition_MarshalBuffer v) (field (with_constructor unmarshalErrorCondition) upd s) (upd (\<lambda>_. v) s)"
  using assms by (intro item_codes_field) (auto simp: mandatory_some_def codes_ErrorCondition reader_of_nothing split: option.splits)

text \<open>A time that is read back: zero, or a whole number of milliseconds since 1970.\<close>

definition valid_time :: "gotime \<Rightarrow> bool" where
  "valid_time t \<longleftrightarrow> t = 0 \<or> (unix_epoch \<le> t \<and> t < unix_epoch + 2 ^ 63 \<and> (t - unix_epoch) mod 1000000 = 0)"

lemma item_time [item_intros]:
  assumes "valid_time v"
  shows "item_codes (present_if (\<not> IsZero v) (marshalTimestamp v)) (field (scalar unmarshalTimestamp) upd s) (upd (\<lambda>_. v) s)"
proof (rule item_present_if)
  assume "\<not> IsZero v"
  then have r: "unix_epoch \<le> v" "v < unix_epoch + 2 ^ 63" "(v - unix_epoch) mod 1000000 = 0"
    using assms by (auto simp: valid_time_def IsZero_def)
  have "unix_epoch + (v - unix_epoch) div 1000000 * 1000000 = v"
    using r(3) by (simp add: minus_mod_eq_div_mult [symmetric])
  then show "codes (scalar unmarshalTimestamp) (marshalTimestamp v) v"
    using codes_scalar [OF reads_Timestamp [OF r(1,2)]] by simp
qed (auto simp: IsZero_def codes_null reader_of_nothing)

lemma item_pointer:
  assumes "composite_type items zero fs valid" and "case v of None \<Rightarrow> True | Some t \<Rightarrow> valid t"
  shows "item_codes (present_some (\<lambda>t. MarshalComposite d (items t)) v)
    (field (nullable (UnmarshalComposite d zero fs)) upd s) (upd (\<lambda>_. v) s)"
  using assms composite_type.not_null [OF assms(1)] composite_type.pointer_round_trip [OF assms(1)]
  by (intro item_present_some) (auto simp: reader_of_nothing split: option.splits)

end
