(* ===== verification/Amqp_V1_Restricted.thy ===== *)
theory Amqp_V1_Restricted
  imports Amqp_V1_Composite
begin

text \<open>
  The restricted types of \<^verbatim>\<open>amqp1-0-0.go\<close>: a primitive type under another name, whose
  \<^verbatim>\<open>MarshalBuffer\<close> and \<^verbatim>\<open>UnmarshalBuffer\<close> call those of the primitive type. Some have a
  value of their own for null; some are described. A type that is a struct behind a pointer crashes
  on a null: the pointer it is copied from is nil.
\<close>

named_theorems restricted \<open>the restricted types as primitive types\<close>

abbreviation RemoteChannelNull :: u16 where "RemoteChannelNull \<equiv> 0xffff"
abbreviation TransferNumberNull :: u32 where "TransferNumberNull \<equiv> 0xffffffff"
abbreviation HandleNull :: u32 where "HandleNull \<equiv> 0xffffffff"
abbreviation SenderSettleModeNull :: u8 where "SenderSettleModeNull \<equiv> 0xfe"
abbreviation ReceiverSettleModeNull :: u8 where "ReceiverSettleModeNull \<equiv> 0xfe"

definition map_struct :: "(gotime \<Rightarrow> string) \<Rightarrow> bytes \<Rightarrow> pstruct decoded" where
  "map_struct fmt =
     with_constructor (\<lambda>c buf. case unmarshalMap fmt c buf of Crash \<Rightarrow> Crash | Wrong e \<Rightarrow> Wrong e
       | Got m rest \<Rightarrow> (case m of None \<Rightarrow> Crash | Some m \<Rightarrow> Got (Some m) rest))"

definition described :: "u64 \<Rightarrow> (bytes \<Rightarrow> 'a decoded) \<Rightarrow> bytes \<Rightarrow> 'a decoded" where
  "described descriptor r buf =
     (case read_descriptor buf of Crash \<Rightarrow> Crash | Wrong e \<Rightarrow> Wrong e
      | Got d rest \<Rightarrow> if d \<noteq> descriptor then Wrong UnhandledDescriptor else r rest)"

definition slice :: "bytes option \<Rightarrow> bytes" where
  "slice v = (case v of None \<Rightarrow> [] | Some x \<Rightarrow> x)"

definition valid_map :: "Fields \<Rightarrow> bool" where
  "valid_map v \<longleftrightarrow> (case v of None \<Rightarrow> True | Some m \<Rightarrow> (case m of None \<Rightarrow> False | Some m \<Rightarrow> canonical m))"

definition Role_MarshalBuffer :: "bool \<Rightarrow> bytes" where
  [restricted]: "Role_MarshalBuffer t = marshalBoolean t"

definition Role_UnmarshalBuffer :: "bytes \<Rightarrow> bool decoded" where
  [restricted]: "Role_UnmarshalBuffer = scalar unmarshalBoolean"

definition SenderSettleMode_MarshalBuffer :: "u8 \<Rightarrow> bytes" where
  [restricted]: "SenderSettleMode_MarshalBuffer t = marshalUbyte t"

definition SenderSettleMode_UnmarshalBuffer :: "bytes \<Rightarrow> u8 decoded" where
  [restricted]: "SenderSettleMode_UnmarshalBuffer = null_or SenderSettleModeNull unmarshalUbyte"

definition ReceiverSettleMode_MarshalBuffer :: "u8 \<Rightarrow> bytes" where
  [restricted]: "ReceiverSettleMode_MarshalBuffer t = marshalUbyte t"

definition ReceiverSettleMode_UnmarshalBuffer :: "bytes \<Rightarrow> u8 decoded" where
  [restricted]: "ReceiverSettleMode_UnmarshalBuffer = null_or ReceiverSettleModeNull unmarshalUbyte"

definition Handle_MarshalBuffer :: "u32 \<Rightarrow> bytes" where
  [restricted]: "Handle_MarshalBuffer t = marshalUint t"

definition Handle_UnmarshalBuffer :: "bytes \<Rightarrow> u32 decoded" where
  [restricted]: "Handle_UnmarshalBuffer = null_or HandleNull unmarshalUint"

definition Seconds_MarshalBuffer :: "u32 \<Rightarrow> bytes" where
  [restricted]: "Seconds_MarshalBuffer t = marshalUint t"

definition Seconds_UnmarshalBuffer :: "bytes \<Rightarrow> u32 decoded" where
  [restricted]: "Seconds_UnmarshalBuffer = scalar unmarshalUint"

definition Milliseconds_MarshalBuffer :: "u32 \<Rightarrow> bytes" where
  [restricted]: "Milliseconds_MarshalBuffer t = marshalUint t"

definition Milliseconds_UnmarshalBuffer :: "bytes \<Rightarrow> u32 decoded" where
  [restricted]: "Milliseconds_UnmarshalBuffer = scalar unmarshalUint"

definition DeliveryTag_MarshalBuffer :: "bytes \<Rightarrow> bytes" where
  [restricted]: "DeliveryTag_MarshalBuffer t = marshalBinary t"

definition DeliveryTag_UnmarshalBuffer :: "bytes \<Rightarrow> bytes option decoded" where
  [restricted]: "DeliveryTag_UnmarshalBuffer = scalar unmarshalBinary"

definition DeliveryNumber_MarshalBuffer :: "u32 \<Rightarrow> bytes" where
  [restricted]: "DeliveryNumber_MarshalBuffer t = marshalUint t"

definition DeliveryNumber_UnmarshalBuffer :: "bytes \<Rightarrow> u32 decoded" where
  [restricted]: "DeliveryNumber_UnmarshalBuffer = scalar unmarshalUint"

definition TransferNumber_MarshalBuffer :: "u32 \<Rightarrow> bytes" where
  [restricted]: "TransferNumber_MarshalBuffer t = marshalUint t"

definition TransferNumber_UnmarshalBuffer :: "bytes \<Rightarrow> u32 decoded" where
  [restricted]: "TransferNumber_UnmarshalBuffer = null_or TransferNumberNull unmarshalUint"

definition SequenceNo_MarshalBuffer :: "u32 \<Rightarrow> bytes" where
  [restricted]: "SequenceNo_MarshalBuffer t = marshalUint t"

definition SequenceNo_UnmarshalBuffer :: "bytes \<Rightarrow> u32 decoded" where
  [restricted]: "SequenceNo_UnmarshalBuffer = scalar unmarshalUint"

definition MessageFormat_MarshalBuffer :: "u32 \<Rightarrow> bytes" where
  [restricted]: "MessageFormat_MarshalBuffer t = marshalUint t"

definition MessageFormat_UnmarshalBuffer :: "bytes \<Rightarrow> u32 decoded" where
  [restricted]: "MessageFormat_UnmarshalBuffer = scalar unmarshalUint"

definition IETFLanguageTag_MarshalBuffer :: "string \<Rightarrow> bytes" where
  [restricted]: "IETFLanguageTag_MarshalBuffer t = marshalSymbol t"

definition IETFLanguageTag_UnmarshalBuffer :: "bytes \<Rightarrow> string decoded" where
  [restricted]: "IETFLanguageTag_UnmarshalBuffer = scalar unmarshalSymbol"

definition Fields_MarshalBuffer :: "pstruct \<Rightarrow> bytes" where
  [restricted]: "Fields_MarshalBuffer t = marshalMap t"

definition Fields_UnmarshalBuffer :: "(gotime \<Rightarrow> string) \<Rightarrow> bytes \<Rightarrow> pstruct decoded" where
  [restricted]: "Fields_UnmarshalBuffer fmt = map_struct fmt"

definition DeliveryAnnotations_MarshalBuffer :: "pstruct \<Rightarrow> bytes" where
  [restricted]: "DeliveryAnnotations_MarshalBuffer t = DescriptorEncoding # marshalUlong 0x71 @ marshalMap t"

definition DeliveryAnnotations_UnmarshalBuffer :: "(gotime \<Rightarrow> string) \<Rightarrow> bytes \<Rightarrow> pstruct decoded" where
  [restricted]: "DeliveryAnnotations_UnmarshalBuffer fmt = described 0x71 (map_struct fmt)"

definition MessageAnnotations_MarshalBuffer :: "pstruct \<Rightarrow> bytes" where
  [restricted]: "MessageAnnotations_MarshalBuffer t = DescriptorEncoding # marshalUlong 0x72 @ marshalMap t"

definition MessageAnnotations_UnmarshalBuffer :: "(gotime \<Rightarrow> string) \<Rightarrow> bytes \<Rightarrow> pstruct decoded" where
  [restricted]: "MessageAnnotations_UnmarshalBuffer fmt = described 0x72 (map_struct fmt)"

definition ApplicationProperties_MarshalBuffer :: "pstruct \<Rightarrow> bytes" where
  [restricted]: "ApplicationProperties_MarshalBuffer t = DescriptorEncoding # marshalUlong 0x74 @ marshalMap t"

definition ApplicationProperties_UnmarshalBuffer :: "(gotime \<Rightarrow> string) \<Rightarrow> bytes \<Rightarrow> pstruct decoded" where
  [restricted]: "ApplicationProperties_UnmarshalBuffer fmt = described 0x74 (map_struct fmt)"

definition Data_MarshalBuffer :: "bytes \<Rightarrow> bytes" where
  [restricted]: "Data_MarshalBuffer t = DescriptorEncoding # marshalUlong 0x75 @ marshalBinary t"

definition Data_UnmarshalBuffer :: "bytes \<Rightarrow> bytes option decoded" where
  [restricted]: "Data_UnmarshalBuffer = described 0x75 (scalar unmarshalBinary)"

definition Footer_MarshalBuffer :: "pstruct \<Rightarrow> bytes" where
  [restricted]: "Footer_MarshalBuffer t = DescriptorEncoding # marshalUlong 0x78 @ marshalMap t"

definition Footer_UnmarshalBuffer :: "(gotime \<Rightarrow> string) \<Rightarrow> bytes \<Rightarrow> pstruct decoded" where
  [restricted]: "Footer_UnmarshalBuffer fmt = described 0x78 (map_struct fmt)"

definition Annotations_MarshalBuffer :: "pstruct \<Rightarrow> bytes" where
  [restricted]: "Annotations_MarshalBuffer t = marshalMap t"

definition Annotations_UnmarshalBuffer :: "(gotime \<Rightarrow> string) \<Rightarrow> bytes \<Rightarrow> pstruct decoded" where
  [restricted]: "Annotations_UnmarshalBuffer fmt = map_struct fmt"

definition TerminusDurability_MarshalBuffer :: "u32 \<Rightarrow> bytes" where
  [restricted]: "TerminusDurability_MarshalBuffer t = marshalUint t"

definition TerminusDurability_UnmarshalBuffer :: "bytes \<Rightarrow> u32 decoded" where
  [restricted]: "TerminusDurability_UnmarshalBuffer = scalar unmarshalUint"

definition TerminusExpiryPolicy_MarshalBuffer :: "string \<Rightarrow> bytes" where
  [restricted]: "TerminusExpiryPolicy_MarshalBuffer t = marshalSymbol t"

definition TerminusExpiryPolicy_UnmarshalBuffer :: "bytes \<Rightarrow> string decoded" where
  [restricted]: "TerminusExpiryPolicy_UnmarshalBuffer = scalar unmarshalSymbol"

definition StdDistMode_MarshalBuffer :: "string \<Rightarrow> bytes" where
  [restricted]: "StdDistMode_MarshalBuffer t = marshalSymbol t"

definition StdDistMode_UnmarshalBuffer :: "bytes \<Rightarrow> string decoded" where
  [restricted]: "StdDistMode_UnmarshalBuffer = scalar unmarshalSymbol"

definition FilterSet_MarshalBuffer :: "pstruct \<Rightarrow> bytes" where
  [restricted]: "FilterSet_MarshalBuffer t = marshalMap t"

definition FilterSet_UnmarshalBuffer :: "(gotime \<Rightarrow> string) \<Rightarrow> bytes \<Rightarrow> pstruct decoded" where
  [restricted]: "FilterSet_UnmarshalBuffer fmt = map_struct fmt"

definition NodeProperties_MarshalBuffer :: "pstruct \<Rightarrow> bytes" where
  [restricted]: "NodeProperties_MarshalBuffer t = marshalMap t"

definition NodeProperties_UnmarshalBuffer :: "(gotime \<Rightarrow> string) \<Rightarrow> bytes \<Rightarrow> pstruct decoded" where
  [restricted]: "NodeProperties_UnmarshalBuffer fmt = map_struct fmt"

definition SASLCode_MarshalBuffer :: "u8 \<Rightarrow> bytes" where
  [restricted]: "SASLCode_MarshalBuffer t = marshalUbyte t"

definition SASLCode_UnmarshalBuffer :: "bytes \<Rightarrow> u8 decoded" where
  [restricted]: "SASLCode_UnmarshalBuffer = scalar unmarshalUbyte"

lemma absent_iff:
  "present_if c b = Absent \<longleftrightarrow> \<not> c" "present_some f v = Absent \<longleftrightarrow> v = None" "mandatory b \<noteq> Absent"
  "mandatory_some g w \<noteq> Absent" "nonempty x \<longleftrightarrow> x \<noteq> None \<and> x \<noteq> Some []" "IsZero z \<longleftrightarrow> z = 0"
  by (auto simp: present_if_def present_some_def mandatory_def mandatory_some_def nonempty_def IsZero_def split: option.splits)

lemma item_slice [item_intros]:
  "v \<noteq> None \<Longrightarrow> item_codes (mandatory (marshalBinary (slice v))) (field (scalar unmarshalBinary) upd s) (upd (\<lambda>_. v) s)"
  by (auto simp: slice_def intro: item_binary_mandatory)

declare item_map [folded valid_map_def, item_intros]

declare marshalIETFLanguageTagArray_def [restricted] unmarshalIETFLanguageTagArray_def [restricted]

lemma codes_described:
  "codes r bs v \<Longrightarrow> codes (described d r) (DescriptorEncoding # marshalUlong d @ bs) v"
  using codesD [OF codes_descriptor, of d] by (simp add: codes_def described_def)

lemma codes_struct:
  assumes "canonical m" and "length (marshalMap (Some m)) < 4294967296"
  shows "codes (map_struct fmt) (marshalMap (Some m)) (Some m)"
proof (rule codesI)
  fix rest
  show "map_struct fmt (marshalMap (Some m) @ rest) = Got (Some m) rest"
    using codesD [OF codes_Map [OF assms], of fmt rest]
    by (auto simp: map_struct_def unmarshalFields_def with_constructor_def split: list.splits decoded.splits)
qed

text \<open>A described map that is null crashes the reader.\<close>

lemma null_annotations_crash: "DeliveryAnnotations_UnmarshalBuffer fmt [0, 0x53, 0x71, NullEncoding] = Crash"
  by (simp add: restricted described_def read_descriptor_def scalar_def with_constructor_def unmarshalUlong_def read8_def
      map_struct_def unmarshalMap.simps)

end
