(* ===== verification/Amqp_V1_Terminus.thy ===== *)
theory Amqp_V1_Terminus
  imports Amqp_V1_Restricted
begin

text \<open>
  The composite types of \<^verbatim>\<open>amqp1-0-0.go\<close> that occur inside frames: errors, delivery states and
  outcomes with their unions, sources, targets and lifetime policies. Each is a record, the items
  that its \<^verbatim>\<open>MarshalBuffer\<close> writes, the readers that its \<^verbatim>\<open>UnmarshalBuffer\<close> calls and the
  values it starts from, and an interpretation of \<open>composite_type\<close> for the values that are read
  back as they were.
\<close>

subsection \<open>Errors\<close>

record Error =
  Error_Condition :: "ErrorCondition option"
  Error_Description :: string
  Error_Info :: Fields

definition Error_items :: "Error \<Rightarrow> item list" where
  "Error_items t =
     [mandatory_some ErrorCondition_MarshalBuffer (Error_Condition t),
      present_if (Error_Description t \<noteq> []) (marshalString (Error_Description t)),
      present_some (\<lambda>m. Ret (Fields_MarshalBuffer m)) (Error_Info t)]"

definition Error_MarshalBuffer :: "Error \<Rightarrow> bytes outcome" where
  "Error_MarshalBuffer t = MarshalComposite 0x1d (Error_items t)"

definition Error_zero :: Error where
  "Error_zero = \<lparr>Error_Condition = None, Error_Description = [], Error_Info = None\<rparr>"

definition Error_readers :: "(gotime \<Rightarrow> string) \<Rightarrow> Error field_reader list" where
  "Error_readers fmt =
     [field (with_constructor unmarshalErrorCondition) Error_Condition_update,
      field (scalar unmarshalString) Error_Description_update,
      field (unmarshalFields fmt) Error_Info_update]"

definition Error_UnmarshalBuffer :: "(gotime \<Rightarrow> string) \<Rightarrow> bytes \<Rightarrow> Error decoded" where
  "Error_UnmarshalBuffer fmt = UnmarshalComposite 0x1d Error_zero (Error_readers fmt)"

definition valid_Error :: "Error \<Rightarrow> bool" where
  "valid_Error t \<longleftrightarrow>
     (case Error_Condition t of None \<Rightarrow> True | Some e \<Rightarrow> valid_condition e) \<and>
     valid_map (Error_Info t)"

interpretation Error_type: composite_type "0x1d" Error_items Error_zero "Error_readers fmt" valid_Error for fmt
proof unfold_locales
  show "valid_Error t \<Longrightarrow> fields_code t (Error_items t) (Error_readers fmt) Error_zero" for t
    unfolding Error_items_def Error_readers_def Error_zero_def restricted
    by (rule item_intros | (cases t; simp add: valid_Error_def absent_iff; fail)
      | (cases t; auto simp: valid_Error_def absent_iff split: option.splits; fail))+
qed (simp add: Error_items_def)

lemma Error_codes:
  "valid_Error t \<Longrightarrow> Error_MarshalBuffer t = Ret bs \<Longrightarrow> length bs < 4294967296 \<Longrightarrow> codes (Error_UnmarshalBuffer fmt) bs t"
  unfolding Error_MarshalBuffer_def Error_UnmarshalBuffer_def by (rule Error_type.round_trip)

lemma item_Error [item_intros]:
  "(case v of None \<Rightarrow> True | Some t \<Rightarrow> valid_Error t) \<Longrightarrow>
   item_codes (present_some Error_MarshalBuffer v) (field (nullable (Error_UnmarshalBuffer fmt)) upd s) (upd (\<lambda>_. v) s)"
  unfolding Error_MarshalBuffer_def Error_UnmarshalBuffer_def by (rule item_pointer [OF Error_type.composite_type_axioms])

subsection \<open>Delivery states and outcomes\<close>

record Received =
  Received_SectionNumber :: u32
  Received_SectionOffset :: u64

definition Received_items :: "Received \<Rightarrow> item list" where
  "Received_items t =
     [mandatory (marshalUint (Received_SectionNumber t)),
      mandatory (marshalUlong (Received_SectionOffset t))]"

definition Received_MarshalBuffer :: "Received \<Rightarrow> bytes outcome" where
  "Received_MarshalBuffer t = MarshalComposite 0x23 (Received_items t)"

definition Received_zero :: Received where
  "Received_zero = \<lparr>Received_SectionNumber = 0, Received_SectionOffset = 0\<rparr>"

definition Received_readers :: "Received field_reader list" where
  "Received_readers =
     [field (scalar unmarshalUint) Received_SectionNumber_update,
      field (scalar unmarshalUlong) Received_SectionOffset_update]"

definition Received_UnmarshalBuffer :: "bytes \<Rightarrow> Received decoded" where
  "Received_UnmarshalBuffer = UnmarshalComposite 0x23 Received_zero Received_readers"

definition valid_Received :: "Received \<Rightarrow> bool" where
  "valid_Received t \<longleftrightarrow>
     True"

interpretation Received_type: composite_type "0x23" Received_items Received_zero Received_readers valid_Received
proof unfold_locales
  show "valid_Received t \<Longrightarrow> fields_code t (Received_items t) Received_readers Received_zero" for t
    unfolding Received_items_def Received_readers_def Received_zero_def restricted
    by (rule item_intros | (cases t; simp add: valid_Received_def absent_iff; fail)
      | (cases t; auto simp: valid_Received_def absent_iff split: option.splits; fail))+
qed (simp add: Received_items_def)

lemma Received_codes:
  "valid_Received t \<Longrightarrow> Received_MarshalBuffer t = Ret bs \<Longrightarrow> length bs < 4294967296 \<Longrightarrow> codes Received_UnmarshalBuffer bs t"
  unfolding Received_MarshalBuffer_def Received_UnmarshalBuffer_def by (rule Received_type.round_trip)

definition Accepted_MarshalBuffer :: "bytes outcome" where
  "Accepted_MarshalBuffer = MarshalComposite 0x24 []"

definition Accepted_UnmarshalBuffer :: "bytes \<Rightarrow> unit decoded" where
  "Accepted_UnmarshalBuffer = UnmarshalComposite 0x24 () []"

record Rejected =
  Rejected_Error :: "Error option"

definition Rejected_items :: "Rejected \<Rightarrow> item list" where
  "Rejected_items t =
     [present_some Error_MarshalBuffer (Rejected_Error t)]"

definition Rejected_MarshalBuffer :: "Rejected \<Rightarrow> bytes outcome" where
  "Rejected_MarshalBuffer t = MarshalComposite 0x25 (Rejected_items t)"

definition Rejected_zero :: Rejected where
  "Rejected_zero = \<lparr>Rejected_Error = None\<rparr>"

definition Rejected_readers :: "(gotime \<Rightarrow> string) \<Rightarrow> Rejected field_reader list" where
  "Rejected_readers fmt =
     [field (nullable (Error_UnmarshalBuffer fmt)) Rejected_Error_update]"

definition Rejected_UnmarshalBuffer :: "(gotime \<Rightarrow> string) \<Rightarrow> bytes \<Rightarrow> Rejected decoded" where
  "Rejected_UnmarshalBuffer fmt = UnmarshalComposite 0x25 Rejected_zero (Rejected_readers fmt)"

definition valid_Rejected :: "Rejected \<Rightarrow> bool" where
  "valid_Rejected t \<longleftrightarrow>
     (case Rejected_Error t of None \<Rightarrow> True | Some e \<Rightarrow> valid_Error e)"

interpretation Rejected_type: composite_type "0x25" Rejected_items Rejected_zero "Rejected_readers fmt" valid_Rejected for fmt
proof unfold_locales
  show "valid_Rejected t \<Longrightarrow> fields_code t (Rejected_items t) (Rejected_readers fmt) Rejected_zero" for t
    unfolding Rejected_items_def Rejected_readers_def Rejected_zero_def restricted
    by (rule item_intros | (cases t; simp add: valid_Rejected_def absent_iff; fail)
      | (cases t; auto simp: valid_Rejected_def absent_iff split: option.splits; fail))+
qed (simp add: Rejected_items_def)

lemma Rejected_codes:
  "valid_Rejected t \<Longrightarrow> Rejected_MarshalBuffer t = Ret bs \<Longrightarrow> length bs < 4294967296 \<Longrightarrow> codes (Rejected_UnmarshalBuffer fmt) bs t"
  unfolding Rejected_MarshalBuffer_def Rejected_UnmarshalBuffer_def by (rule Rejected_type.round_trip)

definition Released_MarshalBuffer :: "bytes outcome" where
  "Released_MarshalBuffer = MarshalComposite 0x26 []"

definition Released_UnmarshalBuffer :: "bytes \<Rightarrow> unit decoded" where
  "Released_UnmarshalBuffer = UnmarshalComposite 0x26 () []"

record Modified =
  Modified_DeliveryFailed :: bool
  Modified_UndeliverableHere :: bool
  Modified_MessageAnnotations :: Fields

definition Modified_items :: "Modified \<Rightarrow> item list" where
  "Modified_items t =
     [present_if (Modified_DeliveryFailed t) (marshalBoolean (Modified_DeliveryFailed t)),
      present_if (Modified_UndeliverableHere t) (marshalBoolean (Modified_UndeliverableHere t)),
      present_some (\<lambda>m. Ret (Fields_MarshalBuffer m)) (Modified_MessageAnnotations t)]"

definition Modified_MarshalBuffer :: "Modified \<Rightarrow> bytes outcome" where
  "Modified_MarshalBuffer t = MarshalComposite 0x27 (Modified_items t)"

definition Modified_zero :: Modified where
  "Modified_zero = \<lparr>Modified_DeliveryFailed = False, Modified_UndeliverableHere = False, Modified_MessageAnnotations = None\<rparr>"

definition Modified_readers :: "(gotime \<Rightarrow> string) \<Rightarrow> Modified field_reader list" where
  "Modified_readers fmt =
     [field (scalar unmarshalBoolean) Modified_DeliveryFailed_update,
      field (scalar unmarshalBoolean) Modified_UndeliverableHere_update,
      field (unmarshalFields fmt) Modified_MessageAnnotations_update]"

definition Modified_UnmarshalBuffer :: "(gotime \<Rightarrow> string) \<Rightarrow> bytes \<Rightarrow> Modified decoded" where
  "Modified_UnmarshalBuffer fmt = UnmarshalComposite 0x27 Modified_zero (Modified_readers fmt)"

definition valid_Modified :: "Modified \<Rightarrow> bool" where
  "valid_Modified t \<longleftrightarrow>
     valid_map (Modified_MessageAnnotations t)"

interpretation Modified_type: composite_type "0x27" Modified_items Modified_zero "Modified_readers fmt" valid_Modified for fmt
proof unfold_locales
  show "valid_Modified t \<Longrightarrow> fields_code t (Modified_items t) (Modified_readers fmt) Modified_zero" for t
    unfolding Modified_items_def Modified_readers_def Modified_zero_def restricted
    by (rule item_intros | (cases t; simp add: valid_Modified_def absent_iff; fail)
      | (cases t; auto simp: valid_Modified_def absent_iff split: option.splits; fail))+
qed (simp add: Modified_items_def)

lemma Modified_codes:
  "valid_Modified t \<Longrightarrow> Modified_MarshalBuffer t = Ret bs \<Longrightarrow> length bs < 4294967296 \<Longrightarrow> codes (Modified_UnmarshalBuffer fmt) bs t"
  unfolding Modified_MarshalBuffer_def Modified_UnmarshalBuffer_def by (rule Modified_type.round_trip)

lemma codes_empty:
  "Accepted_MarshalBuffer = Ret bs \<Longrightarrow> length bs < 4294967296 \<Longrightarrow> codes Accepted_UnmarshalBuffer bs ()"
  "Released_MarshalBuffer = Ret bs \<Longrightarrow> length bs < 4294967296 \<Longrightarrow> codes Released_UnmarshalBuffer bs ()"
  unfolding Accepted_MarshalBuffer_def Accepted_UnmarshalBuffer_def Released_MarshalBuffer_def Released_UnmarshalBuffer_def
  by (rule composite_codes; simp)+

datatype DeliveryState =
    AcceptedState | ModifiedState Modified | ReceivedState Received | RejectedState Rejected | ReleasedState

datatype Outcome = AcceptedOutcome | ModifiedOutcome Modified | RejectedOutcome Rejected | ReleasedOutcome

fun marshalDeliveryStateUnion :: "DeliveryState \<Rightarrow> bytes outcome" where
  "marshalDeliveryStateUnion AcceptedState = Accepted_MarshalBuffer"
| "marshalDeliveryStateUnion (ModifiedState t) = Modified_MarshalBuffer t"
| "marshalDeliveryStateUnion (ReceivedState t) = Received_MarshalBuffer t"
| "marshalDeliveryStateUnion (RejectedState t) = Rejected_MarshalBuffer t"
| "marshalDeliveryStateUnion ReleasedState = Released_MarshalBuffer"

fun marshalOutcomeUnion :: "Outcome \<Rightarrow> bytes outcome" where
  "marshalOutcomeUnion AcceptedOutcome = Accepted_MarshalBuffer"
| "marshalOutcomeUnion (ModifiedOutcome t) = Modified_MarshalBuffer t"
| "marshalOutcomeUnion (RejectedOutcome t) = Rejected_MarshalBuffer t"
| "marshalOutcomeUnion ReleasedOutcome = Released_MarshalBuffer"

text \<open>The descriptor is read ahead, from a copy of the buffer. A null is not a descriptor.\<close>

definition peek_descriptor :: "bytes \<Rightarrow> u64 decoded" where
  "peek_descriptor buf =
     (case buf of [] \<Rightarrow> Wrong Underflow
      | c # rest \<Rightarrow> if c \<noteq> DescriptorEncoding then Wrong (UnexpectedConstructor c) else scalar unmarshalUlong rest)"

definition unmarshalDeliveryStateUnion :: "(gotime \<Rightarrow> string) \<Rightarrow> bytes \<Rightarrow> DeliveryState option decoded" where
  "unmarshalDeliveryStateUnion fmt buf =
     (case peek_descriptor buf of Crash \<Rightarrow> Crash | Wrong e \<Rightarrow> Wrong e
      | Got d _ \<Rightarrow>
        if d = 0x24 then map_decoded (\<lambda>_. Some AcceptedState) (Accepted_UnmarshalBuffer buf)
        else if d = 0x27 then map_decoded (\<lambda>t. Some (ModifiedState t)) (Modified_UnmarshalBuffer fmt buf)
        else if d = 0x23 then map_decoded (\<lambda>t. Some (ReceivedState t)) (Received_UnmarshalBuffer buf)
        else if d = 0x25 then map_decoded (\<lambda>t. Some (RejectedState t)) (Rejected_UnmarshalBuffer fmt buf)
        else if d = 0x26 then map_decoded (\<lambda>_. Some ReleasedState) (Released_UnmarshalBuffer buf)
        else Wrong UnhandledDescriptor)"

definition unmarshalOutcomeUnion :: "(gotime \<Rightarrow> string) \<Rightarrow> bytes \<Rightarrow> Outcome option decoded" where
  "unmarshalOutcomeUnion fmt buf =
     (case peek_descriptor buf of Crash \<Rightarrow> Crash | Wrong e \<Rightarrow> Wrong e
      | Got d _ \<Rightarrow>
        if d = 0x24 then map_decoded (\<lambda>_. Some AcceptedOutcome) (Accepted_UnmarshalBuffer buf)
        else if d = 0x27 then map_decoded (\<lambda>t. Some (ModifiedOutcome t)) (Modified_UnmarshalBuffer fmt buf)
        else if d = 0x25 then map_decoded (\<lambda>t. Some (RejectedOutcome t)) (Rejected_UnmarshalBuffer fmt buf)
        else if d = 0x26 then map_decoded (\<lambda>_. Some ReleasedOutcome) (Released_UnmarshalBuffer buf)
        else Wrong UnhandledDescriptor)"

fun valid_DeliveryState :: "DeliveryState \<Rightarrow> bool" where
  "valid_DeliveryState (ModifiedState t) = valid_Modified t"
| "valid_DeliveryState (RejectedState t) = valid_Rejected t"
| "valid_DeliveryState _ = True"

fun valid_Outcome :: "Outcome \<Rightarrow> bool" where
  "valid_Outcome (ModifiedOutcome t) = valid_Modified t"
| "valid_Outcome (RejectedOutcome t) = valid_Rejected t"
| "valid_Outcome _ = True"

lemma MarshalComposite_prefix:
  "MarshalComposite d items = Ret bs \<Longrightarrow> \<exists>b. bs = DescriptorEncoding # marshalUlong d @ b"
  by (auto simp: MarshalComposite_def Let_def split: if_splits)

lemma peek_composite:
  assumes "MarshalComposite d items = Ret bs"
  shows "\<exists>buf. peek_descriptor (bs @ rest) = Got d buf"
proof -
  obtain b where "bs = DescriptorEncoding # marshalUlong d @ b" using MarshalComposite_prefix [OF assms] by blast
  then show ?thesis using codesD [OF codes_scalar [OF reads_Ulong], of d "b @ rest"] by (simp add: peek_descriptor_def)
qed

lemmas state_writers = Accepted_MarshalBuffer_def Modified_MarshalBuffer_def Received_MarshalBuffer_def
  Rejected_MarshalBuffer_def Released_MarshalBuffer_def

lemma map_decoded_codes: "codes r bs v \<Longrightarrow> map_decoded f (r (bs @ rest)) = Got (f v) rest"
  by (simp add: codes_def)

lemma codes_DeliveryState:
  assumes "valid_DeliveryState x" and "marshalDeliveryStateUnion x = Ret bs" and "length bs < 4294967296"
  shows "codes (unmarshalDeliveryStateUnion fmt) bs (Some x)"
proof (rule codesI)
  fix rest
  show "unmarshalDeliveryStateUnion fmt (bs @ rest) = Got (Some x) rest"
  proof (cases x)
    case AcceptedState
    then show ?thesis
      using assms peek_composite [of "0x24" "[]" bs rest] map_decoded_codes [OF codes_empty(1), of bs]
      by (auto simp: unmarshalDeliveryStateUnion_def state_writers)
  next
    case (ModifiedState t)
    then show ?thesis
      using assms peek_composite [of "0x27" "Modified_items t" bs rest] map_decoded_codes [OF Modified_codes, of t bs]
      by (auto simp: unmarshalDeliveryStateUnion_def state_writers)
  next
    case (ReceivedState t)
    then show ?thesis
      using assms peek_composite [of "0x23" "Received_items t" bs rest] map_decoded_codes [OF Received_codes, of t bs]
      by (auto simp: unmarshalDeliveryStateUnion_def state_writers valid_Received_def)
  next
    case (RejectedState t)
    then show ?thesis
      using assms peek_composite [of "0x25" "Rejected_items t" bs rest] map_decoded_codes [OF Rejected_codes, of t bs]
      by (auto simp: unmarshalDeliveryStateUnion_def state_writers)
  next
    case ReleasedState
    then show ?thesis
      using assms peek_composite [of "0x26" "[]" bs rest] map_decoded_codes [OF codes_empty(2), of bs]
      by (auto simp: unmarshalDeliveryStateUnion_def state_writers)
  qed
qed

lemma codes_Outcome:
  assumes "valid_Outcome x" and "marshalOutcomeUnion x = Ret bs" and "length bs < 4294967296"
  shows "codes (unmarshalOutcomeUnion fmt) bs (Some x)"
proof (rule codesI)
  fix rest
  show "unmarshalOutcomeUnion fmt (bs @ rest) = Got (Some x) rest"
  proof (cases x)
    case AcceptedOutcome
    then show ?thesis
      using assms peek_composite [of "0x24" "[]" bs rest] map_decoded_codes [OF codes_empty(1), of bs]
      by (auto simp: unmarshalOutcomeUnion_def state_writers)
  next
    case (ModifiedOutcome t)
    then show ?thesis
      using assms peek_composite [of "0x27" "Modified_items t" bs rest] map_decoded_codes [OF Modified_codes, of t bs]
      by (auto simp: unmarshalOutcomeUnion_def state_writers)
  next
    case (RejectedOutcome t)
    then show ?thesis
      using assms peek_composite [of "0x25" "Rejected_items t" bs rest] map_decoded_codes [OF Rejected_codes, of t bs]
      by (auto simp: unmarshalOutcomeUnion_def state_writers)
  next
    case ReleasedOutcome
    then show ?thesis
      using assms peek_composite [of "0x26" "[]" bs rest] map_decoded_codes [OF codes_empty(2), of bs]
      by (auto simp: unmarshalOutcomeUnion_def state_writers)
  qed
qed

text \<open>A union that is absent cannot be read as null: its item is only read back where it is present.\<close>

lemma union_of_nothing: "unmarshalDeliveryStateUnion fmt [] \<noteq> Got v []" "unmarshalOutcomeUnion fmt [] \<noteq> Got w []"
  by (simp_all add: unmarshalDeliveryStateUnion_def unmarshalOutcomeUnion_def peek_descriptor_def)

lemma item_DeliveryState [item_intros]:
  "(case v of None \<Rightarrow> False | Some x \<Rightarrow> valid_DeliveryState x) \<Longrightarrow>
   item_codes (present_some marshalDeliveryStateUnion v) (field (unmarshalDeliveryStateUnion fmt) upd s) (upd (\<lambda>_. v) s)"
  by (rule item_present_some) (auto simp: codes_DeliveryState union_of_nothing split: option.splits)

lemma item_Outcome [item_intros]:
  "(case v of None \<Rightarrow> False | Some x \<Rightarrow> valid_Outcome x) \<Longrightarrow>
   item_codes (present_some marshalOutcomeUnion v) (field (unmarshalOutcomeUnion fmt) upd s) (upd (\<lambda>_. v) s)"
  by (rule item_present_some) (auto simp: codes_Outcome union_of_nothing split: option.splits)

subsection \<open>Sources and targets\<close>

record Source =
  Source_Address :: "Address option"
  Source_Durable :: u32
  Source_ExpiryPolicy :: string
  Source_Timeout :: u32
  Source_Dynamic :: bool
  Source_DynamicNodeProperties :: Fields
  Source_DistributionMode :: string
  Source_Filter :: Fields
  Source_DefaultOutcome :: "Outcome option"
  Source_Outcomes :: "string list option"
  Source_Capabilities :: "string list option"

definition Source_items :: "Source \<Rightarrow> item list" where
  "Source_items t =
     [present_some (\<lambda>x. Ret (Address_bytes x)) (Source_Address t),
      present_if (Source_Durable t \<noteq> 0) (TerminusDurability_MarshalBuffer (Source_Durable t)),
      present_if (Source_ExpiryPolicy t \<noteq> []) (TerminusExpiryPolicy_MarshalBuffer (Source_ExpiryPolicy t)),
      present_if (Source_Timeout t \<noteq> 0) (Seconds_MarshalBuffer (Source_Timeout t)),
      present_if (Source_Dynamic t) (marshalBoolean (Source_Dynamic t)),
      present_some (\<lambda>m. Ret (NodeProperties_MarshalBuffer m)) (Source_DynamicNodeProperties t),
      present_if (Source_DistributionMode t \<noteq> []) (marshalSymbol (Source_DistributionMode t)),
      present_some (\<lambda>m. Ret (FilterSet_MarshalBuffer m)) (Source_Filter t),
      present_some marshalOutcomeUnion (Source_DefaultOutcome t),
      present_if (nonempty (Source_Outcomes t)) (marshalSymbolArray (Source_Outcomes t)),
      present_if (nonempty (Source_Capabilities t)) (marshalSymbolArray (Source_Capabilities t))]"

definition Source_MarshalBuffer :: "Source \<Rightarrow> bytes outcome" where
  "Source_MarshalBuffer t = MarshalComposite 0x28 (Source_items t)"

definition Source_zero :: Source where
  "Source_zero = \<lparr>Source_Address = None, Source_Durable = 0, Source_ExpiryPolicy = [], Source_Timeout = 0, Source_Dynamic = False, Source_DynamicNodeProperties = None, Source_DistributionMode = [], Source_Filter = None, Source_DefaultOutcome = None, Source_Outcomes = None, Source_Capabilities = None\<rparr>"

definition Source_readers :: "(gotime \<Rightarrow> string) \<Rightarrow> Source field_reader list" where
  "Source_readers fmt =
     [field (unmarshalAddressUnion) Source_Address_update,
      field (TerminusDurability_UnmarshalBuffer) Source_Durable_update,
      field (TerminusExpiryPolicy_UnmarshalBuffer) Source_ExpiryPolicy_update,
      field (Seconds_UnmarshalBuffer) Source_Timeout_update,
      field (scalar unmarshalBoolean) Source_Dynamic_update,
      field (unmarshalFields fmt) Source_DynamicNodeProperties_update,
      field (scalar unmarshalSymbol) Source_DistributionMode_update,
      field (unmarshalFields fmt) Source_Filter_update,
      field (unmarshalOutcomeUnion fmt) Source_DefaultOutcome_update,
      field (with_constructor unmarshalSymbolArray) Source_Outcomes_update,
      field (with_constructor unmarshalSymbolArray) Source_Capabilities_update]"

definition Source_UnmarshalBuffer :: "(gotime \<Rightarrow> string) \<Rightarrow> bytes \<Rightarrow> Source decoded" where
  "Source_UnmarshalBuffer fmt = UnmarshalComposite 0x28 Source_zero (Source_readers fmt)"

definition valid_Source :: "Source \<Rightarrow> bool" where
  "valid_Source t \<longleftrightarrow>
     length (Source_ExpiryPolicy t) \<le> 255 \<and>
     valid_map (Source_DynamicNodeProperties t) \<and>
     length (Source_DistributionMode t) \<le> 255 \<and>
     valid_map (Source_Filter t) \<and>
     (case Source_DefaultOutcome t of None \<Rightarrow> Source_Outcomes t = None \<and> Source_Capabilities t = None | Some e \<Rightarrow> valid_Outcome e) \<and>
     Source_Outcomes t \<noteq> Some [] \<and>
     Source_Capabilities t \<noteq> Some []"

interpretation Source_type: composite_type "0x28" Source_items Source_zero "Source_readers fmt" valid_Source for fmt
proof unfold_locales
  show "valid_Source t \<Longrightarrow> fields_code t (Source_items t) (Source_readers fmt) Source_zero" for t
    unfolding Source_items_def Source_readers_def Source_zero_def restricted
    by (rule item_intros | (cases t; simp add: valid_Source_def absent_iff; fail)
      | (cases t; auto simp: valid_Source_def absent_iff split: option.splits; fail))+
qed (simp add: Source_items_def)

lemma Source_codes:
  "valid_Source t \<Longrightarrow> Source_MarshalBuffer t = Ret bs \<Longrightarrow> length bs < 4294967296 \<Longrightarrow> codes (Source_UnmarshalBuffer fmt) bs t"
  unfolding Source_MarshalBuffer_def Source_UnmarshalBuffer_def by (rule Source_type.round_trip)

lemma item_Source [item_intros]:
  "(case v of None \<Rightarrow> True | Some t \<Rightarrow> valid_Source t) \<Longrightarrow>
   item_codes (present_some Source_MarshalBuffer v) (field (nullable (Source_UnmarshalBuffer fmt)) upd s) (upd (\<lambda>_. v) s)"
  unfolding Source_MarshalBuffer_def Source_UnmarshalBuffer_def by (rule item_pointer [OF Source_type.composite_type_axioms])

record Target =
  Target_Address :: "Address option"
  Target_Durable :: u32
  Target_ExpiryPolicy :: string
  Target_Timeout :: u32
  Target_Dynamic :: bool
  Target_DynamicNodeProperties :: Fields
  Target_Capabilities :: "string list option"

definition Target_items :: "Target \<Rightarrow> item list" where
  "Target_items t =
     [present_some (\<lambda>x. Ret (Address_bytes x)) (Target_Address t),
      present_if (Target_Durable t \<noteq> 0) (TerminusDurability_MarshalBuffer (Target_Durable t)),
      present_if (Target_ExpiryPolicy t \<noteq> []) (TerminusExpiryPolicy_MarshalBuffer (Target_ExpiryPolicy t)),
      present_if (Target_Timeout t \<noteq> 0) (Seconds_MarshalBuffer (Target_Timeout t)),
      present_if (Target_Dynamic t) (marshalBoolean (Target_Dynamic t)),
      present_some (\<lambda>m. Ret (NodeProperties_MarshalBuffer m)) (Target_DynamicNodeProperties t),
      present_if (nonempty (Target_Capabilities t)) (marshalSymbolArray (Target_Capabilities t))]"

definition Target_MarshalBuffer :: "Target \<Rightarrow> bytes outcome" where
  "Target_MarshalBuffer t = MarshalComposite 0x29 (Target_items t)"

definition Target_zero :: Target where
  "Target_zero = \<lparr>Target_Address = None, Target_Durable = 0, Target_ExpiryPolicy = [], Target_Timeout = 0, Target_Dynamic = False, Target_DynamicNodeProperties = None, Target_Capabilities = None\<rparr>"

definition Target_readers :: "(gotime \<Rightarrow> string) \<Rightarrow> Target field_reader list" where
  "Target_readers fmt =
     [field (unmarshalAddressUnion) Target_Address_update,
      field (TerminusDurability_UnmarshalBuffer) Target_Durable_update,
      field (TerminusExpiryPolicy_UnmarshalBuffer) Target_ExpiryPolicy_update,
      field (Seconds_UnmarshalBuffer) Target_Timeout_update,
      field (scalar unmarshalBoolean) Target_Dynamic_update,
      field (unmarshalFields fmt) Target_DynamicNodeProperties_update,
      field (with_constructor unmarshalSymbolArray) Target_Capabilities_update]"

definition Target_UnmarshalBuffer :: "(gotime \<Rightarrow> string) \<Rightarrow> bytes \<Rightarrow> Target decoded" where
  "Target_UnmarshalBuffer fmt = UnmarshalComposite 0x29 Target_zero (Target_readers fmt)"

definition valid_Target :: "Target \<Rightarrow> bool" where
  "valid_Target t \<longleftrightarrow>
     length (Target_ExpiryPolicy t) \<le> 255 \<and>
     valid_map (Target_DynamicNodeProperties t) \<and>
     Target_Capabilities t \<noteq> Some []"

interpretation Target_type: composite_type "0x29" Target_items Target_zero "Target_readers fmt" valid_Target for fmt
proof unfold_locales
  show "valid_Target t \<Longrightarrow> fields_code t (Target_items t) (Target_readers fmt) Target_zero" for t
    unfolding Target_items_def Target_readers_def Target_zero_def restricted
    by (rule item_intros | (cases t; simp add: valid_Target_def absent_iff; fail)
      | (cases t; auto simp: valid_Target_def absent_iff split: option.splits; fail))+
qed (simp add: Target_items_def)

lemma Target_codes:
  "valid_Target t \<Longrightarrow> Target_MarshalBuffer t = Ret bs \<Longrightarrow> length bs < 4294967296 \<Longrightarrow> codes (Target_UnmarshalBuffer fmt) bs t"
  unfolding Target_MarshalBuffer_def Target_UnmarshalBuffer_def by (rule Target_type.round_trip)

lemma item_Target [item_intros]:
  "(case v of None \<Rightarrow> True | Some t \<Rightarrow> valid_Target t) \<Longrightarrow>
   item_codes (present_some Target_MarshalBuffer v) (field (nullable (Target_UnmarshalBuffer fmt)) upd s) (upd (\<lambda>_. v) s)"
  unfolding Target_MarshalBuffer_def Target_UnmarshalBuffer_def by (rule item_pointer [OF Target_type.composite_type_axioms])

definition DeleteOnClose_MarshalBuffer :: "bytes outcome" where
  "DeleteOnClose_MarshalBuffer = MarshalComposite 0x2b []"

definition DeleteOnClose_UnmarshalBuffer :: "bytes \<Rightarrow> unit decoded" where
  "DeleteOnClose_UnmarshalBuffer = UnmarshalComposite 0x2b () []"

definition DeleteOnNoLinks_MarshalBuffer :: "bytes outcome" where
  "DeleteOnNoLinks_MarshalBuffer = MarshalComposite 0x2c []"

definition DeleteOnNoLinks_UnmarshalBuffer :: "bytes \<Rightarrow> unit decoded" where
  "DeleteOnNoLinks_UnmarshalBuffer = UnmarshalComposite 0x2c () []"

definition DeleteOnNoMessages_MarshalBuffer :: "bytes outcome" where
  "DeleteOnNoMessages_MarshalBuffer = MarshalComposite 0x2d []"

definition DeleteOnNoMessages_UnmarshalBuffer :: "bytes \<Rightarrow> unit decoded" where
  "DeleteOnNoMessages_UnmarshalBuffer = UnmarshalComposite 0x2d () []"

definition DeleteOnNoLinksOrMessages_MarshalBuffer :: "bytes outcome" where
  "DeleteOnNoLinksOrMessages_MarshalBuffer = MarshalComposite 0x2e []"

definition DeleteOnNoLinksOrMessages_UnmarshalBuffer :: "bytes \<Rightarrow> unit decoded" where
  "DeleteOnNoLinksOrMessages_UnmarshalBuffer = UnmarshalComposite 0x2e () []"

end
