(* ===== verification/Amqp_V1_Performatives.thy ===== *)
theory Amqp_V1_Performatives
  imports Amqp_V1_Terminus
begin

text \<open>
  The frame bodies of \<^verbatim>\<open>amqp1-0-0.go\<close>: the performatives of connections, sessions and links,
  and the SASL frames. The \<^verbatim>\<open>FrameMeta\<close> of a frame is the transport's; writing and reading a
  body does not touch it.
\<close>

subsection \<open>Performatives\<close>

record Open =
  Open_ContainerID :: string
  Open_Hostname :: string
  Open_MaxFrameSize :: u32
  Open_ChannelMax :: u16
  Open_IdleTimeOut :: u32
  Open_OutgoingLocales :: "string list option"
  Open_IncomingLocales :: "string list option"
  Open_OfferedCapabilities :: "string list option"
  Open_DesiredCapabilities :: "string list option"
  Open_Properties :: Fields

definition Open_items :: "Open \<Rightarrow> item list" where
  "Open_items t =
     [mandatory (marshalString (Open_ContainerID t)),
      present_if (Open_Hostname t \<noteq> []) (marshalString (Open_Hostname t)),
      present_if (Open_MaxFrameSize t \<noteq> 0) (marshalUint (Open_MaxFrameSize t)),
      present_if (Open_ChannelMax t \<noteq> 0) (marshalUshort (Open_ChannelMax t)),
      present_if (Open_IdleTimeOut t \<noteq> 0) (Milliseconds_MarshalBuffer (Open_IdleTimeOut t)),
      present_if (nonempty (Open_OutgoingLocales t)) (marshalIETFLanguageTagArray (Open_OutgoingLocales t)),
      present_if (nonempty (Open_IncomingLocales t)) (marshalIETFLanguageTagArray (Open_IncomingLocales t)),
      present_if (nonempty (Open_OfferedCapabilities t)) (marshalSymbolArray (Open_OfferedCapabilities t)),
      present_if (nonempty (Open_DesiredCapabilities t)) (marshalSymbolArray (Open_DesiredCapabilities t)),
      present_some (\<lambda>m. Ret (Fields_MarshalBuffer m)) (Open_Properties t)]"

definition Open_MarshalBuffer :: "Open \<Rightarrow> bytes outcome" where
  "Open_MarshalBuffer t = MarshalComposite 0x10 (Open_items t)"

definition Open_zero :: Open where
  "Open_zero = \<lparr>Open_ContainerID = [], Open_Hostname = [], Open_MaxFrameSize = 0, Open_ChannelMax = 0, Open_IdleTimeOut = 0, Open_OutgoingLocales = None, Open_IncomingLocales = None, Open_OfferedCapabilities = None, Open_DesiredCapabilities = None, Open_Properties = None\<rparr>"

definition Open_readers :: "(gotime \<Rightarrow> string) \<Rightarrow> Open field_reader list" where
  "Open_readers fmt =
     [field (scalar unmarshalString) Open_ContainerID_update,
      field (scalar unmarshalString) Open_Hostname_update,
      field (scalar unmarshalUint) Open_MaxFrameSize_update,
      field (scalar unmarshalUshort) Open_ChannelMax_update,
      field (Milliseconds_UnmarshalBuffer) Open_IdleTimeOut_update,
      field (with_constructor unmarshalIETFLanguageTagArray) Open_OutgoingLocales_update,
      field (with_constructor unmarshalIETFLanguageTagArray) Open_IncomingLocales_update,
      field (with_constructor unmarshalSymbolArray) Open_OfferedCapabilities_update,
      field (with_constructor unmarshalSymbolArray) Open_DesiredCapabilities_update,
      field (unmarshalFields fmt) Open_Properties_update]"

definition Open_UnmarshalBuffer :: "(gotime \<Rightarrow> string) \<Rightarrow> bytes \<Rightarrow> Open decoded" where
  "Open_UnmarshalBuffer fmt = UnmarshalComposite 0x10 Open_zero (Open_readers fmt)"

definition valid_Open :: "Open \<Rightarrow> bool" where
  "valid_Open t \<longleftrightarrow>
     Open_OutgoingLocales t \<noteq> Some [] \<and>
     Open_IncomingLocales t \<noteq> Some [] \<and>
     Open_OfferedCapabilities t \<noteq> Some [] \<and>
     Open_DesiredCapabilities t \<noteq> Some [] \<and>
     valid_map (Open_Properties t)"

interpretation Open_type: composite_type "0x10" Open_items Open_zero "Open_readers fmt" valid_Open for fmt
proof unfold_locales
  show "valid_Open t \<Longrightarrow> fields_code t (Open_items t) (Open_readers fmt) Open_zero" for t
    unfolding Open_items_def Open_readers_def Open_zero_def restricted
    by (rule item_intros | (cases t; simp add: valid_Open_def absent_iff; fail)
      | (cases t; auto simp: valid_Open_def absent_iff split: option.splits; fail))+
qed (simp add: Open_items_def)

lemma Open_codes:
  "valid_Open t \<Longrightarrow> Open_MarshalBuffer t = Ret bs \<Longrightarrow> length bs < 4294967296 \<Longrightarrow> codes (Open_UnmarshalBuffer fmt) bs t"
  unfolding Open_MarshalBuffer_def Open_UnmarshalBuffer_def by (rule Open_type.round_trip)

record Begin =
  Begin_RemoteChannel :: u16
  Begin_NextOutgoingID :: u32
  Begin_IncomingWindow :: u32
  Begin_OutgoingWindow :: u32
  Begin_HandleMax :: u32
  Begin_OfferedCapabilities :: "string list option"
  Begin_DesiredCapabilities :: "string list option"
  Begin_Properties :: Fields

definition Begin_items :: "Begin \<Rightarrow> item list" where
  "Begin_items t =
     [present_if (Begin_RemoteChannel t \<noteq> RemoteChannelNull) (marshalUshort (Begin_RemoteChannel t)),
      mandatory (TransferNumber_MarshalBuffer (Begin_NextOutgoingID t)),
      mandatory (marshalUint (Begin_IncomingWindow t)),
      mandatory (marshalUint (Begin_OutgoingWindow t)),
      present_if (Begin_HandleMax t \<noteq> HandleNull) (Handle_MarshalBuffer (Begin_HandleMax t)),
      present_if (nonempty (Begin_OfferedCapabilities t)) (marshalSymbolArray (Begin_OfferedCapabilities t)),
      present_if (nonempty (Begin_DesiredCapabilities t)) (marshalSymbolArray (Begin_DesiredCapabilities t)),
      present_some (\<lambda>m. Ret (Fields_MarshalBuffer m)) (Begin_Properties t)]"

definition Begin_MarshalBuffer :: "Begin \<Rightarrow> bytes outcome" where
  "Begin_MarshalBuffer t = MarshalComposite 0x11 (Begin_items t)"

definition Begin_zero :: Begin where
  "Begin_zero = \<lparr>Begin_RemoteChannel = RemoteChannelNull, Begin_NextOutgoingID = TransferNumberNull, Begin_IncomingWindow = 0, Begin_OutgoingWindow = 0, Begin_HandleMax = HandleNull, Begin_OfferedCapabilities = None, Begin_DesiredCapabilities = None, Begin_Properties = None\<rparr>"

definition Begin_readers :: "(gotime \<Rightarrow> string) \<Rightarrow> Begin field_reader list" where
  "Begin_readers fmt =
     [field (null_or RemoteChannelNull unmarshalUshort) Begin_RemoteChannel_update,
      field (TransferNumber_UnmarshalBuffer) Begin_NextOutgoingID_update,
      field (scalar unmarshalUint) Begin_IncomingWindow_update,
      field (scalar unmarshalUint) Begin_OutgoingWindow_update,
      field (Handle_UnmarshalBuffer) Begin_HandleMax_update,
      field (with_constructor unmarshalSymbolArray) Begin_OfferedCapabilities_update,
      field (with_constructor unmarshalSymbolArray) Begin_DesiredCapabilities_update,
      field (unmarshalFields fmt) Begin_Properties_update]"

definition Begin_UnmarshalBuffer :: "(gotime \<Rightarrow> string) \<Rightarrow> bytes \<Rightarrow> Begin decoded" where
  "Begin_UnmarshalBuffer fmt = UnmarshalComposite 0x11 Begin_zero (Begin_readers fmt)"

definition valid_Begin :: "Begin \<Rightarrow> bool" where
  "valid_Begin t \<longleftrightarrow>
     Begin_OfferedCapabilities t \<noteq> Some [] \<and>
     Begin_DesiredCapabilities t \<noteq> Some [] \<and>
     valid_map (Begin_Properties t)"

interpretation Begin_type: composite_type "0x11" Begin_items Begin_zero "Begin_readers fmt" valid_Begin for fmt
proof unfold_locales
  show "valid_Begin t \<Longrightarrow> fields_code t (Begin_items t) (Begin_readers fmt) Begin_zero" for t
    unfolding Begin_items_def Begin_readers_def Begin_zero_def restricted
    by (rule item_intros | (cases t; simp add: valid_Begin_def absent_iff; fail)
      | (cases t; auto simp: valid_Begin_def absent_iff split: option.splits; fail))+
qed (simp add: Begin_items_def)

lemma Begin_codes:
  "valid_Begin t \<Longrightarrow> Begin_MarshalBuffer t = Ret bs \<Longrightarrow> length bs < 4294967296 \<Longrightarrow> codes (Begin_UnmarshalBuffer fmt) bs t"
  unfolding Begin_MarshalBuffer_def Begin_UnmarshalBuffer_def by (rule Begin_type.round_trip)

record Attach =
  Attach_Name :: string
  Attach_Handle :: u32
  Attach_Role :: bool
  Attach_SndSettleMode :: u8
  Attach_RcvSettleMode :: u8
  Attach_Source :: "Source option"
  Attach_Target :: "Target option"
  Attach_Unsettled :: Fields
  Attach_IncompleteUnsettled :: bool
  Attach_InitialDeliveryCount :: u32
  Attach_MaxMessageSize :: u64
  Attach_OfferedCapabilities :: "string list option"
  Attach_DesiredCapabilities :: "string list option"
  Attach_Properties :: Fields

definition Attach_items :: "Attach \<Rightarrow> item list" where
  "Attach_items t =
     [mandatory (marshalString (Attach_Name t)),
      mandatory (Handle_MarshalBuffer (Attach_Handle t)),
      mandatory (Role_MarshalBuffer (Attach_Role t)),
      present_if (Attach_SndSettleMode t \<noteq> SenderSettleModeNull) (SenderSettleMode_MarshalBuffer (Attach_SndSettleMode t)),
      present_if (Attach_RcvSettleMode t \<noteq> ReceiverSettleModeNull) (ReceiverSettleMode_MarshalBuffer (Attach_RcvSettleMode t)),
      present_some Source_MarshalBuffer (Attach_Source t),
      present_some Target_MarshalBuffer (Attach_Target t),
      present_some (\<lambda>m. Ret (marshalMap m)) (Attach_Unsettled t),
      present_if (Attach_IncompleteUnsettled t) (marshalBoolean (Attach_IncompleteUnsettled t)),
      present_if (Attach_InitialDeliveryCount t \<noteq> 0) (SequenceNo_MarshalBuffer (Attach_InitialDeliveryCount t)),
      present_if (Attach_MaxMessageSize t \<noteq> 0) (marshalUlong (Attach_MaxMessageSize t)),
      present_if (nonempty (Attach_OfferedCapabilities t)) (marshalSymbolArray (Attach_OfferedCapabilities t)),
      present_if (nonempty (Attach_DesiredCapabilities t)) (marshalSymbolArray (Attach_DesiredCapabilities t)),
      present_some (\<lambda>m. Ret (Fields_MarshalBuffer m)) (Attach_Properties t)]"

definition Attach_MarshalBuffer :: "Attach \<Rightarrow> bytes outcome" where
  "Attach_MarshalBuffer t = MarshalComposite 0x12 (Attach_items t)"

definition Attach_zero :: Attach where
  "Attach_zero = \<lparr>Attach_Name = [], Attach_Handle = HandleNull, Attach_Role = False, Attach_SndSettleMode = SenderSettleModeNull, Attach_RcvSettleMode = ReceiverSettleModeNull, Attach_Source = None, Attach_Target = None, Attach_Unsettled = None, Attach_IncompleteUnsettled = False, Attach_InitialDeliveryCount = 0, Attach_MaxMessageSize = 0, Attach_OfferedCapabilities = None, Attach_DesiredCapabilities = None, Attach_Properties = None\<rparr>"

definition Attach_readers :: "(gotime \<Rightarrow> string) \<Rightarrow> Attach field_reader list" where
  "Attach_readers fmt =
     [field (scalar unmarshalString) Attach_Name_update,
      field (Handle_UnmarshalBuffer) Attach_Handle_update,
      field (Role_UnmarshalBuffer) Attach_Role_update,
      field (SenderSettleMode_UnmarshalBuffer) Attach_SndSettleMode_update,
      field (ReceiverSettleMode_UnmarshalBuffer) Attach_RcvSettleMode_update,
      field (nullable (Source_UnmarshalBuffer fmt)) Attach_Source_update,
      field (nullable (Target_UnmarshalBuffer fmt)) Attach_Target_update,
      field (unmarshalFields fmt) Attach_Unsettled_update,
      field (scalar unmarshalBoolean) Attach_IncompleteUnsettled_update,
      field (SequenceNo_UnmarshalBuffer) Attach_InitialDeliveryCount_update,
      field (scalar unmarshalUlong) Attach_MaxMessageSize_update,
      field (with_constructor unmarshalSymbolArray) Attach_OfferedCapabilities_update,
      field (with_constructor unmarshalSymbolArray) Attach_DesiredCapabilities_update,
      field (unmarshalFields fmt) Attach_Properties_update]"

definition Attach_UnmarshalBuffer :: "(gotime \<Rightarrow> string) \<Rightarrow> bytes \<Rightarrow> Attach decoded" where
  "Attach_UnmarshalBuffer fmt = UnmarshalComposite 0x12 Attach_zero (Attach_readers fmt)"

definition valid_Attach :: "Attach \<Rightarrow> bool" where
  "valid_Attach t \<longleftrightarrow>
     (case Attach_Source t of None \<Rightarrow> True | Some e \<Rightarrow> valid_Source e) \<and>
     (case Attach_Target t of None \<Rightarrow> True | Some e \<Rightarrow> valid_Target e) \<and>
     valid_map (Attach_Unsettled t) \<and>
     Attach_OfferedCapabilities t \<noteq> Some [] \<and>
     Attach_DesiredCapabilities t \<noteq> Some [] \<and>
     valid_map (Attach_Properties t)"

interpretation Attach_type: composite_type "0x12" Attach_items Attach_zero "Attach_readers fmt" valid_Attach for fmt
proof unfold_locales
  show "valid_Attach t \<Longrightarrow> fields_code t (Attach_items t) (Attach_readers fmt) Attach_zero" for t
    unfolding Attach_items_def Attach_readers_def Attach_zero_def restricted
    by (rule item_intros | (cases t; simp add: valid_Attach_def absent_iff; fail)
      | (cases t; auto simp: valid_Attach_def absent_iff split: option.splits; fail))+
qed (simp add: Attach_items_def)

lemma Attach_codes:
  "valid_Attach t \<Longrightarrow> Attach_MarshalBuffer t = Ret bs \<Longrightarrow> length bs < 4294967296 \<Longrightarrow> codes (Attach_UnmarshalBuffer fmt) bs t"
  unfolding Attach_MarshalBuffer_def Attach_UnmarshalBuffer_def by (rule Attach_type.round_trip)

record Flow =
  Flow_NextIncomingID :: u32
  Flow_IncomingWindow :: u32
  Flow_NextOutgoingID :: u32
  Flow_OutgoingWindow :: u32
  Flow_Handle :: u32
  Flow_DeliveryCount :: u32
  Flow_LinkCredit :: u32
  Flow_Available :: u32
  Flow_Drain :: bool
  Flow_Echo :: bool
  Flow_Properties :: Fields

definition Flow_items :: "Flow \<Rightarrow> item list" where
  "Flow_items t =
     [present_if (Flow_NextIncomingID t \<noteq> TransferNumberNull) (TransferNumber_MarshalBuffer (Flow_NextIncomingID t)),
      mandatory (marshalUint (Flow_IncomingWindow t)),
      mandatory (TransferNumber_MarshalBuffer (Flow_NextOutgoingID t)),
      mandatory (marshalUint (Flow_OutgoingWindow t)),
      present_if (Flow_Handle t \<noteq> HandleNull) (Handle_MarshalBuffer (Flow_Handle t)),
      present_if (Flow_DeliveryCount t \<noteq> 0) (SequenceNo_MarshalBuffer (Flow_DeliveryCount t)),
      present_if (Flow_LinkCredit t \<noteq> 0) (marshalUint (Flow_LinkCredit t)),
      present_if (Flow_Available t \<noteq> 0) (marshalUint (Flow_Available t)),
      present_if (Flow_Drain t) (marshalBoolean (Flow_Drain t)),
      present_if (Flow_Echo t) (marshalBoolean (Flow_Echo t)),
      present_some (\<lambda>m. Ret (Fields_MarshalBuffer m)) (Flow_Properties t)]"

definition Flow_MarshalBuffer :: "Flow \<Rightarrow> bytes outcome" where
  "Flow_MarshalBuffer t = MarshalComposite 0x13 (Flow_items t)"

definition Flow_zero :: Flow where
  "Flow_zero = \<lparr>Flow_NextIncomingID = TransferNumberNull, Flow_IncomingWindow = 0, Flow_NextOutgoingID = TransferNumberNull, Flow_OutgoingWindow = 0, Flow_Handle = HandleNull, Flow_DeliveryCount = 0, Flow_LinkCredit = 0, Flow_Available = 0, Flow_Drain = False, Flow_Echo = False, Flow_Properties = None\<rparr>"

definition Flow_readers :: "(gotime \<Rightarrow> string) \<Rightarrow> Flow field_reader list" where
  "Flow_readers fmt =
     [field (TransferNumber_UnmarshalBuffer) Flow_NextIncomingID_update,
      field (scalar unmarshalUint) Flow_IncomingWindow_update,
      field (TransferNumber_UnmarshalBuffer) Flow_NextOutgoingID_update,
      field (scalar unmarshalUint) Flow_OutgoingWindow_update,
      field (Handle_UnmarshalBuffer) Flow_Handle_update,
      field (SequenceNo_UnmarshalBuffer) Flow_DeliveryCount_update,
      field (scalar unmarshalUint) Flow_LinkCredit_update,
      field (scalar unmarshalUint) Flow_Available_update,
      field (scalar unmarshalBoolean) Flow_Drain_update,
      field (scalar unmarshalBoolean) Flow_Echo_update,
      field (unmarshalFields fmt) Flow_Properties_update]"

definition Flow_UnmarshalBuffer :: "(gotime \<Rightarrow> string) \<Rightarrow> bytes \<Rightarrow> Flow decoded" where
  "Flow_UnmarshalBuffer fmt = UnmarshalComposite 0x13 Flow_zero (Flow_readers fmt)"

definition valid_Flow :: "Flow \<Rightarrow> bool" where
  "valid_Flow t \<longleftrightarrow>
     valid_map (Flow_Properties t)"

interpretation Flow_type: composite_type "0x13" Flow_items Flow_zero "Flow_readers fmt" valid_Flow for fmt
proof unfold_locales
  show "valid_Flow t \<Longrightarrow> fields_code t (Flow_items t) (Flow_readers fmt) Flow_zero" for t
    unfolding Flow_items_def Flow_readers_def Flow_zero_def restricted
    by (rule item_intros | (cases t; simp add: valid_Flow_def absent_iff; fail)
      | (cases t; auto simp: valid_Flow_def absent_iff split: option.splits; fail))+
qed (simp add: Flow_items_def)

lemma Flow_codes:
  "valid_Flow t \<Longrightarrow> Flow_MarshalBuffer t = Ret bs \<Longrightarrow> length bs < 4294967296 \<Longrightarrow> codes (Flow_UnmarshalBuffer fmt) bs t"
  unfolding Flow_MarshalBuffer_def Flow_UnmarshalBuffer_def by (rule Flow_type.round_trip)

record Transfer =
  Transfer_Handle :: u32
  Transfer_DeliveryID :: u32
  Transfer_DeliveryTag :: "bytes option"
  Transfer_MessageFormat :: u32
  Transfer_Settled :: bool
  Transfer_More :: bool
  Transfer_RcvSettleMode :: u8
  Transfer_State :: "DeliveryState option"
  Transfer_Resume :: bool
  Transfer_Aborted :: bool
  Transfer_Batchable :: bool

definition Transfer_items :: "Transfer \<Rightarrow> item list" where
  "Transfer_items t =
     [mandatory (Handle_MarshalBuffer (Transfer_Handle t)),
      present_if (Transfer_DeliveryID t \<noteq> 0) (DeliveryNumber_MarshalBuffer (Transfer_DeliveryID t)),
      present_some (\<lambda>x. Ret (DeliveryTag_MarshalBuffer x)) (Transfer_DeliveryTag t),
      present_if (Transfer_MessageFormat t \<noteq> 0) (MessageFormat_MarshalBuffer (Transfer_MessageFormat t)),
      present_if (Transfer_Settled t) (marshalBoolean (Transfer_Settled t)),
      present_if (Transfer_More t) (marshalBoolean (Transfer_More t)),
      present_if (Transfer_RcvSettleMode t \<noteq> ReceiverSettleModeNull) (ReceiverSettleMode_MarshalBuffer (Transfer_RcvSettleMode t)),
      present_some marshalDeliveryStateUnion (Transfer_State t),
      present_if (Transfer_Resume t) (marshalBoolean (Transfer_Resume t)),
      present_if (Transfer_Aborted t) (marshalBoolean (Transfer_Aborted t)),
      present_if (Transfer_Batchable t) (marshalBoolean (Transfer_Batchable t))]"

definition Transfer_MarshalBuffer :: "Transfer \<Rightarrow> bytes outcome" where
  "Transfer_MarshalBuffer t = MarshalComposite 0x14 (Transfer_items t)"

definition Transfer_zero :: Transfer where
  "Transfer_zero = \<lparr>Transfer_Handle = HandleNull, Transfer_DeliveryID = 0, Transfer_DeliveryTag = None, Transfer_MessageFormat = 0, Transfer_Settled = False, Transfer_More = False, Transfer_RcvSettleMode = ReceiverSettleModeNull, Transfer_State = None, Transfer_Resume = False, Transfer_Aborted = False, Transfer_Batchable = False\<rparr>"

definition Transfer_readers :: "(gotime \<Rightarrow> string) \<Rightarrow> Transfer field_reader list" where
  "Transfer_readers fmt =
     [field (Handle_UnmarshalBuffer) Transfer_Handle_update,
      field (DeliveryNumber_UnmarshalBuffer) Transfer_DeliveryID_update,
      field (DeliveryTag_UnmarshalBuffer) Transfer_DeliveryTag_update,
      field (MessageFormat_UnmarshalBuffer) Transfer_MessageFormat_update,
      field (scalar unmarshalBoolean) Transfer_Settled_update,
      field (scalar unmarshalBoolean) Transfer_More_update,
      field (ReceiverSettleMode_UnmarshalBuffer) Transfer_RcvSettleMode_update,
      field (unmarshalDeliveryStateUnion fmt) Transfer_State_update,
      field (scalar unmarshalBoolean) Transfer_Resume_update,
      field (scalar unmarshalBoolean) Transfer_Aborted_update,
      field (scalar unmarshalBoolean) Transfer_Batchable_update]"

definition Transfer_UnmarshalBuffer :: "(gotime \<Rightarrow> string) \<Rightarrow> bytes \<Rightarrow> Transfer decoded" where
  "Transfer_UnmarshalBuffer fmt = UnmarshalComposite 0x14 Transfer_zero (Transfer_readers fmt)"

definition valid_Transfer :: "Transfer \<Rightarrow> bool" where
  "valid_Transfer t \<longleftrightarrow>
     (case Transfer_State t of None \<Rightarrow> \<not> Transfer_Resume t \<and> \<not> Transfer_Aborted t \<and> \<not> Transfer_Batchable t | Some e \<Rightarrow> valid_DeliveryState e)"

interpretation Transfer_type: composite_type "0x14" Transfer_items Transfer_zero "Transfer_readers fmt" valid_Transfer for fmt
proof unfold_locales
  show "valid_Transfer t \<Longrightarrow> fields_code t (Transfer_items t) (Transfer_readers fmt) Transfer_zero" for t
    unfolding Transfer_items_def Transfer_readers_def Transfer_zero_def restricted
    by (rule item_intros | (cases t; simp add: valid_Transfer_def absent_iff; fail)
      | (cases t; auto simp: valid_Transfer_def absent_iff split: option.splits; fail))+
qed (simp add: Transfer_items_def)

lemma Transfer_codes:
  "valid_Transfer t \<Longrightarrow> Transfer_MarshalBuffer t = Ret bs \<Longrightarrow> length bs < 4294967296 \<Longrightarrow> codes (Transfer_UnmarshalBuffer fmt) bs t"
  unfolding Transfer_MarshalBuffer_def Transfer_UnmarshalBuffer_def by (rule Transfer_type.round_trip)

record Disposition =
  Disposition_Role :: bool
  Disposition_First :: u32
  Disposition_Last :: u32
  Disposition_Settled :: bool
  Disposition_State :: "DeliveryState option"
  Disposition_Batchable :: bool

definition Disposition_items :: "Disposition \<Rightarrow> item list" where
  "Disposition_items t =
     [mandatory (Role_MarshalBuffer (Disposition_Role t)),
      mandatory (DeliveryNumber_MarshalBuffer (Disposition_First t)),
      present_if (Disposition_Last t \<noteq> 0) (DeliveryNumber_MarshalBuffer (Disposition_Last t)),
      present_if (Disposition_Settled t) (marshalBoolean (Disposition_Settled t)),
      present_some marshalDeliveryStateUnion (Disposition_State t),
      present_if (Disposition_Batchable t) (marshalBoolean (Disposition_Batchable t))]"

definition Disposition_MarshalBuffer :: "Disposition \<Rightarrow> bytes outcome" where
  "Disposition_MarshalBuffer t = MarshalComposite 0x15 (Disposition_items t)"

definition Disposition_zero :: Disposition where
  "Disposition_zero = \<lparr>Disposition_Role = False, Disposition_First = 0, Disposition_Last = 0, Disposition_Settled = False, Disposition_State = None, Disposition_Batchable = False\<rparr>"

definition Disposition_readers :: "(gotime \<Rightarrow> string) \<Rightarrow> Disposition field_reader list" where
  "Disposition_readers fmt =
     [field (Role_UnmarshalBuffer) Disposition_Role_update,
      field (DeliveryNumber_UnmarshalBuffer) Disposition_First_update,
      field (DeliveryNumber_UnmarshalBuffer) Disposition_Last_update,
      field (scalar unmarshalBoolean) Disposition_Settled_update,
      field (unmarshalDeliveryStateUnion fmt) Disposition_State_update,
      field (scalar unmarshalBoolean) Disposition_Batchable_update]"

definition Disposition_UnmarshalBuffer :: "(gotime \<Rightarrow> string) \<Rightarrow> bytes \<Rightarrow> Disposition decoded" where
  "Disposition_UnmarshalBuffer fmt = UnmarshalComposite 0x15 Disposition_zero (Disposition_readers fmt)"

definition valid_Disposition :: "Disposition \<Rightarrow> bool" where
  "valid_Disposition t \<longleftrightarrow>
     (case Disposition_State t of None \<Rightarrow> \<not> Disposition_Batchable t | Some e \<Rightarrow> valid_DeliveryState e)"

interpretation Disposition_type: composite_type "0x15" Disposition_items Disposition_zero "Disposition_readers fmt" valid_Disposition for fmt
proof unfold_locales
  show "valid_Disposition t \<Longrightarrow> fields_code t (Disposition_items t) (Disposition_readers fmt) Disposition_zero" for t
    unfolding Disposition_items_def Disposition_readers_def Disposition_zero_def restricted
    by (rule item_intros | (cases t; simp add: valid_Disposition_def absent_iff; fail)
      | (cases t; auto simp: valid_Disposition_def absent_iff split: option.splits; fail))+
qed (simp add: Disposition_items_def)

lemma Disposition_codes:
  "valid_Disposition t \<Longrightarrow> Disposition_MarshalBuffer t = Ret bs \<Longrightarrow> length bs < 4294967296 \<Longrightarrow> codes (Disposition_UnmarshalBuffer fmt) bs t"
  unfolding Disposition_MarshalBuffer_def Disposition_UnmarshalBuffer_def by (rule Disposition_type.round_trip)

record Detach =
  Detach_Handle :: u32
  Detach_Closed :: bool
  Detach_Error :: "Error option"

definition Detach_items :: "Detach \<Rightarrow> item list" where
  "Detach_items t =
     [mandatory (Handle_MarshalBuffer (Detach_Handle t)),
      present_if (Detach_Closed t) (marshalBoolean (Detach_Closed t)),
      present_some Error_MarshalBuffer (Detach_Error t)]"

definition Detach_MarshalBuffer :: "Detach \<Rightarrow> bytes outcome" where
  "Detach_MarshalBuffer t = MarshalComposite 0x16 (Detach_items t)"

definition Detach_zero :: Detach where
  "Detach_zero = \<lparr>Detach_Handle = HandleNull, Detach_Closed = False, Detach_Error = None\<rparr>"

definition Detach_readers :: "(gotime \<Rightarrow> string) \<Rightarrow> Detach field_reader list" where
  "Detach_readers fmt =
     [field (Handle_UnmarshalBuffer) Detach_Handle_update,
      field (scalar unmarshalBoolean) Detach_Closed_update,
      field (nullable (Error_UnmarshalBuffer fmt)) Detach_Error_update]"

definition Detach_UnmarshalBuffer :: "(gotime \<Rightarrow> string) \<Rightarrow> bytes \<Rightarrow> Detach decoded" where
  "Detach_UnmarshalBuffer fmt = UnmarshalComposite 0x16 Detach_zero (Detach_readers fmt)"

definition valid_Detach :: "Detach \<Rightarrow> bool" where
  "valid_Detach t \<longleftrightarrow>
     (case Detach_Error t of None \<Rightarrow> True | Some e \<Rightarrow> valid_Error e)"

interpretation Detach_type: composite_type "0x16" Detach_items Detach_zero "Detach_readers fmt" valid_Detach for fmt
proof unfold_locales
  show "valid_Detach t \<Longrightarrow> fields_code t (Detach_items t) (Detach_readers fmt) Detach_zero" for t
    unfolding Detach_items_def Detach_readers_def Detach_zero_def restricted
    by (rule item_intros | (cases t; simp add: valid_Detach_def absent_iff; fail)
      | (cases t; auto simp: valid_Detach_def absent_iff split: option.splits; fail))+
qed (simp add: Detach_items_def)

lemma Detach_codes:
  "valid_Detach t \<Longrightarrow> Detach_MarshalBuffer t = Ret bs \<Longrightarrow> length bs < 4294967296 \<Longrightarrow> codes (Detach_UnmarshalBuffer fmt) bs t"
  unfolding Detach_MarshalBuffer_def Detach_UnmarshalBuffer_def by (rule Detach_type.round_trip)

record End =
  End_Error :: "Error option"

definition End_items :: "End \<Rightarrow> item list" where
  "End_items t =
     [present_some Error_MarshalBuffer (End_Error t)]"

definition End_MarshalBuffer :: "End \<Rightarrow> bytes outcome" where
  "End_MarshalBuffer t = MarshalComposite 0x17 (End_items t)"

definition End_zero :: End where
  "End_zero = \<lparr>End_Error = None\<rparr>"

definition End_readers :: "(gotime \<Rightarrow> string) \<Rightarrow> End field_reader list" where
  "End_readers fmt =
     [field (nullable (Error_UnmarshalBuffer fmt)) End_Error_update]"

definition End_UnmarshalBuffer :: "(gotime \<Rightarrow> string) \<Rightarrow> bytes \<Rightarrow> End decoded" where
  "End_UnmarshalBuffer fmt = UnmarshalComposite 0x17 End_zero (End_readers fmt)"

definition valid_End :: "End \<Rightarrow> bool" where
  "valid_End t \<longleftrightarrow>
     (case End_Error t of None \<Rightarrow> True | Some e \<Rightarrow> valid_Error e)"

interpretation End_type: composite_type "0x17" End_items End_zero "End_readers fmt" valid_End for fmt
proof unfold_locales
  show "valid_End t \<Longrightarrow> fields_code t (End_items t) (End_readers fmt) End_zero" for t
    unfolding End_items_def End_readers_def End_zero_def restricted
    by (rule item_intros | (cases t; simp add: valid_End_def absent_iff; fail)
      | (cases t; auto simp: valid_End_def absent_iff split: option.splits; fail))+
qed (simp add: End_items_def)

lemma End_codes:
  "valid_End t \<Longrightarrow> End_MarshalBuffer t = Ret bs \<Longrightarrow> length bs < 4294967296 \<Longrightarrow> codes (End_UnmarshalBuffer fmt) bs t"
  unfolding End_MarshalBuffer_def End_UnmarshalBuffer_def by (rule End_type.round_trip)

record Close =
  Close_Error :: "Error option"

definition Close_items :: "Close \<Rightarrow> item list" where
  "Close_items t =
     [present_some Error_MarshalBuffer (Close_Error t)]"

definition Close_MarshalBuffer :: "Close \<Rightarrow> bytes outcome" where
  "Close_MarshalBuffer t = MarshalComposite 0x18 (Close_items t)"

definition Close_zero :: Close where
  "Close_zero = \<lparr>Close_Error = None\<rparr>"

definition Close_readers :: "(gotime \<Rightarrow> string) \<Rightarrow> Close field_reader list" where
  "Close_readers fmt =
     [field (nullable (Error_UnmarshalBuffer fmt)) Close_Error_update]"

definition Close_UnmarshalBuffer :: "(gotime \<Rightarrow> string) \<Rightarrow> bytes \<Rightarrow> Close decoded" where
  "Close_UnmarshalBuffer fmt = UnmarshalComposite 0x18 Close_zero (Close_readers fmt)"

definition valid_Close :: "Close \<Rightarrow> bool" where
  "valid_Close t \<longleftrightarrow>
     (case Close_Error t of None \<Rightarrow> True | Some e \<Rightarrow> valid_Error e)"

interpretation Close_type: composite_type "0x18" Close_items Close_zero "Close_readers fmt" valid_Close for fmt
proof unfold_locales
  show "valid_Close t \<Longrightarrow> fields_code t (Close_items t) (Close_readers fmt) Close_zero" for t
    unfolding Close_items_def Close_readers_def Close_zero_def restricted
    by (rule item_intros | (cases t; simp add: valid_Close_def absent_iff; fail)
      | (cases t; auto simp: valid_Close_def absent_iff split: option.splits; fail))+
qed (simp add: Close_items_def)

lemma Close_codes:
  "valid_Close t \<Longrightarrow> Close_MarshalBuffer t = Ret bs \<Longrightarrow> length bs < 4294967296 \<Longrightarrow> codes (Close_UnmarshalBuffer fmt) bs t"
  unfolding Close_MarshalBuffer_def Close_UnmarshalBuffer_def by (rule Close_type.round_trip)

subsection \<open>SASL\<close>

record SASLMechanisms =
  SASLMechanisms_SASLServerMechanisms :: "string list option"

definition SASLMechanisms_items :: "SASLMechanisms \<Rightarrow> item list" where
  "SASLMechanisms_items t =
     [mandatory (marshalSymbolArray (SASLMechanisms_SASLServerMechanisms t))]"

definition SASLMechanisms_MarshalBuffer :: "SASLMechanisms \<Rightarrow> bytes outcome" where
  "SASLMechanisms_MarshalBuffer t = MarshalComposite 0x40 (SASLMechanisms_items t)"

definition SASLMechanisms_zero :: SASLMechanisms where
  "SASLMechanisms_zero = \<lparr>SASLMechanisms_SASLServerMechanisms = None\<rparr>"

definition SASLMechanisms_readers :: "SASLMechanisms field_reader list" where
  "SASLMechanisms_readers =
     [field (with_constructor unmarshalSymbolArray) SASLMechanisms_SASLServerMechanisms_update]"

definition SASLMechanisms_UnmarshalBuffer :: "bytes \<Rightarrow> SASLMechanisms decoded" where
  "SASLMechanisms_UnmarshalBuffer = UnmarshalComposite 0x40 SASLMechanisms_zero SASLMechanisms_readers"

definition valid_SASLMechanisms :: "SASLMechanisms \<Rightarrow> bool" where
  "valid_SASLMechanisms t \<longleftrightarrow>
     True"

interpretation SASLMechanisms_type: composite_type "0x40" SASLMechanisms_items SASLMechanisms_zero SASLMechanisms_readers valid_SASLMechanisms
proof unfold_locales
  show "valid_SASLMechanisms t \<Longrightarrow> fields_code t (SASLMechanisms_items t) SASLMechanisms_readers SASLMechanisms_zero" for t
    unfolding SASLMechanisms_items_def SASLMechanisms_readers_def SASLMechanisms_zero_def restricted
    by (rule item_intros | (cases t; simp add: valid_SASLMechanisms_def absent_iff; fail)
      | (cases t; auto simp: valid_SASLMechanisms_def absent_iff split: option.splits; fail))+
qed (simp add: SASLMechanisms_items_def)

lemma SASLMechanisms_codes:
  "valid_SASLMechanisms t \<Longrightarrow> SASLMechanisms_MarshalBuffer t = Ret bs \<Longrightarrow> length bs < 4294967296 \<Longrightarrow> codes SASLMechanisms_UnmarshalBuffer bs t"
  unfolding SASLMechanisms_MarshalBuffer_def SASLMechanisms_UnmarshalBuffer_def by (rule SASLMechanisms_type.round_trip)

record SASLInit =
  SASLInit_Mechanism :: string
  SASLInit_InitialResponse :: "bytes option"
  SASLInit_Hostname :: string

definition SASLInit_items :: "SASLInit \<Rightarrow> item list" where
  "SASLInit_items t =
     [mandatory (marshalSymbol (SASLInit_Mechanism t)),
      present_some (\<lambda>x. Ret (marshalBinary x)) (SASLInit_InitialResponse t),
      present_if (SASLInit_Hostname t \<noteq> []) (marshalString (SASLInit_Hostname t))]"

definition SASLInit_MarshalBuffer :: "SASLInit \<Rightarrow> bytes outcome" where
  "SASLInit_MarshalBuffer t = MarshalComposite 0x41 (SASLInit_items t)"

definition SASLInit_zero :: SASLInit where
  "SASLInit_zero = \<lparr>SASLInit_Mechanism = [], SASLInit_InitialResponse = None, SASLInit_Hostname = []\<rparr>"

definition SASLInit_readers :: "SASLInit field_reader list" where
  "SASLInit_readers =
     [field (scalar unmarshalSymbol) SASLInit_Mechanism_update,
      field (scalar unmarshalBinary) SASLInit_InitialResponse_update,
      field (scalar unmarshalString) SASLInit_Hostname_update]"

definition SASLInit_UnmarshalBuffer :: "bytes \<Rightarrow> SASLInit decoded" where
  "SASLInit_UnmarshalBuffer = UnmarshalComposite 0x41 SASLInit_zero SASLInit_readers"

definition valid_SASLInit :: "SASLInit \<Rightarrow> bool" where
  "valid_SASLInit t \<longleftrightarrow>
     length (SASLInit_Mechanism t) \<le> 255"

interpretation SASLInit_type: composite_type "0x41" SASLInit_items SASLInit_zero SASLInit_readers valid_SASLInit
proof unfold_locales
  show "valid_SASLInit t \<Longrightarrow> fields_code t (SASLInit_items t) SASLInit_readers SASLInit_zero" for t
    unfolding SASLInit_items_def SASLInit_readers_def SASLInit_zero_def restricted
    by (rule item_intros | (cases t; simp add: valid_SASLInit_def absent_iff; fail)
      | (cases t; auto simp: valid_SASLInit_def absent_iff split: option.splits; fail))+
qed (simp add: SASLInit_items_def)

lemma SASLInit_codes:
  "valid_SASLInit t \<Longrightarrow> SASLInit_MarshalBuffer t = Ret bs \<Longrightarrow> length bs < 4294967296 \<Longrightarrow> codes SASLInit_UnmarshalBuffer bs t"
  unfolding SASLInit_MarshalBuffer_def SASLInit_UnmarshalBuffer_def by (rule SASLInit_type.round_trip)

record SASLChallenge =
  SASLChallenge_Challenge :: "bytes option"

definition SASLChallenge_items :: "SASLChallenge \<Rightarrow> item list" where
  "SASLChallenge_items t =
     [mandatory (marshalBinary (slice (SASLChallenge_Challenge t)))]"

definition SASLChallenge_MarshalBuffer :: "SASLChallenge \<Rightarrow> bytes outcome" where
  "SASLChallenge_MarshalBuffer t = MarshalComposite 0x42 (SASLChallenge_items t)"

definition SASLChallenge_zero :: SASLChallenge where
  "SASLChallenge_zero = \<lparr>SASLChallenge_Challenge = None\<rparr>"

definition SASLChallenge_readers :: "SASLChallenge field_reader list" where
  "SASLChallenge_readers =
     [field (scalar unmarshalBinary) SASLChallenge_Challenge_update]"

definition SASLChallenge_UnmarshalBuffer :: "bytes \<Rightarrow> SASLChallenge decoded" where
  "SASLChallenge_UnmarshalBuffer = UnmarshalComposite 0x42 SASLChallenge_zero SASLChallenge_readers"

definition valid_SASLChallenge :: "SASLChallenge \<Rightarrow> bool" where
  "valid_SASLChallenge t \<longleftrightarrow>
     SASLChallenge_Challenge t \<noteq> None"

interpretation SASLChallenge_type: composite_type "0x42" SASLChallenge_items SASLChallenge_zero SASLChallenge_readers valid_SASLChallenge
proof unfold_locales
  show "valid_SASLChallenge t \<Longrightarrow> fields_code t (SASLChallenge_items t) SASLChallenge_readers SASLChallenge_zero" for t
    unfolding SASLChallenge_items_def SASLChallenge_readers_def SASLChallenge_zero_def restricted
    by (rule item_intros | (cases t; simp add: valid_SASLChallenge_def absent_iff; fail)
      | (cases t; auto simp: valid_SASLChallenge_def absent_iff split: option.splits; fail))+
qed (simp add: SASLChallenge_items_def)

lemma SASLChallenge_codes:
  "valid_SASLChallenge t \<Longrightarrow> SASLChallenge_MarshalBuffer t = Ret bs \<Longrightarrow> length bs < 4294967296 \<Longrightarrow> codes SASLChallenge_UnmarshalBuffer bs t"
  unfolding SASLChallenge_MarshalBuffer_def SASLChallenge_UnmarshalBuffer_def by (rule SASLChallenge_type.round_trip)

record SASLResponse =
  SASLResponse_Response :: "bytes option"

definition SASLResponse_items :: "SASLResponse \<Rightarrow> item list" where
  "SASLResponse_items t =
     [mandatory (marshalBinary (slice (SASLResponse_Response t)))]"

definition SASLResponse_MarshalBuffer :: "SASLResponse \<Rightarrow> bytes outcome" where
  "SASLResponse_MarshalBuffer t = MarshalComposite 0x43 (SASLResponse_items t)"

definition SASLResponse_zero :: SASLResponse where
  "SASLResponse_zero = \<lparr>SASLResponse_Response = None\<rparr>"

definition SASLResponse_readers :: "SASLResponse field_reader list" where
  "SASLResponse_readers =
     [field (scalar unmarshalBinary) SASLResponse_Response_update]"

definition SASLResponse_UnmarshalBuffer :: "bytes \<Rightarrow> SASLResponse decoded" where
  "SASLResponse_UnmarshalBuffer = UnmarshalComposite 0x43 SASLResponse_zero SASLResponse_readers"

definition valid_SASLResponse :: "SASLResponse \<Rightarrow> bool" where
  "valid_SASLResponse t \<longleftrightarrow>
     SASLResponse_Response t \<noteq> None"

interpretation SASLResponse_type: composite_type "0x43" SASLResponse_items SASLResponse_zero SASLResponse_readers valid_SASLResponse
proof unfold_locales
  show "valid_SASLResponse t \<Longrightarrow> fields_code t (SASLResponse_items t) SASLResponse_readers SASLResponse_zero" for t
    unfolding SASLResponse_items_def SASLResponse_readers_def SASLResponse_zero_def restricted
    by (rule item_intros | (cases t; simp add: valid_SASLResponse_def absent_iff; fail)
      | (cases t; auto simp: valid_SASLResponse_def absent_iff split: option.splits; fail))+
qed (simp add: SASLResponse_items_def)

lemma SASLResponse_codes:
  "valid_SASLResponse t \<Longrightarrow> SASLResponse_MarshalBuffer t = Ret bs \<Longrightarrow> length bs < 4294967296 \<Longrightarrow> codes SASLResponse_UnmarshalBuffer bs t"
  unfolding SASLResponse_MarshalBuffer_def SASLResponse_UnmarshalBuffer_def by (rule SASLResponse_type.round_trip)

record SASLOutcome =
  SASLOutcome_Code :: u8
  SASLOutcome_AdditionalData :: "bytes option"

definition SASLOutcome_items :: "SASLOutcome \<Rightarrow> item list" where
  "SASLOutcome_items t =
     [mandatory (SASLCode_MarshalBuffer (SASLOutcome_Code t)),
      present_some (\<lambda>x. Ret (marshalBinary x)) (SASLOutcome_AdditionalData t)]"

definition SASLOutcome_MarshalBuffer :: "SASLOutcome \<Rightarrow> bytes outcome" where
  "SASLOutcome_MarshalBuffer t = MarshalComposite 0x44 (SASLOutcome_items t)"

definition SASLOutcome_zero :: SASLOutcome where
  "SASLOutcome_zero = \<lparr>SASLOutcome_Code = 0, SASLOutcome_AdditionalData = None\<rparr>"

definition SASLOutcome_readers :: "SASLOutcome field_reader list" where
  "SASLOutcome_readers =
     [field (SASLCode_UnmarshalBuffer) SASLOutcome_Code_update,
      field (scalar unmarshalBinary) SASLOutcome_AdditionalData_update]"

definition SASLOutcome_UnmarshalBuffer :: "bytes \<Rightarrow> SASLOutcome decoded" where
  "SASLOutcome_UnmarshalBuffer = UnmarshalComposite 0x44 SASLOutcome_zero SASLOutcome_readers"

definition valid_SASLOutcome :: "SASLOutcome \<Rightarrow> bool" where
  "valid_SASLOutcome t \<longleftrightarrow>
     True"

interpretation SASLOutcome_type: composite_type "0x44" SASLOutcome_items SASLOutcome_zero SASLOutcome_readers valid_SASLOutcome
proof unfold_locales
  show "valid_SASLOutcome t \<Longrightarrow> fields_code t (SASLOutcome_items t) SASLOutcome_readers SASLOutcome_zero" for t
    unfolding SASLOutcome_items_def SASLOutcome_readers_def SASLOutcome_zero_def restricted
    by (rule item_intros | (cases t; simp add: valid_SASLOutcome_def absent_iff; fail)
      | (cases t; auto simp: valid_SASLOutcome_def absent_iff split: option.splits; fail))+
qed (simp add: SASLOutcome_items_def)

lemma SASLOutcome_codes:
  "valid_SASLOutcome t \<Longrightarrow> SASLOutcome_MarshalBuffer t = Ret bs \<Longrightarrow> length bs < 4294967296 \<Longrightarrow> codes SASLOutcome_UnmarshalBuffer bs t"
  unfolding SASLOutcome_MarshalBuffer_def SASLOutcome_UnmarshalBuffer_def by (rule SASLOutcome_type.round_trip)

end
