(* ===== verification/Amqp_V1_Transport.thy ===== *)
theory Amqp_V1_Transport
  imports Amqp_V1_Performatives Amqp_Buffer
begin

text \<open>
  The framing of AMQP 1.0, \<^verbatim>\<open>amqp/v1/transport.go\<close>. \<open>Send\<close> returns the bytes it writes to the
  connection; \<open>Receive\<close> is given the reused buffer \<^verbatim>\<open>t.data\<close> and what the peer has sent, and
  returns the frame, the buffer and what is left of the input. After an error the connection is
  closed. A slice expression beyond the buffer panics. Deadlines and the errors of the connection
  other than its end are not modelled.
\<close>

record FrameMeta =
  Size :: u32
  DataOffset :: u8
  Type :: u8
  Channel :: u16
  Payload :: bytes

datatype Body =
    OpenFrame Open | BeginFrame Begin | AttachFrame Attach | FlowFrame Flow | TransferFrame Transfer
  | DispositionFrame Disposition | DetachFrame Detach | EndFrame End | CloseFrame Close
  | SASLMechanismsFrame SASLMechanisms | SASLInitFrame SASLInit | SASLChallengeFrame SASLChallenge
  | SASLResponseFrame SASLResponse | SASLOutcomeFrame SASLOutcome

datatype received = Heartbeat | Frame FrameMeta Body

datatype transport_error = FrameTooBig | MalformedFrame | ReadFailed | DescriptorFailed codec_error | UnmarshalFailed codec_error

abbreviation AMQPFrameType :: u8 where "AMQPFrameType \<equiv> 0"
abbreviation SASLFrameType :: u8 where "SASLFrameType \<equiv> 1"

subsection \<open>Sending\<close>

fun Body_MarshalBuffer :: "Body \<Rightarrow> bytes outcome" where
  "Body_MarshalBuffer (OpenFrame t) = Open_MarshalBuffer t"
| "Body_MarshalBuffer (BeginFrame t) = Begin_MarshalBuffer t"
| "Body_MarshalBuffer (AttachFrame t) = Attach_MarshalBuffer t"
| "Body_MarshalBuffer (FlowFrame t) = Flow_MarshalBuffer t"
| "Body_MarshalBuffer (TransferFrame t) = Transfer_MarshalBuffer t"
| "Body_MarshalBuffer (DispositionFrame t) = Disposition_MarshalBuffer t"
| "Body_MarshalBuffer (DetachFrame t) = Detach_MarshalBuffer t"
| "Body_MarshalBuffer (EndFrame t) = End_MarshalBuffer t"
| "Body_MarshalBuffer (CloseFrame t) = Close_MarshalBuffer t"
| "Body_MarshalBuffer (SASLMechanismsFrame t) = SASLMechanisms_MarshalBuffer t"
| "Body_MarshalBuffer (SASLInitFrame t) = SASLInit_MarshalBuffer t"
| "Body_MarshalBuffer (SASLChallengeFrame t) = SASLChallenge_MarshalBuffer t"
| "Body_MarshalBuffer (SASLResponseFrame t) = SASLResponse_MarshalBuffer t"
| "Body_MarshalBuffer (SASLOutcomeFrame t) = SASLOutcome_MarshalBuffer t"

fun frame_type :: "Body \<Rightarrow> u8" where
  "frame_type (SASLMechanismsFrame _) = SASLFrameType"
| "frame_type (SASLInitFrame _) = SASLFrameType"
| "frame_type (SASLChallengeFrame _) = SASLFrameType"
| "frame_type (SASLResponseFrame _) = SASLFrameType"
| "frame_type (SASLOutcomeFrame _) = SASLFrameType"
| "frame_type _ = AMQPFrameType"

definition frame_header :: "u32 \<Rightarrow> u8 \<Rightarrow> u16 \<Rightarrow> bytes" where
  "frame_header sz type channel = be_bytes 4 (unat sz) @ [2, type] @ be_bytes 2 (unat channel)"

text \<open>No frame is a heartbeat.\<close>

definition Send :: "u32 \<Rightarrow> (FrameMeta \<times> Body) option \<Rightarrow> (transport_error + bytes) outcome" where
  "Send frameMax frame =
     (case frame of
        None \<Rightarrow> if 8 > frameMax then Ret (Inl FrameTooBig) else Ret (Inr (frame_header 8 AMQPFrameType 0))
      | Some (meta, body) \<Rightarrow>
        and_then (Body_MarshalBuffer body) (\<lambda>data.
          let sz = 8 + of_nat (length data) + of_nat (length (Payload meta)) in
          if sz > frameMax then Ret (Inl FrameTooBig)
          else Ret (Inr (frame_header sz (frame_type body) (Channel meta) @ data @ Payload meta))))"

subsection \<open>Receiving\<close>

definition Body_UnmarshalBuffer :: "(gotime \<Rightarrow> string) \<Rightarrow> u64 \<Rightarrow> bytes \<Rightarrow> Body decoded option" where
  "Body_UnmarshalBuffer fmt d buf =
     (if d = 0x10 then Some (map_decoded OpenFrame (Open_UnmarshalBuffer fmt buf))
      else if d = 0x11 then Some (map_decoded BeginFrame (Begin_UnmarshalBuffer fmt buf))
      else if d = 0x12 then Some (map_decoded AttachFrame (Attach_UnmarshalBuffer fmt buf))
      else if d = 0x13 then Some (map_decoded FlowFrame (Flow_UnmarshalBuffer fmt buf))
      else if d = 0x14 then Some (map_decoded TransferFrame (Transfer_UnmarshalBuffer fmt buf))
      else if d = 0x15 then Some (map_decoded DispositionFrame (Disposition_UnmarshalBuffer fmt buf))
      else if d = 0x16 then Some (map_decoded DetachFrame (Detach_UnmarshalBuffer fmt buf))
      else if d = 0x17 then Some (map_decoded EndFrame (End_UnmarshalBuffer fmt buf))
      else if d = 0x18 then Some (map_decoded CloseFrame (Close_UnmarshalBuffer fmt buf))
      else if d = 0x40 then Some (map_decoded SASLMechanismsFrame (SASLMechanisms_UnmarshalBuffer buf))
      else if d = 0x41 then Some (map_decoded SASLInitFrame (SASLInit_UnmarshalBuffer buf))
      else if d = 0x42 then Some (map_decoded SASLChallengeFrame (SASLChallenge_UnmarshalBuffer buf))
      else if d = 0x43 then Some (map_decoded SASLResponseFrame (SASLResponse_UnmarshalBuffer buf))
      else if d = 0x44 then Some (map_decoded SASLOutcomeFrame (SASLOutcome_UnmarshalBuffer buf))
      else None)"

definition content_frame :: "(gotime \<Rightarrow> string) \<Rightarrow> FrameMeta \<Rightarrow> bytes \<Rightarrow> (transport_error + received) outcome" where
  "content_frame fmt meta content =
     (case peek_descriptor content of
        Crash \<Rightarrow> Panic ''descriptor''
      | Wrong e \<Rightarrow> Ret (Inl (if content \<noteq> [] \<and> hd content \<noteq> DescriptorEncoding then MalformedFrame else DescriptorFailed e))
      | Got d _ \<Rightarrow>
        (case Body_UnmarshalBuffer fmt d content of None \<Rightarrow> Ret (Inl MalformedFrame)
         | Some Crash \<Rightarrow> Panic ''unmarshal''
         | Some (Wrong e) \<Rightarrow> Ret (Inl (UnmarshalFailed e))
         | Some (Got body rest) \<Rightarrow> Ret (Inr (Frame (meta\<lparr>Payload := rest\<rparr>) body))))"

definition header_meta :: "bytes \<Rightarrow> FrameMeta" where
  "header_meta h =
     \<lparr>Size = of_nat (be_value (take 4 h)), DataOffset = h ! 4, Type = h ! 5,
      Channel = of_nat (be_value (take 2 (drop 6 h))), Payload = []\<rparr>"

text \<open>The content of a frame with a non-empty body: the announced offset of the data shortens the
  content at its end.\<close>

definition receive_content :: "(gotime \<Rightarrow> string) \<Rightarrow> FrameMeta \<Rightarrow> u32 \<Rightarrow> bytes \<Rightarrow> (transport_error + received) outcome" where
  "receive_content fmt meta dataSize data =
     (if Type meta = AMQPFrameType \<or> Type meta = SASLFrameType then
        and_then (slice_to data (dataSize - (4 * ucast (DataOffset meta) - 8))) (content_frame fmt meta)
      else Ret (Inl MalformedFrame))"

definition receive_into :: "(gotime \<Rightarrow> string) \<Rightarrow> FrameMeta \<Rightarrow> u32 \<Rightarrow> bytes \<Rightarrow> bytes \<Rightarrow>
    (transport_error + received \<times> bytes \<times> bytes) outcome" where
  "receive_into fmt meta dataSize data input =
     (if dataSize = 0 then
        (if Type meta = AMQPFrameType then Ret (Inr (Heartbeat, data, input)) else Ret (Inl MalformedFrame))
      else and_then (slice_to data dataSize) (\<lambda>_.
        case split_next (unat dataSize) input of None \<Rightarrow> Ret (Inl ReadFailed)
        | Some (c, rest) \<Rightarrow>
          and_then (receive_content fmt meta dataSize (c @ drop (unat dataSize) data)) (\<lambda>r.
            case r of Inl e \<Rightarrow> Ret (Inl e) | Inr f \<Rightarrow> Ret (Inr (f, c @ drop (unat dataSize) data, rest)))))"

definition Receive :: "(gotime \<Rightarrow> string) \<Rightarrow> u32 \<Rightarrow> bytes \<Rightarrow> bytes \<Rightarrow> (transport_error + received \<times> bytes \<times> bytes) outcome" where
  "Receive fmt frameMax data input =
     (case split_next 8 input of None \<Rightarrow> Ret (Inl ReadFailed)
      | Some (h, rest) \<Rightarrow>
        if Size (header_meta h) > frameMax then Ret (Inl FrameTooBig)
        else receive_into fmt (header_meta h) (Size (header_meta h) - 8)
               (grown (h @ drop 8 data) (Size (header_meta h) - 8)) rest)"

subsection \<open>Frames read back\<close>

fun valid_Body :: "Body \<Rightarrow> bool" where
  "valid_Body (OpenFrame t) = valid_Open t"
| "valid_Body (BeginFrame t) = valid_Begin t"
| "valid_Body (AttachFrame t) = valid_Attach t"
| "valid_Body (FlowFrame t) = valid_Flow t"
| "valid_Body (TransferFrame t) = valid_Transfer t"
| "valid_Body (DispositionFrame t) = valid_Disposition t"
| "valid_Body (DetachFrame t) = valid_Detach t"
| "valid_Body (EndFrame t) = valid_End t"
| "valid_Body (CloseFrame t) = valid_Close t"
| "valid_Body (SASLMechanismsFrame t) = valid_SASLMechanisms t"
| "valid_Body (SASLInitFrame t) = valid_SASLInit t"
| "valid_Body (SASLChallengeFrame t) = valid_SASLChallenge t"
| "valid_Body (SASLResponseFrame t) = valid_SASLResponse t"
| "valid_Body (SASLOutcomeFrame t) = valid_SASLOutcome t"

lemma Body_codes:
  assumes "valid_Body x" and "Body_MarshalBuffer x = Ret bs" and "length bs < 4294967296"
  shows "\<exists>d buf. peek_descriptor (bs @ rest) = Got d buf \<and> Body_UnmarshalBuffer fmt d (bs @ rest) = Some (Got x rest)"
proof (cases x)
  case (OpenFrame t)
  then show ?thesis
    using assms peek_composite [of "0x10" "Open_items t" bs rest] map_decoded_codes [OF Open_codes, of t bs]
    by (auto simp: Body_UnmarshalBuffer_def Open_MarshalBuffer_def intro!: exI [of _ "0x10 :: u64"])
next
  case (BeginFrame t)
  then show ?thesis
    using assms peek_composite [of "0x11" "Begin_items t" bs rest] map_decoded_codes [OF Begin_codes, of t bs]
    by (auto simp: Body_UnmarshalBuffer_def Begin_MarshalBuffer_def intro!: exI [of _ "0x11 :: u64"])
next
  case (AttachFrame t)
  then show ?thesis
    using assms peek_composite [of "0x12" "Attach_items t" bs rest] map_decoded_codes [OF Attach_codes, of t bs]
    by (auto simp: Body_UnmarshalBuffer_def Attach_MarshalBuffer_def intro!: exI [of _ "0x12 :: u64"])
next
  case (FlowFrame t)
  then show ?thesis
    using assms peek_composite [of "0x13" "Flow_items t" bs rest] map_decoded_codes [OF Flow_codes, of t bs]
    by (auto simp: Body_UnmarshalBuffer_def Flow_MarshalBuffer_def intro!: exI [of _ "0x13 :: u64"])
next
  case (TransferFrame t)
  then show ?thesis
    using assms peek_composite [of "0x14" "Transfer_items t" bs rest] map_decoded_codes [OF Transfer_codes, of t bs]
    by (auto simp: Body_UnmarshalBuffer_def Transfer_MarshalBuffer_def intro!: exI [of _ "0x14 :: u64"])
next
  case (DispositionFrame t)
  then show ?thesis
    using assms peek_composite [of "0x15" "Disposition_items t" bs rest] map_decoded_codes [OF Disposition_codes, of t bs]
    by (auto simp: Body_UnmarshalBuffer_def Disposition_MarshalBuffer_def intro!: exI [of _ "0x15 :: u64"])
next
  case (DetachFrame t)
  then show ?thesis
    using assms peek_composite [of "0x16" "Detach_items t" bs rest] map_decoded_codes [OF Detach_codes, of t bs]
    by (auto simp: Body_UnmarshalBuffer_def Detach_MarshalBuffer_def intro!: exI [of _ "0x16 :: u64"])
next
  case (EndFrame t)
  then show ?thesis
    using assms peek_composite [of "0x17" "End_items t" bs rest] map_decoded_codes [OF End_codes, of t bs]
    by (auto simp: Body_UnmarshalBuffer_def End_MarshalBuffer_def intro!: exI [of _ "0x17 :: u64"])
next
  case (CloseFrame t)
  then show ?thesis
    using assms peek_composite [of "0x18" "Close_items t" bs rest] map_decoded_codes [OF Close_codes, of t bs]
    by (auto simp: Body_UnmarshalBuffer_def Close_MarshalBuffer_def intro!: exI [of _ "0x18 :: u64"])
next
  case (SASLMechanismsFrame t)
  then show ?thesis
    using assms peek_composite [of "0x40" "SASLMechanisms_items t" bs rest] map_decoded_codes [OF SASLMechanisms_codes, of t bs]
    by (auto simp: Body_UnmarshalBuffer_def SASLMechanisms_MarshalBuffer_def intro!: exI [of _ "0x40 :: u64"])
next
  case (SASLInitFrame t)
  then show ?thesis
    using assms peek_composite [of "0x41" "SASLInit_items t" bs rest] map_decoded_codes [OF SASLInit_codes, of t bs]
    by (auto simp: Body_UnmarshalBuffer_def SASLInit_MarshalBuffer_def intro!: exI [of _ "0x41 :: u64"])
next
  case (SASLChallengeFrame t)
  then show ?thesis
    using assms peek_composite [of "0x42" "SASLChallenge_items t" bs rest] map_decoded_codes [OF SASLChallenge_codes, of t bs]
    by (auto simp: Body_UnmarshalBuffer_def SASLChallenge_MarshalBuffer_def intro!: exI [of _ "0x42 :: u64"])
next
  case (SASLResponseFrame t)
  then show ?thesis
    using assms peek_composite [of "0x43" "SASLResponse_items t" bs rest] map_decoded_codes [OF SASLResponse_codes, of t bs]
    by (auto simp: Body_UnmarshalBuffer_def SASLResponse_MarshalBuffer_def intro!: exI [of _ "0x43 :: u64"])
next
  case (SASLOutcomeFrame t)
  then show ?thesis
    using assms peek_composite [of "0x44" "SASLOutcome_items t" bs rest] map_decoded_codes [OF SASLOutcome_codes, of t bs]
    by (auto simp: Body_UnmarshalBuffer_def SASLOutcome_MarshalBuffer_def intro!: exI [of _ "0x44 :: u64"])
qed

lemma frame_header_length [simp]: "length (frame_header sz ty ch) = 8"
  by (simp add: frame_header_def)

lemma header_meta_header:
  "header_meta (frame_header sz ty ch) = \<lparr>Size = sz, DataOffset = 2, Type = ty, Channel = ch, Payload = []\<rparr>"
proof -
  have "frame_header sz ty ch ! 4 = 2" "frame_header sz ty ch ! 5 = ty"
    by (simp_all add: frame_header_def nth_append)
  moreover have "take 4 (frame_header sz ty ch) = be_bytes 4 (unat sz)" "take 2 (drop 6 (frame_header sz ty ch)) = be_bytes 2 (unat ch)"
    by (simp_all add: frame_header_def)
  ultimately show ?thesis using unat_bound(1) [of ch] unat_bound(2) [of sz] by (simp add: header_meta_def)
qed

lemma content_read:
  assumes "valid_Body x" and "Body_MarshalBuffer x = Ret b" and "length b < 4294967296" and "unat n = length (b @ payload)"
  shows "receive_content fmt \<lparr>Size = s, DataOffset = 2, Type = frame_type x, Channel = ch, Payload = []\<rparr> n (b @ payload @ r) =
    Ret (Inr (Frame \<lparr>Size = s, DataOffset = 2, Type = frame_type x, Channel = ch, Payload = payload\<rparr> x))"
proof -
  obtain d buf where "peek_descriptor (b @ payload) = Got d buf"
      "Body_UnmarshalBuffer fmt d (b @ payload) = Some (Got x payload)"
    using Body_codes [OF assms(1-3), of payload fmt] by auto
  moreover have "frame_type x = AMQPFrameType \<or> frame_type x = SASLFrameType" by (cases x) simp_all
  ultimately show ?thesis
    using assms(4) by (auto simp: receive_content_def slice_to_def content_frame_def)
qed

text \<open>A frame that was sent is received, and the buffer stays usable.\<close>

lemma received_frame:
  assumes len: "8 \<le> length data" "length data < 4294967296"
    and body: "valid_Body x" "Body_MarshalBuffer x = Ret b"
    and sz: "length (b @ payload) + 8 \<le> 2 ^ 31" "b \<noteq> []"
    and s: "s = of_nat (length (b @ payload) + 8)" "\<not> frameMax < s"
  shows "\<exists>data'. Receive fmt frameMax data (frame_header s (frame_type x) ch @ b @ payload @ rest) =
      Ret (Inr (Frame \<lparr>Size = s, DataOffset = 2, Type = frame_type x, Channel = ch, Payload = payload\<rparr> x, data', rest)) \<and>
      8 \<le> length data' \<and> length data' < 4294967296"
proof -
  define n where "n = s - 8"
  define h where "h = frame_header s (frame_type x) ch"
  define data2 where "data2 = grown (h @ drop 8 data) n"
  have us: "unat s = length (b @ payload) + 8" using sz(1) unfolding s(1) unat_of_nat by simp
  have un: "unat n = length (b @ payload)" using us unfolding n_def by (subst unat_sub) (simp_all add: word_le_nat_alt)
  have n: "0 < n" "unat n \<le> 2 ^ 31" using un sz by (simp_all add: word_less_nat_alt)
  have l2: "unat n \<le> length data2" "8 \<le> length data2" "length data2 < 4294967296"
    unfolding data2_def using grown_length [of n "h @ drop 8 data"] n len by (simp_all add: h_def)
  have sp: "split_next (unat n) (b @ payload @ rest) = Some (b @ payload, rest)"
    using split_next_append [of "b @ payload" "unat n" rest] un by simp
  have "receive_into fmt \<lparr>Size = s, DataOffset = 2, Type = frame_type x, Channel = ch, Payload = []\<rparr> n data2 (b @ payload @ rest) =
      Ret (Inr (Frame \<lparr>Size = s, DataOffset = 2, Type = frame_type x, Channel = ch, Payload = payload\<rparr> x,
        b @ payload @ drop (unat n) data2, rest))"
    using n l2 sp content_read [OF body _ un, of fmt s ch "drop (unat n) data2"] sz
    by (simp add: receive_into_def slice_to_def word_neq_0_conv)
  moreover have "split_next 8 (h @ b @ payload @ rest) = Some (h, b @ payload @ rest)" by (simp add: h_def)
  ultimately have "Receive fmt frameMax data (h @ b @ payload @ rest) =
      Ret (Inr (Frame \<lparr>Size = s, DataOffset = 2, Type = frame_type x, Channel = ch, Payload = payload\<rparr> x,
        b @ payload @ drop (unat n) data2, rest))"
    using s(2) by (simp add: Receive_def header_meta_header [of s "frame_type x" ch, folded h_def] n_def [symmetric] data2_def [symmetric])
  moreover have "length (b @ payload @ drop (unat n) data2) = length data2" using l2 un by simp
  ultimately show ?thesis using l2 unfolding h_def by fastforce
qed

end
