(* ===== verification/Amqp_V1_Sections.thy ===== *)
theory Amqp_V1_Sections
  imports Amqp_V1_Terminus
begin

text \<open>
  The sections of a message, \<^verbatim>\<open>Header\<close>, \<^verbatim>\<open>Properties\<close>, the annotations and the data, and
  \<^verbatim>\<open>UnmarshalSection\<close>, which tells them apart by their descriptors.
\<close>

record Header =
  Header_Durable :: bool
  Header_Priority :: u8
  Header_Ttl :: u32
  Header_FirstAcquirer :: bool
  Header_DeliveryCount :: u32

definition Header_items :: "Header \<Rightarrow> item list" where
  "Header_items t =
     [present_if (Header_Durable t) (marshalBoolean (Header_Durable t)),
      present_if (Header_Priority t \<noteq> 0) (marshalUbyte (Header_Priority t)),
      present_if (Header_Ttl t \<noteq> 0) (Milliseconds_MarshalBuffer (Header_Ttl t)),
      present_if (Header_FirstAcquirer t) (marshalBoolean (Header_FirstAcquirer t)),
      present_if (Header_DeliveryCount t \<noteq> 0) (marshalUint (Header_DeliveryCount t))]"

definition Header_MarshalBuffer :: "Header \<Rightarrow> bytes outcome" where
  "Header_MarshalBuffer t = MarshalComposite 0x70 (Header_items t)"

definition Header_zero :: Header where
  "Header_zero = \<lparr>Header_Durable = False, Header_Priority = 0, Header_Ttl = 0, Header_FirstAcquirer = False, Header_DeliveryCount = 0\<rparr>"

definition Header_readers :: "Header field_reader list" where
  "Header_readers =
     [field (scalar unmarshalBoolean) Header_Durable_update,
      field (scalar unmarshalUbyte) Header_Priority_update,
      field (Milliseconds_UnmarshalBuffer) Header_Ttl_update,
      field (scalar unmarshalBoolean) Header_FirstAcquirer_update,
      field (scalar unmarshalUint) Header_DeliveryCount_update]"

definition Header_UnmarshalBuffer :: "bytes \<Rightarrow> Header decoded" where
  "Header_UnmarshalBuffer = UnmarshalComposite 0x70 Header_zero Header_readers"

definition valid_Header :: "Header \<Rightarrow> bool" where
  "valid_Header t \<longleftrightarrow>
     True"

interpretation Header_type: composite_type "0x70" Header_items Header_zero Header_readers valid_Header
proof unfold_locales
  show "valid_Header t \<Longrightarrow> fields_code t (Header_items t) Header_readers Header_zero" for t
    unfolding Header_items_def Header_readers_def Header_zero_def restricted
    by (rule item_intros | (cases t; simp add: valid_Header_def absent_iff; fail)
      | (cases t; auto simp: valid_Header_def absent_iff split: option.splits; fail))+
qed (simp add: Header_items_def)

lemma Header_codes:
  "valid_Header t \<Longrightarrow> Header_MarshalBuffer t = Ret bs \<Longrightarrow> length bs < 4294967296 \<Longrightarrow> codes Header_UnmarshalBuffer bs t"
  unfolding Header_MarshalBuffer_def Header_UnmarshalBuffer_def by (rule Header_type.round_trip)

record Properties =
  Properties_MessageID :: "MessageID option"
  Properties_UserID :: "bytes option"
  Properties_To :: "Address option"
  Properties_Subject :: string
  Properties_ReplyTo :: "Address option"
  Properties_CorrelationID :: "MessageID option"
  Properties_ContentType :: string
  Properties_ContentEncoding :: string
  Properties_AbsoluteExpiryTime :: gotime
  Properties_CreationTime :: gotime
  Properties_GroupID :: string
  Properties_GroupSequence :: u32
  Properties_ReplyToGroupID :: string

definition Properties_items :: "Properties \<Rightarrow> item list" where
  "Properties_items t =
     [present_some (\<lambda>x. Ret (MessageID_bytes x)) (Properties_MessageID t),
      present_some (\<lambda>x. Ret (marshalBinary x)) (Properties_UserID t),
      present_some (\<lambda>x. Ret (Address_bytes x)) (Properties_To t),
      present_if (Properties_Subject t \<noteq> []) (marshalString (Properties_Subject t)),
      present_some (\<lambda>x. Ret (Address_bytes x)) (Properties_ReplyTo t),
      present_some (\<lambda>x. Ret (MessageID_bytes x)) (Properties_CorrelationID t),
      present_if (Properties_ContentType t \<noteq> []) (marshalSymbol (Properties_ContentType t)),
      present_if (Properties_ContentEncoding t \<noteq> []) (marshalSymbol (Properties_ContentEncoding t)),
      present_if (\<not> IsZero (Properties_AbsoluteExpiryTime t)) (marshalTimestamp (Properties_AbsoluteExpiryTime t)),
      present_if (\<not> IsZero (Properties_CreationTime t)) (marshalTimestamp (Properties_CreationTime t)),
      present_if (Properties_GroupID t \<noteq> []) (marshalString (Properties_GroupID t)),
      present_if (Properties_GroupSequence t \<noteq> 0) (SequenceNo_MarshalBuffer (Properties_GroupSequence t)),
      present_if (Properties_ReplyToGroupID t \<noteq> []) (marshalString (Properties_ReplyToGroupID t))]"

definition Properties_MarshalBuffer :: "Properties \<Rightarrow> bytes outcome" where
  "Properties_MarshalBuffer t = MarshalComposite 0x73 (Properties_items t)"

definition Properties_zero :: Properties where
  "Properties_zero = \<lparr>Properties_MessageID = None, Properties_UserID = None, Properties_To = None, Properties_Subject = [], Properties_ReplyTo = None, Properties_CorrelationID = None, Properties_ContentType = [], Properties_ContentEncoding = [], Properties_AbsoluteExpiryTime = 0, Properties_CreationTime = 0, Properties_GroupID = [], Properties_GroupSequence = 0, Properties_ReplyToGroupID = []\<rparr>"

definition Properties_readers :: "Properties field_reader list" where
  "Properties_readers =
     [field (unmarshalMessageIDUnion) Properties_MessageID_update,
      field (scalar unmarshalBinary) Properties_UserID_update,
      field (unmarshalAddressUnion) Properties_To_update,
      field (scalar unmarshalString) Properties_Subject_update,
      field (unmarshalAddressUnion) Properties_ReplyTo_update,
      field (unmarshalMessageIDUnion) Properties_CorrelationID_update,
      field (scalar unmarshalSymbol) Properties_ContentType_update,
      field (scalar unmarshalSymbol) Properties_ContentEncoding_update,
      field (scalar unmarshalTimestamp) Properties_AbsoluteExpiryTime_update,
      field (scalar unmarshalTimestamp) Properties_CreationTime_update,
      field (scalar unmarshalString) Properties_GroupID_update,
      field (SequenceNo_UnmarshalBuffer) Properties_GroupSequence_update,
      field (scalar unmarshalString) Properties_ReplyToGroupID_update]"

definition Properties_UnmarshalBuffer :: "bytes \<Rightarrow> Properties decoded" where
  "Properties_UnmarshalBuffer = UnmarshalComposite 0x73 Properties_zero Properties_readers"

definition valid_Properties :: "Properties \<Rightarrow> bool" where
  "valid_Properties t \<longleftrightarrow>
     (case Properties_MessageID t of None \<Rightarrow> True | Some i \<Rightarrow> valid_MessageID i) \<and>
     (case Properties_CorrelationID t of None \<Rightarrow> True | Some i \<Rightarrow> valid_MessageID i) \<and>
     length (Properties_ContentType t) \<le> 255 \<and>
     length (Properties_ContentEncoding t) \<le> 255 \<and>
     valid_time (Properties_AbsoluteExpiryTime t) \<and>
     valid_time (Properties_CreationTime t)"

interpretation Properties_type: composite_type "0x73" Properties_items Properties_zero Properties_readers valid_Properties
proof unfold_locales
  show "valid_Properties t \<Longrightarrow> fields_code t (Properties_items t) Properties_readers Properties_zero" for t
    unfolding Properties_items_def Properties_readers_def Properties_zero_def restricted
    by (rule item_intros | (cases t; simp add: valid_Properties_def absent_iff; fail)
      | (cases t; auto simp: valid_Properties_def absent_iff split: option.splits; fail))+
qed (simp add: Properties_items_def)

lemma Properties_codes:
  "valid_Properties t \<Longrightarrow> Properties_MarshalBuffer t = Ret bs \<Longrightarrow> length bs < 4294967296 \<Longrightarrow> codes Properties_UnmarshalBuffer bs t"
  unfolding Properties_MarshalBuffer_def Properties_UnmarshalBuffer_def by (rule Properties_type.round_trip)

subsection \<open>Sections\<close>

datatype Section =
    HeaderSection Header | DeliveryAnnotationsSection pstruct | MessageAnnotationsSection pstruct
  | PropertiesSection Properties | ApplicationPropertiesSection pstruct | DataSection "bytes option"
  | FooterSection pstruct

text \<open>What \<^verbatim>\<open>unmarshalBinary\<close> leaves of the buffer when it fails.\<close>

definition failed_binary_rest :: "u8 \<Rightarrow> bytes \<Rightarrow> bytes" where
  "failed_binary_rest c buf =
     (if c = BinaryVbin8Encoding then drop 1 buf
      else if c = BinaryVbin32Encoding \<and> length buf \<ge> 4 then drop 4 buf
      else buf)"

text \<open>The error of reading the data of a data section is dropped: the section has no data then, and
  reading goes on where it stopped.\<close>

definition data_section :: "bytes \<Rightarrow> Section decoded" where
  "data_section =
     with_constructor (\<lambda>c buf. case unmarshalBinary c buf of
         Inl _ \<Rightarrow> Got (DataSection None) (failed_binary_rest c buf)
       | Inr (x, rest) \<Rightarrow> Got (DataSection x) rest)"

definition UnmarshalSection :: "(gotime \<Rightarrow> string) \<Rightarrow> bytes \<Rightarrow> Section decoded" where
  "UnmarshalSection fmt buf =
     (case peek_descriptor buf of Crash \<Rightarrow> Crash | Wrong e \<Rightarrow> Wrong e
      | Got d rest \<Rightarrow>
        if d = 0x70 then map_decoded HeaderSection (Header_UnmarshalBuffer buf)
        else if d = 0x71 then map_decoded DeliveryAnnotationsSection (DeliveryAnnotations_UnmarshalBuffer fmt buf)
        else if d = 0x72 then map_decoded MessageAnnotationsSection (MessageAnnotations_UnmarshalBuffer fmt buf)
        else if d = 0x73 then map_decoded PropertiesSection (Properties_UnmarshalBuffer buf)
        else if d = 0x74 then map_decoded ApplicationPropertiesSection (ApplicationProperties_UnmarshalBuffer fmt buf)
        else if d = 0x75 then data_section rest
        else if d = 0x78 then map_decoded FooterSection (Footer_UnmarshalBuffer fmt buf)
        else Wrong UnhandledDescriptor)"

fun Section_MarshalBuffer :: "Section \<Rightarrow> bytes outcome" where
  "Section_MarshalBuffer (HeaderSection t) = Header_MarshalBuffer t"
| "Section_MarshalBuffer (DeliveryAnnotationsSection m) = Ret (DeliveryAnnotations_MarshalBuffer m)"
| "Section_MarshalBuffer (MessageAnnotationsSection m) = Ret (MessageAnnotations_MarshalBuffer m)"
| "Section_MarshalBuffer (PropertiesSection t) = Properties_MarshalBuffer t"
| "Section_MarshalBuffer (ApplicationPropertiesSection m) = Ret (ApplicationProperties_MarshalBuffer m)"
| "Section_MarshalBuffer (DataSection x) = Ret (Data_MarshalBuffer (slice x))"
| "Section_MarshalBuffer (FooterSection m) = Ret (Footer_MarshalBuffer m)"

definition valid_struct :: "pstruct \<Rightarrow> bool" where
  "valid_struct m \<longleftrightarrow> (case m of None \<Rightarrow> False | Some m \<Rightarrow> canonical m)"

fun valid_Section :: "Section \<Rightarrow> bool" where
  "valid_Section (HeaderSection t) = valid_Header t"
| "valid_Section (PropertiesSection t) = valid_Properties t"
| "valid_Section (DataSection x) = (x \<noteq> None)"
| "valid_Section (DeliveryAnnotationsSection m) = valid_struct m"
| "valid_Section (MessageAnnotationsSection m) = valid_struct m"
| "valid_Section (ApplicationPropertiesSection m) = valid_struct m"
| "valid_Section (FooterSection m) = valid_struct m"

lemma peek_described: "peek_descriptor (DescriptorEncoding # marshalUlong d @ b) = Got d b"
  using codesD [OF codes_scalar [OF reads_Ulong], of d b] by (simp add: peek_descriptor_def)

lemma codes_struct_section:
  assumes "valid_struct m" and "length (DescriptorEncoding # marshalUlong d @ marshalMap m) < 4294967296"
  shows "codes (described d (map_struct fmt)) (DescriptorEncoding # marshalUlong d @ marshalMap m) m"
proof -
  obtain m' where m: "m = Some m'" "canonical m'" using assms(1) by (auto simp: valid_struct_def split: option.splits)
  then show ?thesis using codes_described [OF codes_struct [OF m(2)]] assms(2) by simp
qed

lemma codes_Section:
  assumes "valid_Section x" and "Section_MarshalBuffer x = Ret bs" and "length bs < 4294967296"
  shows "codes (UnmarshalSection fmt) bs x"
proof (rule codesI)
  fix rest
  have struct: "map_decoded f (described d (map_struct fmt) (bs @ rest)) = Got (f m) rest"
    if "bs = DescriptorEncoding # marshalUlong d @ marshalMap m" "valid_struct m" for d m and f :: "pstruct \<Rightarrow> Section"
    using codes_struct_section [of m d fmt] that assms(3) by (auto simp: codes_def)
  have peek: "peek_descriptor (bs @ rest) = Got d (b @ rest)" if "bs = DescriptorEncoding # marshalUlong d @ b" for d b
    using that peek_described [of d "b @ rest"] by simp
  show "UnmarshalSection fmt (bs @ rest) = Got x rest"
  proof (cases x)
    case (HeaderSection t)
    then show ?thesis
      using assms peek_composite [of "0x70" "Header_items t" bs rest] map_decoded_codes [OF Header_codes, of t bs]
      by (auto simp: UnmarshalSection_def Header_MarshalBuffer_def)
  next
    case (PropertiesSection t)
    then show ?thesis
      using assms peek_composite [of "0x73" "Properties_items t" bs rest] map_decoded_codes [OF Properties_codes, of t bs]
      by (auto simp: UnmarshalSection_def Properties_MarshalBuffer_def)
  next
    case (DataSection y)
    then obtain z where z: "y = Some z" "bs = DescriptorEncoding # marshalUlong 0x75 @ marshalBinary z"
      using assms by (auto simp: restricted slice_def)
    then have "length (marshalBinary z) < 4294967296" using assms(3) by simp
    from codesD [OF codes_written(11) [OF this], of rest]
    have "data_section (marshalBinary z @ rest) = Got (DataSection (Some z)) rest"
      by (auto simp: data_section_def scalar_def with_constructor_def decoded_of_Got split: list.splits)
    then show ?thesis using DataSection z peek [OF z(2)] by (simp add: UnmarshalSection_def)
  qed (use assms struct peek in \<open>auto simp: UnmarshalSection_def restricted\<close>)
qed

end
