(* ===== verification/Amqp_V1_Properties.thy ===== *)
theory Amqp_V1_Properties
  imports Amqp_V1_Transport Amqp_V1_Sections
begin

text \<open>
  The properties of the AMQP 1.0 wire: frames and message sections come back as they were sent, and
  what a peer can send that is refused or that crashes the broker.
\<close>

lemma Body_nonempty:
  assumes "valid_Body x" and "Body_MarshalBuffer x = Ret b" and "length b < 4294967296"
  shows "b \<noteq> []"
  using Body_codes [OF assms, of "[]" "\<lambda>_. []"] by (auto simp: peek_descriptor_def)

lemma Send_Inr:
  assumes "Send frameMax (Some (meta, x)) = Ret (Inr bs)"
  shows "\<exists>b s. Body_MarshalBuffer x = Ret b \<and> s = of_nat (length (b @ Payload meta) + 8) \<and> \<not> frameMax < s \<and>
    bs = frame_header s (frame_type x) (Channel meta) @ b @ Payload meta"
  using assms by (auto simp: Send_def Let_def add_ac split: if_splits)

text \<open>(C39) A frame that \<^verbatim>\<open>Send\<close> writes, of at most \<open>2\<^sup>3\<^sup>1\<close> bytes and with a body whose fields are
  read back, is received by \<^verbatim>\<open>Receive\<close> with its body, channel and payload, whatever is sent
  after it, and leaves the buffer fit for the next frame.\<close>

theorem sent_frame_is_received:
  assumes "valid_Body x" and "Send frameMax (Some (meta, x)) = Ret (Inr bs)" and "length bs \<le> 2 ^ 31"
    and "8 \<le> length data" and "length data < 2 ^ 32"
  shows "\<exists>meta' data'. Receive fmt frameMax data (bs @ rest) = Ret (Inr (Frame meta' x, data', rest)) \<and>
    Channel meta' = Channel meta \<and> Payload meta' = Payload meta \<and> 8 \<le> length data' \<and> length data' < 2 ^ 32"
proof -
  obtain b s where b: "Body_MarshalBuffer x = Ret b" "s = of_nat (length (b @ Payload meta) + 8)" "\<not> frameMax < s"
      "bs = frame_header s (frame_type x) (Channel meta) @ b @ Payload meta"
    using Send_Inr [OF assms(2)] by blast
  have l: "length (b @ Payload meta) + 8 \<le> 2 ^ 31" using assms(3) unfolding b(4) by simp
  then have "b \<noteq> []" by (intro Body_nonempty [OF assms(1) b(1)]) simp
  from received_frame [OF assms(4) _ assms(1) b(1) l this b(2,3), of fmt "Channel meta" rest]
  show ?thesis using assms(5) unfolding b(4) by fastforce
qed

definition demo_opening :: Open where
  "demo_opening = Open_zero\<lparr>Open_ContainerID := ''c1'', Open_MaxFrameSize := 512, Open_DesiredCapabilities := Some [''x'']\<rparr>"

definition demo_meta :: FrameMeta where
  "demo_meta = \<lparr>Size = 0, DataOffset = 0, Type = 0, Channel = 3, Payload = [1, 2]\<rparr>"

definition sent :: "(transport_error + bytes) outcome \<Rightarrow> bytes" where
  "sent r = (case r of Ret (Inr bs) \<Rightarrow> bs | _ \<Rightarrow> [])"

lemma demo_open_sent: "\<exists>bs. Send 512 (Some (demo_meta, OpenFrame demo_opening)) = Ret (Inr bs) \<and> length bs \<le> 100"
  by (simp add: demo_meta_def demo_opening_def Send_def Let_def Open_MarshalBuffer_def MarshalComposite_def Open_items_def
      Open_zero_def restricted mandatory_def present_if_def present_some_def nonempty_def marshalNull_def marshalString_def
      marshalUint_def marshalSymbolArray_def marshalUlong_def compound_def longest_def symbol_item_def)

theorem sent_frame_is_received_witness:
  "\<exists>meta' data'. Receive (\<lambda>_. []) 512 (replicate 512 0) (sent (Send 512 (Some (demo_meta, OpenFrame demo_opening))) @ [9]) =
      Ret (Inr (Frame meta' (OpenFrame demo_opening), data', [9])) \<and>
    Channel meta' = Channel demo_meta \<and> Payload meta' = Payload demo_meta \<and> 8 \<le> length data' \<and> length data' < 2 ^ 32"
proof (rule sent_frame_is_received)
  show "valid_Body (OpenFrame demo_opening)"
    by (simp add: demo_opening_def Open_zero_def valid_Open_def valid_map_def)
  show "Send 512 (Some (demo_meta, OpenFrame demo_opening)) = Ret (Inr (sent (Send 512 (Some (demo_meta, OpenFrame demo_opening)))))"
    "length (sent (Send 512 (Some (demo_meta, OpenFrame demo_opening)))) \<le> 2 ^ 31"
    using demo_open_sent by (auto simp: sent_def)
qed simp_all

text \<open>(C40) A frame whose announced size is below the eight bytes of its own header crashes the
  receiver, whatever its other bytes are: the size of its content wraps around, and the buffer that
  is allocated for it is empty.\<close>

theorem undersized_frame_crashes:
  assumes "split_next 8 input = Some (h, rest)" and "Size (header_meta h) < 8" and "8 \<le> frameMax"
    and "8 \<le> length data" and "length data < 2 ^ 31"
  shows "Receive fmt frameMax data input = Panic ''slice bounds out of range''"
proof -
  define n where "n = Size (header_meta h) - 8"
  have s: "unat (Size (header_meta h)) < 8" using assms(2) by (simp add: word_less_nat_alt)
  have e: "n = of_nat (unat (Size (header_meta h)) + (2 ^ 32 - 8))"
    unfolding n_def by (simp add: of_nat_diff)
  have un: "unat n = unat (Size (header_meta h)) + (2 ^ 32 - 8)"
    unfolding e unat_of_nat using s by simp
  have "NextPowerOfTwo32 n = 0" using NextPowerOfTwo32_spec [of n] un by simp
  moreover have "of_nat (length (h @ drop 8 data)) < n"
    using assms un split_next_length [OF assms(1)] by (simp add: word_less_nat_alt unat_of_nat)
  ultimately have "grown (h @ drop 8 data) n = []" by (simp add: grown_def)
  moreover have "n \<noteq> 0" using un by auto
  moreover have "\<not> frameMax < Size (header_meta h)" using assms(2,3) by simp
  ultimately show ?thesis
    using un assms(1) by (simp add: Receive_def n_def [symmetric] receive_into_def slice_to_def)
qed

theorem undersized_frame_crashes_witness:
  "Receive (\<lambda>_. []) 512 (replicate 512 0) [0, 0, 0, 7, 2, 0, 0, 0] = Panic ''slice bounds out of range''"
  by (rule undersized_frame_crashes [of _ "[0, 0, 0, 7, 2, 0, 0, 0]" "[]"])
    (simp_all add: split_next_def header_meta_def)

subsection \<open>Frames that cannot be read\<close>

text \<open>The reader of a delivery state does not know null, which the writer puts for an absent state
  before a present field: a batchable transfer without a state is refused. The same holds for a
  source with outcomes and no default outcome.\<close>

definition batchable_transfer :: Transfer where
  "batchable_transfer = Transfer_zero\<lparr>Transfer_Handle := 0, Transfer_Batchable := True\<rparr>"

definition source_without_default :: Source where
  "source_without_default = Source_zero\<lparr>Source_Outcomes := Some [''amqp:accepted:list'']\<rparr>"

lemmas writer_defs = MarshalComposite_def restricted mandatory_def present_if_def present_some_def nonempty_def
  marshalNull_def marshalString_def marshalUbyte_def marshalUint_def marshalBoolean_def marshalSymbolArray_def
  marshalUlong_def compound_def longest_def symbol_item_def Let_def

lemma read_fields_step:
  "read_fields (numeral k) (f # fs) t buf =
     (case f t buf of Crash \<Rightarrow> Crash | Wrong e \<Rightarrow> Wrong (FieldFailed e)
      | Got t' rest \<Rightarrow> read_fields (pred_numeral k) fs t' rest)"
  by (simp add: numeral_eq_Suc)

lemmas reader_defs = UnmarshalComposite_def read_descriptor_def scalar_def with_constructor_def null_or_def
  unmarshal_defs read8_def read_compound_def read_size_def split_next_def field_def peek_descriptor_def read_fields_step

lemma batchable_transfer_refused:
  "\<exists>bs. Transfer_MarshalBuffer batchable_transfer = Ret bs \<and>
    Transfer_UnmarshalBuffer fmt bs = Wrong (FieldFailed (UnexpectedConstructor NullEncoding))"
  by (simp add: batchable_transfer_def Transfer_zero_def Transfer_MarshalBuffer_def Transfer_items_def writer_defs
      Transfer_UnmarshalBuffer_def Transfer_readers_def reader_defs unmarshalDeliveryStateUnion_def)

lemma source_without_default_refused:
  "\<exists>bs. Source_MarshalBuffer source_without_default = Ret bs \<and>
    Source_UnmarshalBuffer fmt bs = Wrong (FieldFailed (UnexpectedConstructor NullEncoding))"
  by (simp add: source_without_default_def Source_zero_def Source_MarshalBuffer_def Source_items_def writer_defs
      Source_UnmarshalBuffer_def Source_readers_def reader_defs unmarshalOutcomeUnion_def unmarshalAddressUnion_def
      unmarshalFields_def unmarshalMap.simps)

end
