(* ===== verification/Spec2Isabelle.thy ===== *)
theory Spec2Isabelle
  imports Reconciler_Properties Consumers_Properties Segment_Properties Segment_Dir_Properties
    Routing_Properties Segment_Service_Properties Amqp_V0_Properties Amqp_V1_Properties
begin

text \<open>
  EventterMQ is a message broker (\<^verbatim>\<open>src/mq\<close>). A cluster of nodes shares a replicated state
  (namespaces, topics, consumer groups, segments, nodes) that changes only by commands of a Raft log.
  Clients and nodes send requests; the leader validates them, checks them against the state and puts
  commands into the log; its reconciler compares the state with the living nodes and puts in more. Messages
  live in append-only segment files, replicated over nodes. A consumer group receives the messages that its
  bindings accept into a ring buffer in memory, from which its subscriptions lease and
  acknowledge them; acknowledged offsets are committed. Clients may speak AMQP 0.9.1 or 1.0.

  \<^bold>\<open>Parts, theories and sources.\<close> Names of definitions are those of the code, with a prefix or
  suffix where HOL or another part has the name already; files are relative to \<^verbatim>\<open>src/mq\<close>.

  \<^item> \<open>Go_Prelude\<close>, \<open>Keyed_Lists\<close>: integers at their width, a function that may panic (\<open>outcome\<close>),
    sorting and searching as in Go's library, slices of entities with a key as maps.
  \<^item> \<open>Cluster_State\<close>: the messages of \<^verbatim>\<open>cluster_state.proto\<close> as records and the queries of
    \<^verbatim>\<open>cluster_state_queries.go\<close>. \<open>Cluster_Commands\<close>: \<^verbatim>\<open>cluster_state_do_*.go\<close> and the store of
    \<^verbatim>\<open>cluster_state_store.go\<close>; its compare-and-swap makes every command one step. \<open>Cluster_Invariant\<close>: the
    invariant, the view of a state as maps, the specification of every command on
    that view, and the contract \<open>replicated_fsm\<close> that lifts both to logs. \<open>Cluster_Store\<close>: commands and logs implement
    the specification (C1, C2), when a command panics (C3), fresh segment IDs under interleaving (C4), references (C5).
  \<^item> \<open>Reconciler\<close>: \<^verbatim>\<open>reconciler*.go\<close>; the delegate (Raft, gossip, sizes on other nodes, clock) is a
    record of arbitrary functions of the calls made so far. \<open>Reconciler_Correct\<close>, \<open>Reconciler_Properties\<close>: replication levels of
    open and closed segments, deletion exactly when due, offset commits, nodes (C6 to C10).
  \<^item> \<open>Node_Id\<close>: \<^verbatim>\<open>node_id.go\<close>, \<^verbatim>\<open>util/math.go\<close> (C11).
  \<^item> \<open>Consumers\<close>: \<^verbatim>\<open>consumers/\<close>, what each call does while it holds the mutex. \<open>Consumers_Queue\<close> reads
    the ring as a queue. \<open>Consumers_System\<close>: any number of calls as a step system with the
    contract \<open>in_order_log\<close>. \<open>Consumers_Calls\<close>: what \<open>Ack\<close> and \<open>Next\<close> do after they have released the mutex, interleaved with
    everything else. \<open>Consumers_Properties\<close>: commits, counters, leases, progress, closing (C12 to C16).
  \<^item> \<open>Byte_Codec\<close>: the contract \<open>prefix_codec\<close> of an encoding that can be read back from a stream, and Go's varints.
    \<open>Segment_File\<close>, \<open>Segment_Log\<close>, \<open>Segment_Properties\<close>: \<^verbatim>\<open>segments/file.go\<close> and \<^verbatim>\<open>iterator.go\<close>; writing and reading,
    recovery and its two failures, failed writes, iterators (C17 to C22). \<open>Segment_Dir\<close>, \<open>Segment_Dir_Properties\<close>:
    \<^verbatim>\<open>segments/dir.go\<close>, a map from paths to bytes as the file system (C23).
  \<^item> \<open>Struct_Values\<close>, \<open>Routing\<close>, \<open>Routing_Properties\<close>: \<^verbatim>\<open>match.go\<close>, routing keys and bindings (C24, C25).
  \<^item> \<open>Validation\<close>: \<^verbatim>\<open>emq/request_validation.go\<close>. \<open>Leader\<close>, \<open>Segment_Service\<close>: the handlers \<^verbatim>\<open>server_*.go\<close> of namespaces, topics, consumer
    groups and segments, with forwarding, validation, transaction and \<^verbatim>\<open>server_apply.go\<close>; Raft, connections and clock are
    the parameter \<open>raft_env\<close>. \<open>Leader_Safety\<close>: every handler keeps the invariant, lifted to sequences of
    requests by the contract \<open>safe_service\<close>. \<open>Leader_Properties\<close>, \<open>Segment_Service_Properties\<close>: types of the state, what a client reads back, the
    requests that panic, placement and shards of new segments, rotation (C26 to C32).
  \<^item> \<open>Float_Values\<close>, \<open>Amqp_Values\<close>, \<open>Amqp_Buffer\<close>: what both AMQP codecs share.
    \<open>Amqp_V0_Codec\<close>, \<open>Amqp_V0_Fields\<close> (contract \<open>method_codec\<close>), \<open>Amqp_V0_Connection\<close>, \<open>Amqp_V0_Queue\<close>, \<open>Amqp_V0_Basic\<close>,
    \<open>Amqp_V0_Content\<close>, \<open>Amqp_V0_Transport\<close>, \<open>Amqp_V0_Properties\<close>: \<^verbatim>\<open>amqp/v0\<close>, tables, methods, content headers, framing
    (C34 to C37). \<open>Amqp_V1_Types\<close>, \<open>Amqp_V1_Codec\<close>, \<open>Amqp_V1_Unions\<close>, \<open>Amqp_V1_Composite\<close> (contract \<open>composite_type\<close>), \<open>Amqp_V1_Restricted\<close>,
    \<open>Amqp_V1_Terminus\<close>, \<open>Amqp_V1_Performatives\<close>, \<open>Amqp_V1_Sections\<close>, \<open>Amqp_V1_Transport\<close>, \<open>Amqp_V1_Properties\<close>:
    \<^verbatim>\<open>amqp/v1\<close> (C38 to C40).
  \<^item> This theory: requests and routing together (C33).

  \<^bold>\<open>Conventions.\<close> A panic is \<open>Panic\<close> with its message, an error is \<open>Inl\<close>, nil is \<open>None\<close>. Durations and times are integers in one
  unit. Sizes and identifiers are words where the code's wrap-around can be reached, and \<open>i64\<close> wraps an integer to 64 bits. A critical section is one step; interleavings
  are sequences of steps (\<open>run_steps\<close>, \<open>fold_outcome\<close>, reachability predicates). Logging is left out.

  \<^bold>\<open>Fuel and bounds.\<close> A walk over the ring of a consumer group takes the number of slots as fuel: it visits every slot at most once. The scan in
  \<open>Segment_File.Open\<close> may run for ever, and is a partial function whose value is \<open>None\<close> then (C20); where a
  property says that it returns, its value is \<open>Some\<close>. Files are assumed shorter than \<open>2^62\<close> bytes and frames at most \<open>2^31\<close>, below which the signed
  offsets and sizes of the code do not wrap; what happens at the border is C36 and C40. Subscription identifiers are assumed not to have
  reached the value that marks ready messages.

  \<^bold>\<open>Not modelled.\<close> The connections of AMQP clients and their handshake, publishing and subscribing over several nodes, and the tasks of a node are goroutines over gRPC streams
  and sockets that call the parts above; the server loop, configuration, command line and client are set-up of a process; Raft, gossip and their adapters are
  libraries, and stand behind parameters; generated Protocol Buffers code is taken from the \<^verbatim>\<open>.proto\<close> files. Debug texts (\<open>String\<close>) are left out, as are deadlines, \<open>Call\<close>
  and \<open>Expect\<close> of the transports, and values that only a nil pointer or an unset \<^verbatim>\<open>oneof\<close> would give.
\<close>

lemma typed_known: "typed_binding b \<Longrightarrow> known_exchange b"
  by (auto simp: typed_binding_def known_exchange_def ExchangeTypeDirect_def ExchangeTypeFanout_def ExchangeTypeTopic_def
      ExchangeTypeHeaders_def split: BindingBy.splits)

text \<open>(C33) Delivery: in every state that the leader reaches by serving requests (none of them of the three kinds that C26 stops at), the router decides for every consumer group and every
  message without a panic: the group receives the message iff the message is not older than the group and a binding to
  its topic accepts it.\<close>

theorem delivery_after_requests:
  assumes "service_inv (cluster w)" and "ok_log acceptable (serve env) rs w" and "fold_outcome (serve env) rs w = Ret w'"
    and "GetConsumerGroup (cluster w') n g = Some cg"
  shows "messageMatches m t topic cg = Ret (Since cg \<le> t \<and> (\<exists>b \<in> set (Bindings cg). bind_TopicName b = topic \<and> accepts m b))"
proof -
  have "service_inv (cluster w')" using leader.requests_safe [OF assms(1,2)] assms(3) by auto
  then have "list_all known_exchange (Bindings cg)"
    using typed_states(2) [OF _ assms(4)] typed_known by (auto simp: typed_group_def list_all_iff)
  then show ?thesis using bindings_take_iff by (auto simp: messageMatches_def)
qed

theorem delivery_after_requests_witness:
  "\<exists>w' cg. fold_outcome (serve demo_env) demo_requests demo_leader = Ret w' \<and> GetConsumerGroup (cluster w') ''shop'' ''billing'' = Some cg \<and>
     messageMatches \<lparr>RoutingKey = ''a.b'', Headers = None\<rparr> 60 ''orders'' cg =
       Ret (Since cg \<le> 60 \<and> (\<exists>b \<in> set (Bindings cg). bind_TopicName b = ''orders'' \<and> accepts \<lparr>RoutingKey = ''a.b'', Headers = None\<rparr> b))"
proof -
  have "case fold_outcome (serve demo_env) demo_requests demo_leader of Panic _ \<Rightarrow> False
    | Ret w' \<Rightarrow> GetConsumerGroup (cluster w') ''shop'' ''billing'' \<noteq> None" by code_simp
  then obtain w' cg where w': "fold_outcome (serve demo_env) demo_requests demo_leader = Ret w'"
    "GetConsumerGroup (cluster w') ''shop'' ''billing'' = Some cg" by (auto split: outcome.splits)
  from delivery_after_requests [OF demo_leader_inv demo_acceptable w'] w' show ?thesis by blast
qed

end
